(* ===== verification/Prelude.thy ===== *)
theory Prelude
  imports Main "HOL-Library.Word"
begin

text \<open>
  The types, constants and generic facts the components share.

  The kernel is 32-bit code: an \<open>unsigned int\<close> (the source's \<open>uint\<close>, src/arch/x86/kernel/types.h)
  is a \<open>32 word\<close>, so that \<open>+\<close>, \<open>-\<close> and \<open>*\<close> wrap as they do in C, and a byte is an \<open>8 word\<close>.
  A call of \<open>panic\<close> ends the run: an operation that can panic returns a sum, \<open>Inl\<close> with the
  message of the panic or \<open>Inr\<close> with its result.
  The page arithmetic (\<open>PGROUNDUP\<close>, \<open>PGROUNDDOWN\<close>, \<open>P2V\<close>, \<open>V2P\<close>) and the constants of
  src/arch/x86/kernel/mm/memlayout.h come with the \<open>unat\<close> equations the components reason with.
\<close>

unbundle bit_operations_syntax

type_synonym u32 = "32 word"
type_synonym u8 = "8 word"

text \<open>A result of code that may call \<open>panic\<close>: the message of the panic, or the value.\<close>

type_synonym 'a kres = "string + 'a"

named_theorems layout_simps \<open>the constants of memlayout.h as numerals\<close>
named_theorems page_simps \<open>page rounding over unat\<close>

section \<open>Constants of memlayout.h and param.h\<close>

definition PGSIZE :: u32 where [layout_simps]: "PGSIZE = 4096"
definition MAX_ORDER :: nat where [layout_simps]: "MAX_ORDER = 11"
definition KERNBASE :: u32 where [layout_simps]: "KERNBASE = 0xC0000000"
definition PHYSMEM_TOP_MAX :: u32 where [layout_simps]: "PHYSMEM_TOP_MAX = 0x38000000"
definition USERBASE :: u32 where [layout_simps]: "USERBASE = 0"
definition USERLOAD :: u32 where [layout_simps]: "USERLOAD = 0x00400000"
definition USEREND :: u32 where [layout_simps]: "USEREND = KERNBASE"
definition USERSTACK :: u32 where [layout_simps]: "USERSTACK = USEREND"
definition USER_STACK_SIZE :: u32 where [layout_simps]: "USER_STACK_SIZE = 16 * PGSIZE"
definition USER_STACK_GUARD :: u32 where [layout_simps]: "USER_STACK_GUARD = 16 * PGSIZE"
definition USERSTACK_BOTTOM :: u32 where
  [layout_simps]: "USERSTACK_BOTTOM = USERSTACK - USER_STACK_SIZE"
definition USERHEAP_TOP :: u32 where
  [layout_simps]: "USERHEAP_TOP = USERSTACK_BOTTOM - USER_STACK_GUARD"

definition PGROUNDUP :: "u32 \<Rightarrow> u32" where
  "PGROUNDUP sz = (sz + PGSIZE - 1) AND NOT (PGSIZE - 1)"

definition PGROUNDDOWN :: "u32 \<Rightarrow> u32" where
  "PGROUNDDOWN a = a AND NOT (PGSIZE - 1)"

definition P2V :: "u32 \<Rightarrow> u32" where
  "P2V pa = pa + KERNBASE"

definition V2P :: "u32 \<Rightarrow> u32" where
  "V2P va = va - KERNBASE"

section \<open>Words\<close>

lemma unat_u32: "unat (x :: u32) < 2 ^ 32"
  using unsigned_less [where ?'a = nat and w = x] by simp

text \<open>The low bits below a power of two are the remainder, the others the multiple below.\<close>

lemma unat_and_mask: "unat (x AND mask n :: u32) = unat x mod 2 ^ n"
  by (simp add: take_bit_eq_mask [symmetric] unsigned_take_bit_eq take_bit_nat_def)

lemma and_not_mask_minus: "(x AND NOT (mask n) :: u32) = x - (x AND mask n)"
proof -
  have "(x AND NOT (mask n)) + (x AND mask n) = (x AND NOT (mask n)) OR (x AND mask n)"
    by (rule disjunctive_add) (auto simp: bit_simps)
  also have "\<dots> = x"
    by (simp flip: bit.conj_disj_distrib)
  finally show ?thesis by (simp add: eq_diff_eq)
qed

lemma pgmask: "(4095 :: u32) = mask 12"
  by (simp add: mask_eq_exp_minus_1)

lemma unat_and_pgmask [page_simps]: "unat (a AND (PGSIZE - 1)) = unat a mod 4096"
  by (simp add: PGSIZE_def pgmask unat_and_mask)

lemma unat_PGROUNDDOWN [page_simps]: "unat (PGROUNDDOWN a) = unat a div 4096 * 4096"
proof -
  have "a AND mask 12 \<le> a"
    by (simp add: word_le_nat_alt unat_and_mask)
  then have "unat (a - (a AND mask 12)) = unat a - unat a mod 4096"
    by (simp add: unat_sub unat_and_mask)
  then show ?thesis
    by (simp add: PGROUNDDOWN_def PGSIZE_def pgmask and_not_mask_minus minus_mod_eq_div_mult)
qed

lemma PGROUNDUP_alt: "PGROUNDUP sz = PGROUNDDOWN (sz + 4095)"
  by (simp add: PGROUNDUP_def PGROUNDDOWN_def PGSIZE_def add_diff_eq [symmetric])

lemma unat_PGROUNDUP [page_simps]:
  "unat sz + 4095 < 2 ^ 32 \<Longrightarrow> unat (PGROUNDUP sz) = (unat sz + 4095) div 4096 * 4096"
  by (simp add: PGROUNDUP_alt unat_PGROUNDDOWN unat_word_ariths)

text \<open>Near the top of the address space rounding up wraps to zero.\<close>

lemma PGROUNDUP_wraps:
  assumes "2 ^ 32 \<le> unat sz + 4095" shows "PGROUNDUP sz = 0"
proof -
  have "unat sz < 2 ^ 32" by (rule unat_u32)
  with assms have "(unat sz + 4095) mod 2 ^ 32 = unat sz + 4095 - 2 ^ 32 \<and> unat sz + 4095 - 2 ^ 32 < 4096"
    by (simp add: le_mod_geq)
  then have "unat (PGROUNDUP sz) = 0"
    by (simp add: PGROUNDUP_alt unat_PGROUNDDOWN unat_word_ariths)
  then show ?thesis by (simp add: unat_eq_0)
qed

lemma PGROUNDUP_aligned: "unat (PGROUNDUP sz) mod 4096 = 0"
  by (simp add: PGROUNDUP_alt unat_PGROUNDDOWN)

lemma V2P_P2V [simp]: "V2P (P2V a) = a"
  by (simp add: V2P_def P2V_def)

lemma P2V_V2P [simp]: "P2V (V2P a) = a"
  by (simp add: V2P_def P2V_def)

lemma unat_P2V: "unat a < 0x40000000 \<Longrightarrow> unat (P2V a) = unat a + 0xC0000000"
  by (simp add: P2V_def KERNBASE_def unat_word_ariths)

section \<open>Lists\<close>

text \<open>
  A loop \<open>for (i = a; i < n; i++) if (P(i)) return i;\<close> is \<open>find P [a..<n]\<close>.
\<close>

lemma find_upt_Some:
  "find P [a..<n] = Some i \<longleftrightarrow> a \<le> i \<and> i < n \<and> P i \<and> (\<forall>j. a \<le> j \<and> j < i \<longrightarrow> \<not> P j)"
proof -
  have "find P [a..<n] = Some i \<longleftrightarrow> (\<exists>k < n - a. P (a + k) \<and> i = a + k \<and> (\<forall>j<k. \<not> P (a + j)))"
    by (auto simp: find_Some_iff)
  also have "\<dots> \<longleftrightarrow> a \<le> i \<and> i < n \<and> P i \<and> (\<forall>j. a \<le> j \<and> j < i \<longrightarrow> \<not> P j)"
    by (auto simp: less_diff_conv2 le_Suc_ex dest: le_Suc_ex)
  finally show ?thesis .
qed

lemma find_upt_None: "find P [a..<n] = None \<longleftrightarrow> (\<forall>i. a \<le> i \<and> i < n \<longrightarrow> \<not> P i)"
  by (auto simp: find_None_iff)

section \<open>Loops that may panic\<close>

text \<open>A loop over a list of indices whose body may panic; a panic ends the loop.\<close>

fun kfold :: "('a \<Rightarrow> 's \<Rightarrow> 's kres) \<Rightarrow> 'a list \<Rightarrow> 's \<Rightarrow> 's kres" where
  "kfold f [] s = Inr s"
| "kfold f (x # xs) s = (case f x s of Inl e \<Rightarrow> Inl e | Inr s' \<Rightarrow> kfold f xs s')"

lemma kfold_append: "kfold f (xs @ ys) s = (case kfold f xs s of Inl e \<Rightarrow> Inl e | Inr s' \<Rightarrow> kfold f ys s')"
  by (induction xs arbitrary: s) (auto split: sum.split)

text \<open>The rule for such a loop: an invariant indexed by what is left to do.\<close>

lemma kfold_rule:
  assumes "Q xs s" and "\<And>x ys s. Q (x # ys) s \<Longrightarrow> \<exists>s'. f x s = Inr s' \<and> Q ys s'"
  shows "\<exists>s'. kfold f xs s = Inr s' \<and> Q [] s'"
  using assms(1)
proof (induction xs arbitrary: s)
  case (Cons x xs)
  from assms(2) [OF Cons.prems] obtain s' where "f x s = Inr s'" "Q xs s'" by blast
  with Cons.IH [of s'] show ?case by simp
qed simp

section \<open>Words in memory\<close>

text \<open>A 32-bit word in byte-addressed memory, least significant byte first.\<close>

definition load32 :: "(u32 \<Rightarrow> u8) \<Rightarrow> u32 \<Rightarrow> u32" where
  "load32 m a = ucast (m a) OR push_bit 8 (ucast (m (a + 1)))
     OR push_bit 16 (ucast (m (a + 2))) OR push_bit 24 (ucast (m (a + 3)))"

definition store32 :: "u32 \<Rightarrow> u32 \<Rightarrow> (u32 \<Rightarrow> u8) \<Rightarrow> (u32 \<Rightarrow> u8)" where
  "store32 a v m = m(a := ucast v, a + 1 := ucast (drop_bit 8 v),
     a + 2 := ucast (drop_bit 16 v), a + 3 := ucast (drop_bit 24 v))"

lemma word_bytes:
  "(ucast (ucast v :: u8) OR push_bit 8 (ucast (ucast (drop_bit 8 v) :: u8))
     OR push_bit 16 (ucast (ucast (drop_bit 16 v) :: u8)) OR push_bit 24 (ucast (ucast (drop_bit 24 v) :: u8)) :: u32) = v"
proof (rule bit_eqI)
  fix n assume "possible_bit TYPE(u32) n"
  then have n: "n < 32" by simp
  consider "n < 8" | "8 \<le> n" "n < 16" | "16 \<le> n" "n < 24" | "24 \<le> n" using n by linarith
  then show "bit (ucast (ucast v :: u8) OR push_bit 8 (ucast (ucast (drop_bit 8 v) :: u8))
     OR push_bit 16 (ucast (ucast (drop_bit 16 v) :: u8)) OR push_bit 24 (ucast (ucast (drop_bit 24 v) :: u8)) :: u32) n = bit v n"
    by cases (use n in \<open>auto simp: bit_simps\<close>)
qed

lemma add_ne: "(a :: u32) + 1 \<noteq> a" "a + 2 \<noteq> a" "a + 3 \<noteq> a" "a + 2 \<noteq> a + 1" "a + 3 \<noteq> a + 1" "a + 3 \<noteq> a + 2"
  by simp_all

lemma load32_store32 [simp]: "load32 (store32 a v m) a = v"
  using word_bytes [of v] by (simp add: load32_def store32_def)

definition word_at :: "u32 \<Rightarrow> u32 set" where
  "word_at a = {a, a + 1, a + 2, a + 3}"

lemma store32_outside: "x \<notin> word_at a \<Longrightarrow> store32 a v m x = m x"
  by (auto simp: store32_def word_at_def)

lemma load32_cong: "(\<And>x. x \<in> word_at a \<Longrightarrow> m' x = m x) \<Longrightarrow> load32 m' a = load32 m a"
  by (simp add: load32_def word_at_def)

lemma load32_store32_other: "word_at a \<inter> word_at b = {} \<Longrightarrow> load32 (store32 b v m) a = load32 m a"
  by (intro load32_cong store32_outside) auto

lemma word_at_aligned:
  fixes a b :: u32
  assumes "unat a mod 4 = 0" and "unat b mod 4 = 0" and "a \<noteq> b"
  shows "word_at a \<inter> word_at b = {}"
proof (intro equals0I)
  fix x assume x: "x \<in> word_at a \<inter> word_at b"
  have q: "unat x div 4 = unat c div 4" if c: "unat c mod 4 = 0" and xc: "x \<in> word_at c" for c
  proof -
    have "unat c \<le> 2 ^ 32 - 4" using unat_u32 [of c] c by (simp, presburger)
    then have "\<exists>k<4. unat x = unat c + k"
      using xc by (auto simp: word_at_def unat_word_ariths intro: exI [of _ 0] exI [of _ 1] exI [of _ 2] exI [of _ 3])
    with c show ?thesis by (auto simp: mod_eq_0_iff_dvd elim!: dvdE)
  qed
  from x assms q [of a] q [of b] have "unat a div 4 = unat b div 4" by auto
  with assms(1,2) have "unat a = unat b" by (metis div_mult_mod_eq)
  then have "a = b" by (rule unsigned_word_eqI)
  with assms(3) show False by simp
qed

end
