(* ===== verification/Dlist_Head.thy ===== *)
theory Dlist_Head
  imports Prelude
begin

text \<open>
  The intrusive doubly linked list of src/arch/x86/kernel/list.h, at the level of its pointers.

  A \<open>struct list_head\<close> is a pair of pointers; the nodes of a program are the elements of a type
  \<open>'n\<close> and the two fields of all of them are one store, a record of the functions \<open>nxt\<close> and
  \<open>prv\<close>. Every operation of list.h is a sequence of assignments to that store, in the order of
  the source. \<open>dlist h head xs\<close> is the abstraction: \<open>head\<close> is the sentinel of a circular list
  whose entries are, from the front, \<open>xs\<close>. The lemmas show what each operation does to \<open>xs\<close> and
  that it leaves every list with other nodes alone.
\<close>

record 'n list_heads =
  nxt :: "'n \<Rightarrow> 'n"
  prv :: "'n \<Rightarrow> 'n"

definition set_nxt :: "'n \<Rightarrow> 'n \<Rightarrow> 'n list_heads \<Rightarrow> 'n list_heads" where
  "set_nxt a b h = h\<lparr>nxt := (nxt h)(a := b)\<rparr>"

definition set_prv :: "'n \<Rightarrow> 'n \<Rightarrow> 'n list_heads \<Rightarrow> 'n list_heads" where
  "set_prv a b h = h\<lparr>prv := (prv h)(a := b)\<rparr>"

definition INIT_LIST_HEAD :: "'n \<Rightarrow> 'n list_heads \<Rightarrow> 'n list_heads" where
  "INIT_LIST_HEAD l h = set_prv l l (set_nxt l l h)"

definition list_empty :: "'n \<Rightarrow> 'n list_heads \<Rightarrow> bool" where
  "list_empty head h \<longleftrightarrow> nxt h head = head"

definition list_add_between :: "'n \<Rightarrow> 'n \<Rightarrow> 'n \<Rightarrow> 'n list_heads \<Rightarrow> 'n list_heads" where
  "list_add_between new prev next h =
     set_nxt prev new (set_prv new prev (set_nxt new next (set_prv next new h)))"

definition list_add :: "'n \<Rightarrow> 'n \<Rightarrow> 'n list_heads \<Rightarrow> 'n list_heads" where
  "list_add new head h = list_add_between new head (nxt h head) h"

definition list_add_tail :: "'n \<Rightarrow> 'n \<Rightarrow> 'n list_heads \<Rightarrow> 'n list_heads" where
  "list_add_tail new head h = list_add_between new (prv h head) head h"

definition list_del :: "'n \<Rightarrow> 'n list_heads \<Rightarrow> 'n list_heads" where
  "list_del entry h =
     (let h1 = set_prv (nxt h entry) (prv h entry) h;
          h2 = set_nxt (prv h1 entry) (nxt h1 entry) h1
      in set_prv entry entry (set_nxt entry entry h2))"

definition list_first :: "'n \<Rightarrow> 'n list_heads \<Rightarrow> 'n" where
  "list_first head h = nxt h head"

section \<open>The abstraction\<close>

text \<open>\<open>seg h a xs b\<close>: from \<open>a\<close> the links lead through \<open>xs\<close> to \<open>b\<close>, and back.\<close>

fun seg :: "'n list_heads \<Rightarrow> 'n \<Rightarrow> 'n list \<Rightarrow> 'n \<Rightarrow> bool" where
  "seg h a [] b \<longleftrightarrow> nxt h a = b \<and> prv h b = a"
| "seg h a (x # xs) b \<longleftrightarrow> nxt h a = x \<and> prv h x = a \<and> seg h x xs b"

definition dlist :: "'n list_heads \<Rightarrow> 'n \<Rightarrow> 'n list \<Rightarrow> bool" where
  "dlist h head xs \<longleftrightarrow> distinct (head # xs) \<and> seg h head xs head"

text \<open>An entry that is on no list points to itself (\<open>on_list\<close> in task_queue.c relies on it).\<close>

definition unlinked :: "'n list_heads \<Rightarrow> 'n \<Rightarrow> bool" where
  "unlinked h x \<longleftrightarrow> nxt h x = x \<and> prv h x = x"

lemmas link_defs = set_nxt_def set_prv_def

lemma seg_append: "seg h a (xs @ y # ys) b \<longleftrightarrow> seg h a xs y \<and> seg h y ys b"
  by (induction xs arbitrary: a) auto

lemma seg_snoc: "seg h a (xs @ [y]) b \<longleftrightarrow> seg h a xs y \<and> nxt h y = b \<and> prv h b = y"
  by (simp add: seg_append)

lemma seg_cong:
  assumes "\<And>n. n \<in> set (a # xs) \<Longrightarrow> nxt h' n = nxt h n"
    and "\<And>n. n \<in> set (xs @ [b]) \<Longrightarrow> prv h' n = prv h n"
  shows "seg h' a xs b \<longleftrightarrow> seg h a xs b"
  using assms by (induction xs arbitrary: a) auto

lemma seg_replace_front:
  assumes "seg h x zs b" and "nxt h' w = hd (zs @ [b])" and "prv h' (hd (zs @ [b])) = w"
    and "\<And>n. n \<in> set zs \<Longrightarrow> nxt h' n = nxt h n"
    and "\<And>n. n \<in> set (tl (zs @ [b])) \<Longrightarrow> prv h' n = prv h n"
  shows "seg h' w zs b"
proof (cases zs)
  case Nil
  with assms show ?thesis by simp
next
  case (Cons z zs')
  have "seg h' z zs' b \<longleftrightarrow> seg h z zs' b"
    using assms(4,5) Cons by (intro seg_cong) auto
  with assms Cons show ?thesis by simp
qed

lemma seg_nxt_mem: "seg h a xs b \<Longrightarrow> n \<in> set (a # xs) \<Longrightarrow> nxt h n \<in> set (xs @ [b])"
  by (induction xs arbitrary: a) auto

lemma seg_prv_mem: "seg h a xs b \<Longrightarrow> n \<in> set (xs @ [b]) \<Longrightarrow> prv h n \<in> set (a # xs)"
  by (induction xs arbitrary: a) auto

lemma seg_last: "seg h a xs b \<Longrightarrow> prv h b = last (a # xs)"
  by (induction xs arbitrary: a) auto

lemma dlist_unique: "dlist h head xs \<Longrightarrow> dlist h head ys \<Longrightarrow> xs = ys"
proof -
  have "seg h a xs b \<Longrightarrow> seg h a ys b \<Longrightarrow> b \<notin> set xs \<Longrightarrow> b \<notin> set ys \<Longrightarrow> xs = ys" for a b
  proof (induction xs arbitrary: a ys)
    case Nil
    then show ?case by (cases ys) auto
  next
    case (Cons x xs)
    then show ?case by (cases ys) auto
  qed
  then show "dlist h head xs \<Longrightarrow> dlist h head ys \<Longrightarrow> xs = ys"
    unfolding dlist_def by auto
qed

section \<open>What the operations do\<close>

lemma dlist_INIT_LIST_HEAD: "dlist (INIT_LIST_HEAD l h) l []"
  by (simp add: dlist_def INIT_LIST_HEAD_def link_defs)

lemma unlinked_INIT_LIST_HEAD [simp]: "unlinked (INIT_LIST_HEAD l h) l"
  by (simp add: unlinked_def INIT_LIST_HEAD_def link_defs)

lemma dlist_list_empty: "dlist h head xs \<Longrightarrow> list_empty head h \<longleftrightarrow> xs = []"
  by (cases xs) (auto simp: dlist_def list_empty_def)

lemma dlist_list_first: "dlist h head xs \<Longrightarrow> xs \<noteq> [] \<Longrightarrow> list_first head h = hd xs"
  by (cases xs) (auto simp: dlist_def list_first_def)

lemma seg_set_prv_other: "n \<notin> set (xs @ [b]) \<Longrightarrow> seg (set_prv n c h) a xs b = seg h a xs b"
  by (rule seg_cong) (auto simp: link_defs)

lemma seg_set_nxt_other: "n \<notin> set (a # xs) \<Longrightarrow> seg (set_nxt n c h) a xs b = seg h a xs b"
  by (rule seg_cong) (auto simp: link_defs)

lemma dlist_list_add:
  assumes "dlist h head xs" and "x \<notin> set (head # xs)"
  shows "dlist (list_add x head h) head (x # xs)"
proof (cases xs)
  case Nil
  with assms show ?thesis
    by (auto simp: dlist_def list_add_def list_add_between_def link_defs)
next
  case (Cons y ys)
  with assms have s: "seg h y ys head" and d: "distinct (head # y # ys)" and n: "nxt h head = y"
    and x: "x \<notin> set (head # y # ys)"
    by (auto simp: dlist_def)
  let ?h = "list_add x head h"
  have "seg ?h y ys head \<longleftrightarrow> seg h y ys head"
    using d x by (intro seg_cong) (auto simp: list_add_def list_add_between_def link_defs n)
  with s d x Cons show ?thesis
    by (auto simp: dlist_def list_add_def list_add_between_def link_defs n)
qed

lemma dlist_list_add_tail:
  assumes "dlist h head xs" and "x \<notin> set (head # xs)"
  shows "dlist (list_add_tail x head h) head (xs @ [x])"
proof (cases xs rule: rev_cases)
  case Nil
  with assms show ?thesis
    by (auto simp: dlist_def list_add_tail_def list_add_between_def link_defs)
next
  case (snoc ys y)
  with assms have s: "seg h head ys y" and d: "distinct (head # ys @ [y])" and p: "prv h head = y"
    and x: "x \<notin> set (head # ys @ [y])"
    by (auto simp: dlist_def seg_snoc)
  let ?h = "list_add_tail x head h"
  have "seg ?h head ys y \<longleftrightarrow> seg h head ys y"
    using d x by (intro seg_cong) (auto simp: list_add_tail_def list_add_between_def link_defs p)
  with s d x snoc show ?thesis
    by (auto simp: dlist_def seg_append list_add_tail_def list_add_between_def link_defs p)
qed

lemma dlist_list_del:
  assumes "dlist h head xs" and "x \<in> set xs"
  shows "dlist (list_del x h) head (remove1 x xs) \<and> unlinked (list_del x h) x"
proof -
  obtain ys zs where xs: "xs = ys @ x # zs"
    using assms(2) by (auto dest: split_list)
  have d: "distinct (head # ys @ x # zs)" and s1: "seg h head ys x" and s2: "seg h x zs head"
    using assms(1) by (auto simp: dlist_def xs seg_append)
  have p: "prv h x = last (head # ys)" using seg_last [OF s1] .
  have n: "nxt h x = hd (zs @ [head])" using s2 by (cases zs) auto
  have r: "remove1 x xs = ys @ zs" using d by (simp add: xs remove1_append)
  let ?p = "last (head # ys)" and ?n = "hd (zs @ [head])"
  have px: "?p \<noteq> x" using d by (auto split: if_splits)
  have pz: "?p \<notin> set zs" using d by (cases ys rule: rev_cases) auto
  have nx: "?n \<noteq> x" using d by (cases zs) auto
  have h': "nxt (list_del x h) = (nxt h)(?p := ?n, x := x)" "prv (list_del x h) = (prv h)(?n := ?p, x := x)"
    using px nx by (auto simp: list_del_def link_defs p n Let_def fun_eq_iff)
  have rest: "seg (list_del x h) ?p zs head"
    using d px nx pz by (intro seg_replace_front [OF s2]) (auto simp: h' tl_append split: list.splits)
  have "seg (list_del x h) head (ys @ zs) head"
  proof (cases ys rule: rev_cases)
    case Nil
    then show ?thesis using rest by simp
  next
    case (snoc ws w)
    have sw: "seg h head ws w" using s1 by (simp add: snoc seg_snoc)
    have "seg (list_del x h) head ws w \<longleftrightarrow> seg h head ws w"
      using d by (intro seg_cong) (auto simp: h' snoc hd_append split: list.splits)
    with sw rest snoc show ?thesis by (simp add: seg_append)
  qed
  with d show ?thesis
    by (auto simp: dlist_def r unlinked_def h')
qed

lemma list_del_unlinked: "unlinked h x \<Longrightarrow> list_del x h = h"
  by (simp add: unlinked_def list_del_def link_defs Let_def fun_upd_idem)

lemma dlist_linked: "dlist h head xs \<Longrightarrow> x \<in> set xs \<Longrightarrow> nxt h x \<noteq> x"
proof -
  assume d: "dlist h head xs" and x: "x \<in> set xs"
  then obtain ys zs where xs: "xs = ys @ x # zs" by (auto dest: split_list)
  with d show "nxt h x \<noteq> x" by (cases zs) (auto simp: dlist_def seg_append)
qed

section \<open>What the operations leave alone\<close>

definition same_links_outside :: "'n set \<Rightarrow> 'n list_heads \<Rightarrow> 'n list_heads \<Rightarrow> bool" where
  "same_links_outside S h h' \<longleftrightarrow> (\<forall>n. n \<notin> S \<longrightarrow> nxt h' n = nxt h n \<and> prv h' n = prv h n)"

lemma dlist_same_outside:
  assumes "same_links_outside S h h'" and "set (head # xs) \<inter> S = {}"
  shows "dlist h' head xs \<longleftrightarrow> dlist h head xs"
proof -
  have "seg h' head xs head \<longleftrightarrow> seg h head xs head"
    using assms by (intro seg_cong) (auto simp: same_links_outside_def)
  then show ?thesis by (simp add: dlist_def)
qed

lemma unlinked_same_outside:
  "same_links_outside S h h' \<Longrightarrow> x \<notin> S \<Longrightarrow> unlinked h' x \<longleftrightarrow> unlinked h x"
  by (simp add: same_links_outside_def unlinked_def)

lemma INIT_LIST_HEAD_outside: "same_links_outside {l} h (INIT_LIST_HEAD l h)"
  by (simp add: same_links_outside_def INIT_LIST_HEAD_def link_defs)

lemma list_add_outside:
  assumes "dlist h head xs" shows "same_links_outside (set (x # head # xs)) h (list_add x head h)"
proof -
  have "nxt h head \<in> set (xs @ [head])"
    using assms by (intro seg_nxt_mem) (auto simp: dlist_def)
  then show ?thesis
    by (auto simp: same_links_outside_def list_add_def list_add_between_def link_defs)
qed

lemma list_add_tail_outside:
  assumes "dlist h head xs" shows "same_links_outside (set (x # head # xs)) h (list_add_tail x head h)"
proof -
  have "prv h head \<in> set (head # xs)"
    using assms by (intro seg_prv_mem) (auto simp: dlist_def)
  then show ?thesis
    by (auto simp: same_links_outside_def list_add_tail_def list_add_between_def link_defs)
qed

lemma list_del_outside:
  assumes "dlist h head xs" and "x \<in> set xs"
  shows "same_links_outside (set (head # xs)) h (list_del x h)"
proof -
  have "nxt h x \<in> set (xs @ [head])" "prv h x \<in> set (head # xs)"
    using assms by (auto simp: dlist_def dest: seg_nxt_mem seg_prv_mem)
  then show ?thesis using assms(2)
    by (auto simp: same_links_outside_def list_del_def link_defs Let_def)
qed

section \<open>The interface of a queue threaded through list heads\<close>

text \<open>
  A client of list.h that only appends at the tail, takes from the front and unlinks entries sees
  a queue: \<open>rep h xs\<close> says that the store \<open>h\<close> holds the queue \<open>xs\<close>.
\<close>

datatype 'n qop = Enq 'n | Deq

text \<open>A run of queue operations: what was taken out, in order, and the final store.\<close>

fun qrun :: "('n \<Rightarrow> 'h \<Rightarrow> 'h) \<Rightarrow> ('h \<Rightarrow> 'n option \<times> 'h) \<Rightarrow> 'n qop list \<Rightarrow> 'h \<Rightarrow> 'n list \<times> 'h" where
  "qrun enq deq [] h = ([], h)"
| "qrun enq deq (Enq x # ops) h = qrun enq deq ops (enq x h)"
| "qrun enq deq (Deq # ops) h =
     (case deq h of (None, h') \<Rightarrow> qrun enq deq ops h'
      | (Some x, h') \<Rightarrow> (case qrun enq deq ops h' of (out, h'') \<Rightarrow> (x # out, h'')))"

fun enqueued :: "'n qop list \<Rightarrow> 'n list" where
  "enqueued [] = []"
| "enqueued (Enq x # ops) = x # enqueued ops"
| "enqueued (Deq # ops) = enqueued ops"

locale fifo_queue =
  fixes rep :: "'h \<Rightarrow> 'n list \<Rightarrow> bool"
    and node :: "'n \<Rightarrow> bool"
    and enq :: "'n \<Rightarrow> 'h \<Rightarrow> 'h"
    and deq :: "'h \<Rightarrow> 'n option \<times> 'h"
  assumes rep_distinct: "rep h xs \<Longrightarrow> distinct xs"
    and rep_enq: "rep h xs \<Longrightarrow> node x \<Longrightarrow> x \<notin> set xs \<Longrightarrow> rep (enq x h) (xs @ [x])"
    and deq_Nil: "rep h [] \<Longrightarrow> deq h = (None, h)"
    and deq_Cons: "rep h (x # xs) \<Longrightarrow> fst (deq h) = Some x \<and> rep (snd (deq h)) xs"
begin

text \<open>Operations only enqueue entries that are not on the queue at that moment.\<close>

lemma qrun_fifo:
  assumes "rep h xs" and "distinct (xs @ enqueued ops)" and "\<forall>x \<in> set (enqueued ops). node x"
  shows "\<exists>ys. rep (snd (qrun enq deq ops h)) ys \<and> fst (qrun enq deq ops h) @ ys = xs @ enqueued ops"
  using assms
proof (induction ops arbitrary: h xs)
  case Nil
  then show ?case by auto
next
  case (Cons op ops)
  show ?case
  proof (cases op)
    case (Enq x)
    have "rep (enq x h) (xs @ [x])" using Cons.prems Enq by (intro rep_enq) auto
    from Cons.IH [OF this] Cons.prems Enq show ?thesis by simp
  next
    case Deq
    show ?thesis
    proof (cases xs)
      case Nil
      with Cons.prems have d: "deq h = (None, h)" by (simp add: deq_Nil)
      from Cons.IH [OF Cons.prems(1)] Cons.prems Deq d show ?thesis by simp
    next
      case (Cons x xs')
      with Cons.prems(1) deq_Cons obtain h' where d: "deq h = (Some x, h')" and r: "rep h' xs'"
        by (metis prod.collapse)
      have "distinct (xs' @ enqueued ops)" "\<forall>x \<in> set (enqueued ops). node x"
        using Cons.prems Deq Cons by auto
      from Cons.IH [OF r this] obtain ys where
        "rep (snd (qrun enq deq ops h')) ys" "fst (qrun enq deq ops h') @ ys = xs' @ enqueued ops"
        by blast
      then show ?thesis using Deq Cons d
        by (intro exI [of _ ys]) (simp add: split_beta)
    qed
  qed
qed

end

end
