(* ===== verification/Buddy.thy ===== *)
theory Buddy
  imports Dlist_Head
begin

text \<open>
  The physical page allocator, src/arch/x86/kernel/mm/buddy.c.

  The state \<open>pmm\<close> holds the file's static variables: the array \<open>mem_map\<close> of page descriptors, the
  array of free areas (the counter of each, and the links of all list heads in one pointer store,
  with the free-list sentinels \<open>FreeHead o\<close> and the pages' embedded nodes \<open>PageNode i\<close>), the bounds
  of the managed range, the counters, and the bytes of memory. A page is its index in \<open>mem_map\<close>
  (the source's \<open>page - mem_map\<close>). The spin lock \<open>pmm_lock\<close> is taken and released inside every
  operation, so an operation is one atomic step; messages are not modelled.
\<close>

section \<open>State\<close>

datatype bnode = FreeHead nat | PageNode nat

record page =
  pg_order :: u32
  pg_refcount :: u32

record pmm =
  mem_map :: "nat \<Rightarrow> page"
  links :: "bnode list_heads"
  area_nr_free :: "nat \<Rightarrow> u32"
  mem_start :: u32
  mem_end :: u32
  nr_pages :: u32
  nr_free :: u32
  ram :: "u32 \<Rightarrow> u8"

definition PAGE_INUSE :: u32 where
  "PAGE_INUSE = - 1"

definition set_order :: "nat \<Rightarrow> u32 \<Rightarrow> pmm \<Rightarrow> pmm" where
  "set_order i v s = s\<lparr>mem_map := (mem_map s)(i := (mem_map s i)\<lparr>pg_order := v\<rparr>)\<rparr>"

definition set_refcount :: "nat \<Rightarrow> u32 \<Rightarrow> pmm \<Rightarrow> pmm" where
  "set_refcount i v s = s\<lparr>mem_map := (mem_map s)(i := (mem_map s i)\<lparr>pg_refcount := v\<rparr>)\<rparr>"

section \<open>Byte loops\<close>

fun memset :: "u32 \<Rightarrow> u8 \<Rightarrow> nat \<Rightarrow> (u32 \<Rightarrow> u8) \<Rightarrow> (u32 \<Rightarrow> u8)" where
  "memset p c 0 m = m"
| "memset p c (Suc n) m = memset (p + 1) c n (m(p := c))"

fun memcpy :: "u32 \<Rightarrow> u32 \<Rightarrow> nat \<Rightarrow> (u32 \<Rightarrow> u8) \<Rightarrow> (u32 \<Rightarrow> u8)" where
  "memcpy d s 0 m = m"
| "memcpy d s (Suc n) m = memcpy (d + 1) (s + 1) n (m(d := m s))"

section \<open>Pages and addresses\<close>

definition addr_to_page :: "u32 \<Rightarrow> pmm \<Rightarrow> nat option" where
  "addr_to_page addr s =
     (let a = (if KERNBASE \<le> addr then V2P addr else addr)
      in if a < mem_start s \<or> mem_end s \<le> a \<or> a AND (PGSIZE - 1) \<noteq> 0 then None
         else Some (unat ((a - mem_start s) div PGSIZE)))"

definition page_to_addr :: "nat \<Rightarrow> pmm \<Rightarrow> u32" where
  "page_to_addr i s = P2V (mem_start s + of_nat i * PGSIZE)"

definition page_buddy :: "nat \<Rightarrow> nat \<Rightarrow> pmm \<Rightarrow> nat option" where
  "page_buddy i order s =
     (let buddy = i XOR 2 ^ order
      in if unat (nr_pages s) \<le> buddy then None else Some buddy)"

section \<open>Free areas\<close>

definition free_area_add :: "nat \<Rightarrow> nat \<Rightarrow> pmm \<Rightarrow> pmm" where
  "free_area_add i order s =
     (let s1 = set_order i (of_nat order) s
      in s1\<lparr>links := list_add_tail (PageNode i) (FreeHead order) (links s1),
            area_nr_free := (area_nr_free s1)(order := area_nr_free s1 order + 1),
            nr_free := nr_free s1 + push_bit order 1\<rparr>)"

definition free_area_del :: "nat \<Rightarrow> nat \<Rightarrow> pmm \<Rightarrow> pmm" where
  "free_area_del i order s =
     s\<lparr>links := list_del (PageNode i) (links s),
       area_nr_free := (area_nr_free s)(order := area_nr_free s order - 1),
       nr_free := nr_free s - push_bit order 1\<rparr>"

text \<open>The source's \<open>__free_one_page\<close>: merge with the buddy while it is free with the same order.\<close>

function free_one_page :: "nat \<Rightarrow> nat \<Rightarrow> pmm \<Rightarrow> pmm" where
  "free_one_page i order s =
     (if order < MAX_ORDER - 1 then
        (case page_buddy i order s of
           None \<Rightarrow> free_area_add i order s
         | Some buddy \<Rightarrow>
             if pg_order (mem_map s buddy) \<noteq> of_nat order then free_area_add i order s
             else free_one_page (unset_bit order i) (Suc order) (free_area_del buddy order s))
      else free_area_add i order s)"
  by pat_completeness auto
termination
  by (relation "measure (\<lambda>(i, order, s). MAX_ORDER - order)") (auto simp: MAX_ORDER_def)

declare free_one_page.simps [simp del]

text \<open>The splitting loop of \<open>__alloc_pages\<close>: the upper half of the block goes back to its area.\<close>

fun alloc_split :: "nat \<Rightarrow> nat \<Rightarrow> nat \<Rightarrow> pmm \<Rightarrow> pmm" where
  "alloc_split i 0 order s = s"
| "alloc_split i (Suc o') order s =
     (if order < Suc o' then alloc_split i o' order (free_area_add (i + 2 ^ o') o' s) else s)"

text \<open>
  The source's \<open>__alloc_pages\<close>. The list taken from is not empty, so its first node is a page;
  the other branch of the case is never reached.
\<close>

definition alloc_block :: "nat \<Rightarrow> pmm \<Rightarrow> nat option \<times> pmm" where
  "alloc_block order s =
     (if MAX_ORDER \<le> order then (None, s)
      else case find (\<lambda>oo. \<not> list_empty (FreeHead oo) (links s)) [order..<MAX_ORDER] of
             None \<Rightarrow> (None, s)
           | Some oo \<Rightarrow>
               (case list_first (FreeHead oo) (links s) of
                  FreeHead _ \<Rightarrow> (None, s)
                | PageNode i \<Rightarrow>
                    (let s1 = free_area_del i oo s;
                         s2 = alloc_split i oo order s1
                     in (Some i, set_refcount i 1 (set_order i PAGE_INUSE s2)))))"

section \<open>Initialisation\<close>

text \<open>The order chosen for the block at index \<open>idx\<close> with \<open>left\<close> pages left.\<close>

function init_order :: "u32 \<Rightarrow> u32 \<Rightarrow> nat \<Rightarrow> nat" where
  "init_order idx left order =
     (if order + 1 < MAX_ORDER \<and> idx AND (push_bit (order + 1) 1 - 1) = 0
         \<and> push_bit (order + 1) 1 \<le> left
      then init_order idx left (order + 1) else order)"
  by pat_completeness auto
termination
  by (relation "measure (\<lambda>(idx, left, order). MAX_ORDER - order)") auto

declare init_order.simps [simp del]

text \<open>
  The releasing loop of \<open>pmm_init\<close>. \<open>None\<close> when the fuel runs out, or when a page outside the range
  would be released.
\<close>

fun pmm_release_loop :: "nat \<Rightarrow> u32 \<Rightarrow> pmm \<Rightarrow> pmm option" where
  "pmm_release_loop 0 addr s = None"
| "pmm_release_loop (Suc fuel) addr s =
     (if addr < mem_end s then
        let idx = (addr - mem_start s) div PGSIZE;
            left = (mem_end s - addr) div PGSIZE;
            order = init_order idx left 0
        in case addr_to_page addr s of
             None \<Rightarrow> None
           | Some i \<Rightarrow> pmm_release_loop fuel (addr + push_bit order PGSIZE) (free_one_page i order s)
      else Some s)"

definition sizeof_page :: u32 where
  "sizeof_page = 16"

text \<open>
  \<open>pmm_init\<close> with the linker symbol \<open>end\<close> and \<open>physmem_top\<close> as arguments, and the links \<open>l0\<close> and the
  memory \<open>m\<close> as they are at that point; the fuel is one more than the number of pages, since every
  round releases a page.
\<close>

definition pmm_init :: "u32 \<Rightarrow> u32 \<Rightarrow> bnode list_heads \<Rightarrow> (u32 \<Rightarrow> u8) \<Rightarrow> pmm option kres" where
  "pmm_init kend physmem_top l0 m =
     (let base = PGROUNDUP (V2P kend)
      in if physmem_top \<le> base then Inl ''pmm: no memory after kernel''
      else let map_bytes = PGROUNDUP (((physmem_top - base) div PGSIZE) * sizeof_page)
      in if physmem_top \<le> base + map_bytes then Inl ''pmm: mem_map does not fit''
      else let start = base + map_bytes;
               n = (physmem_top - start) div PGSIZE
      in if n = 0 then Inl ''pmm: zero pages''
      else let l1 = fold (\<lambda>i. INIT_LIST_HEAD (FreeHead i)) [0..<MAX_ORDER] l0;
               l2 = fold (\<lambda>i. INIT_LIST_HEAD (PageNode i)) [0..<unat n] l1;
               s = \<lparr>mem_map = (\<lambda>i. \<lparr>pg_order = (if i < unat n then PAGE_INUSE else 0), pg_refcount = 0\<rparr>),
                    links = l2, area_nr_free = (\<lambda>_. 0),
                    mem_start = start, mem_end = physmem_top, nr_pages = n, nr_free = 0,
                    ram = memset (P2V base) 0 (unat map_bytes) m\<rparr>
      in Inr (pmm_release_loop (Suc (unat n)) start s))"

section \<open>The exported operations\<close>

definition alloc_pages :: "nat \<Rightarrow> pmm \<Rightarrow> u32 option \<times> pmm" where
  "alloc_pages order s =
     (case alloc_block order s of
        (None, s') \<Rightarrow> (None, s')
      | (Some i, s') \<Rightarrow>
          (let addr = page_to_addr i s'
           in (Some addr, s'\<lparr>ram := memset addr 0 (4096 * 2 ^ order) (ram s')\<rparr>)))"

definition alloc_page :: "pmm \<Rightarrow> u32 option \<times> pmm" where
  "alloc_page s = alloc_pages 0 s"

definition get_page :: "u32 \<Rightarrow> pmm \<Rightarrow> pmm kres" where
  "get_page addr s =
     (case addr_to_page addr s of
        None \<Rightarrow> Inl ''get_page''
      | Some i \<Rightarrow>
          if pg_order (mem_map s i) \<noteq> PAGE_INUSE then Inl ''get_page''
          else Inr (set_refcount i (pg_refcount (mem_map s i) + 1) s))"

definition put_page :: "u32 \<Rightarrow> pmm \<Rightarrow> pmm kres" where
  "put_page addr s =
     (case addr_to_page addr s of
        None \<Rightarrow> Inl ''put_page''
      | Some i \<Rightarrow>
          if pg_order (mem_map s i) \<noteq> PAGE_INUSE then Inl ''put_page''
          else if pg_refcount (mem_map s i) = 0 then Inl ''put_page: refcount 0''
          else let s1 = set_refcount i (pg_refcount (mem_map s i) - 1) s
               in if pg_refcount (mem_map s1 i) = 0 then Inr (free_one_page i 0 s1) else Inr s1)"

definition free_pages :: "u32 \<Rightarrow> nat \<Rightarrow> pmm \<Rightarrow> pmm kres" where
  "free_pages addr order s =
     (if MAX_ORDER \<le> order then Inl ''free_pages: bad order''
      else if order = 0 then put_page addr s
      else case addr_to_page addr s of
             None \<Rightarrow> Inl ''free_pages: bad addr''
           | Some i \<Rightarrow> Inr (free_one_page i order s))"

definition free_page :: "u32 \<Rightarrow> pmm \<Rightarrow> pmm kres" where
  "free_page addr s = put_page addr s"

definition page_refcount :: "u32 \<Rightarrow> pmm \<Rightarrow> u32" where
  "page_refcount addr s =
     (case addr_to_page addr s of None \<Rightarrow> 0 | Some i \<Rightarrow> pg_refcount (mem_map s i))"

definition pmm_nr_free_pages :: "pmm \<Rightarrow> u32" where
  "pmm_nr_free_pages s = nr_free s"

definition pmm_nr_pages :: "pmm \<Rightarrow> u32" where
  "pmm_nr_pages s = nr_pages s"

end
