(* ===== verification/Buddy_Inv.thy ===== *)
theory Buddy_Inv
  imports Buddy
begin

text \<open>
  The invariant of the buddy allocator and what its operations do to it.

  A block is a pair of a page index and an order. The invariant \<open>buddy_inv s fl A P\<close> relates the
  state to the free lists \<open>fl\<close> (the pages on each list, from the front), to the set \<open>A\<close> of blocks
  handed out to callers and to the set \<open>P\<close> of blocks an operation holds at the moment: these
  blocks tile the managed pages, the descriptor of the first page of a block says whether it
  is free and with which order, and the counters agree with the lists. Between operations \<open>P\<close> is
  empty. The allocator itself does not record the order of a block it hands out (its callers pass
  it back), so \<open>A\<close> is a variable of the proof only.
\<close>

section \<open>Blocks\<close>

type_synonym block = "nat \<times> nat"

definition pages_of :: "block \<Rightarrow> nat set" where
  "pages_of b = {fst b..<fst b + 2 ^ snd b}"

definition block_ok :: "nat \<Rightarrow> block \<Rightarrow> bool" where
  "block_ok n b \<longleftrightarrow> snd b < MAX_ORDER \<and> 2 ^ snd b dvd fst b \<and> fst b + 2 ^ snd b \<le> n"

definition apart :: "block set \<Rightarrow> bool" where
  "apart B \<longleftrightarrow> (\<forall>b \<in> B. \<forall>c \<in> B. b \<noteq> c \<longrightarrow> pages_of b \<inter> pages_of c = {})"

definition tiling :: "block set \<Rightarrow> nat \<Rightarrow> bool" where
  "tiling B n \<longleftrightarrow> (\<forall>b \<in> B. block_ok n b) \<and> apart B \<and> \<Union> (pages_of ` B) = {..<n}"

lemma pages_of_split: "pages_of (i, Suc k) = pages_of (i, k) \<union> pages_of (i + 2 ^ k, k)"
  by (auto simp: pages_of_def)

lemma pages_of_halves_disjoint: "pages_of (i, k) \<inter> pages_of (i + 2 ^ k, k) = {}"
  by (auto simp: pages_of_def)

lemma fst_in_pages_of: "i \<in> pages_of (i, k)"
  by (simp add: pages_of_def)

lemma tiling_bounds:
  assumes "tiling B n" and "b \<in> B"
  shows "snd b < MAX_ORDER" "2 ^ snd b dvd fst b" "fst b + 2 ^ snd b \<le> n" "fst b < n"
proof -
  show "snd b < MAX_ORDER" "2 ^ snd b dvd fst b" and le: "fst b + 2 ^ snd b \<le> n"
    using assms unfolding tiling_def block_ok_def by blast+
  have "(0::nat) < 2 ^ snd b" by simp
  with le show "fst b < n" by linarith
qed

lemma finite_tiling: "tiling B n \<Longrightarrow> finite B"
proof (rule finite_subset)
  assume p: "tiling B n"
  show "B \<subseteq> {..<n} \<times> {..<MAX_ORDER}"
    using tiling_bounds [OF p] by (simp add: subset_iff mem_Times_iff)
qed simp

lemma apart_insert:
  assumes "x \<notin> B"
  shows "apart (insert x B) \<longleftrightarrow> apart B \<and> (\<forall>c \<in> B. pages_of x \<inter> pages_of c = {})"
proof
  show "apart (insert x B)" if "apart B \<and> (\<forall>c \<in> B. pages_of x \<inter> pages_of c = {})"
    using that by (simp add: apart_def Int_commute)
  show "apart B \<and> (\<forall>c \<in> B. pages_of x \<inter> pages_of c = {})" if "apart (insert x B)"
    using that assms by (simp add: apart_def) metis
qed

lemma tiling_insert:
  "x \<notin> B \<Longrightarrow> tiling (insert x B) n \<longleftrightarrow>
     block_ok n x \<and> (\<forall>b \<in> B. block_ok n b) \<and> apart B
     \<and> (\<forall>c \<in> B. pages_of x \<inter> pages_of c = {}) \<and> pages_of x \<union> \<Union> (pages_of ` B) = {..<n}"
  by (simp add: tiling_def apart_insert conj_assoc)

lemma pages_of_nonempty: "pages_of b \<noteq> {}"
  by (simp add: pages_of_def)

lemma not_in_if_disjoint: "\<forall>c \<in> B. X \<inter> pages_of c = {} \<Longrightarrow> pages_of b \<subseteq> X \<Longrightarrow> b \<notin> B"
  using pages_of_nonempty [of b] by blast

lemma tiling_split:
  assumes t: "tiling (insert (i, Suc k) B) n" and new: "(i, Suc k) \<notin> B"
  shows "tiling (insert (i, k) (insert (i + 2 ^ k, k) B)) n \<and> (i, k) \<notin> insert (i + 2 ^ k, k) B \<and> (i + 2 ^ k, k) \<notin> B"
proof -
  let ?l = "(i, k)" and ?u = "(i + 2 ^ k, k)"
  have d: "\<forall>c \<in> B. (pages_of ?l \<union> pages_of ?u) \<inter> pages_of c = {}"
    and ok: "block_ok n (i, Suc k)" "\<forall>b \<in> B. block_ok n b" and ap: "apart B"
    and cov: "pages_of ?l \<union> pages_of ?u \<union> \<Union> (pages_of ` B) = {..<n}"
    using t tiling_insert [OF new] by (auto simp: pages_of_split)
  have lu: "?l \<notin> B" "?u \<notin> B" using not_in_if_disjoint [OF d] by blast+
  have "2 ^ k dvd i" using ok(1) by (auto simp: block_ok_def intro: dvd_trans [rotated])
  then have oks: "block_ok n ?l" "block_ok n ?u" using ok(1) by (auto simp: block_ok_def)
  have u: "tiling (insert ?l (insert ?u B)) n \<longleftrightarrow> block_ok n ?l \<and> (\<forall>b \<in> insert ?u B. block_ok n b)
      \<and> apart (insert ?u B) \<and> (\<forall>c \<in> insert ?u B. pages_of ?l \<inter> pages_of c = {})
      \<and> pages_of ?l \<union> \<Union> (pages_of ` insert ?u B) = {..<n}"
    using lu by (intro tiling_insert) auto
  have "apart (insert ?u B)" using ap d lu by (auto simp: apart_insert)
  with oks ok d cov lu pages_of_halves_disjoint [of i k] show ?thesis
    unfolding u by (simp add: Un_assoc Int_Un_distrib2)
qed

lemma tiling_merge:
  assumes t: "tiling (insert (i, k) (insert (i + 2 ^ k, k) B)) n"
    and new: "(i, k) \<notin> B" "(i + 2 ^ k, k) \<notin> B"
    and al: "2 ^ Suc k dvd i" "Suc k < MAX_ORDER"
  shows "tiling (insert (i, Suc k) B) n \<and> (i, Suc k) \<notin> B"
proof -
  let ?l = "(i, k)" and ?u = "(i + 2 ^ k, k)"
  have ap: "apart B" and du: "\<forall>c \<in> B. pages_of ?u \<inter> pages_of c = {}"
    and dl: "\<forall>c \<in> insert ?u B. pages_of ?l \<inter> pages_of c = {}"
    and ok: "block_ok n ?u" "\<forall>b \<in> B. block_ok n b"
    and cov: "pages_of ?l \<union> \<Union> (pages_of ` insert ?u B) = {..<n}"
    using t tiling_insert [of ?l "insert ?u B" n] new by (auto simp: apart_insert)
  have d: "\<forall>c \<in> B. pages_of (i, Suc k) \<inter> pages_of c = {}"
    using du dl by (auto simp: pages_of_split)
  have m: "(i, Suc k) \<notin> B" using not_in_if_disjoint [OF d] by blast
  have "block_ok n (i, Suc k)" using ok(1) al by (auto simp: block_ok_def)
  moreover have "pages_of (i, Suc k) \<union> \<Union> (pages_of ` B) = {..<n}"
    using cov by (auto simp: pages_of_split)
  ultimately show ?thesis
    using tiling_insert [OF m] ok ap d m by simp
qed

text \<open>The buddy of an aligned block, by the parity of its position among blocks of its order.\<close>

lemma xor_power_even: "even k \<Longrightarrow> (k * 2 ^ n) XOR 2 ^ n = (k + 1) * 2 ^ n" for k :: nat
proof -
  assume "even k"
  then have "k XOR 1 = k + 1" using xor_one_eq [of k] by simp
  moreover have "(k * 2 ^ n) XOR (1 * 2 ^ n) = (k XOR 1) * 2 ^ n"
    by (simp only: push_bit_eq_mult [symmetric] push_bit_xor)
  ultimately show ?thesis by simp
qed

lemma xor_power_odd: "odd k \<Longrightarrow> (k * 2 ^ n) XOR 2 ^ n = (k - 1) * 2 ^ n" for k :: nat
proof -
  assume "odd k"
  then have "k XOR 1 = k - 1" using xor_one_eq [of k] by simp
  moreover have "(k * 2 ^ n) XOR (1 * 2 ^ n) = (k XOR 1) * 2 ^ n"
    by (simp only: push_bit_eq_mult [symmetric] push_bit_xor)
  ultimately show ?thesis by simp
qed

lemma unset_bit_power: "unset_bit n (k * 2 ^ n) = (k - k mod 2) * 2 ^ n" for k :: nat
proof -
  have "unset_bit n (push_bit n k) = push_bit n (unset_bit 0 k)"
    by (rule bit_eqI) (auto simp: bit_simps)
  moreover have "unset_bit 0 k = k - k mod 2"
    by (simp add: unset_bit_0 minus_mod_eq_mult_div)
  ultimately show ?thesis by (simp add: push_bit_eq_mult)
qed

text \<open>
  \<open>buddies i j k\<close>: the blocks of order \<open>k\<close> at \<open>i\<close> and \<open>j\<close> are the halves of the block of order
  \<open>k + 1\<close> at the smaller of the two.
\<close>

lemma buddy_cases:
  assumes "2 ^ k dvd (i :: nat)"
  obtains (low) "i XOR 2 ^ k = i + 2 ^ k" "unset_bit k i = i" "2 ^ Suc k dvd i"
    | (high) j where "i = j + 2 ^ k" "i XOR 2 ^ k = j" "unset_bit k i = j" "2 ^ Suc k dvd j"
proof -
  obtain m where m: "i = m * 2 ^ k" using assms by (auto simp: dvd_def mult.commute)
  show thesis
  proof (cases "even m")
    case True
    then obtain m' where "m = 2 * m'" by (auto simp: dvd_def)
    with True show thesis
      by (intro low) (auto simp: m xor_power_even unset_bit_power)
  next
    case False
    then obtain m' where m': "m = 2 * m' + 1" by (auto elim: oddE)
    have "i = (m - 1) * 2 ^ k + 2 ^ k" by (simp add: m m')
    moreover have "unset_bit k i = (m - 1) * 2 ^ k"
      using unset_bit_power [of k m] by (simp add: m m')
    moreover have "2 ^ Suc k dvd (m - 1) * 2 ^ k" by (simp add: m')
    moreover have "i XOR 2 ^ k = (m - 1) * 2 ^ k"
      using xor_power_odd [OF False] by (simp add: m)
    ultimately show thesis by (intro high)
  qed
qed

lemma aligned_mem: "2 ^ m dvd j \<Longrightarrow> x \<in> pages_of (j, m) \<longleftrightarrow> x div 2 ^ m = j div 2 ^ m"
proof -
  assume "2 ^ m dvd j"
  then obtain q where q: "j = q * 2 ^ m" by (auto simp: dvd_def mult.commute)
  have "x \<in> pages_of (j, m) \<longleftrightarrow> q * 2 ^ m \<le> x \<and> x < Suc q * 2 ^ m"
    by (auto simp: pages_of_def q)
  also have "\<dots> \<longleftrightarrow> x div 2 ^ m = q"
    using div_nat_eqI [of "2 ^ m" q x] by (auto simp: mult.commute dividend_less_times_div less_eq_div_iff_mult_less_eq)
  finally show ?thesis by (simp add: q)
qed

text \<open>A block contains the first page of a pending block's buddy only as its own first page.\<close>

lemma buddy_is_head:
  assumes t: "tiling B n" and own: "(i, k) \<in> B"
    and blk: "(j, m) \<in> B" "i XOR 2 ^ k \<in> pages_of (j, m)"
  shows "j = i XOR 2 ^ k \<and> m \<le> k"
proof -
  have ai: "2 ^ k dvd i" and aj: "2 ^ m dvd j"
    using tiling_bounds(2) [OF t] own blk(1) by fastforce+
  let ?b = "i XOR 2 ^ k"
  have same: "?b div 2 ^ Suc k = i div 2 ^ Suc k" and ab: "2 ^ k dvd ?b" and ne: "?b \<noteq> i"
    using ai by (cases rule: buddy_cases; auto simp: div_plus_div_distrib_dvd_left dest: dvd_mult_left)+
  have "m \<le> k"
  proof (rule ccontr)
    assume "\<not> m \<le> k"
    then obtain r where m: "m = Suc k + r" by (metis less_iff_Suc_add not_le add_Suc_shift add_Suc)
    have "?b div 2 ^ m = i div 2 ^ m"
      by (simp only: m power_add div_mult2_eq same)
    with blk(2) aj have "i \<in> pages_of (j, m)" by (simp add: aligned_mem)
    moreover have "i \<in> pages_of (i, k)" by (simp add: fst_in_pages_of)
    moreover have "(j, m) \<noteq> (i, k)" using m by simp
    ultimately show False
      using t own blk(1) unfolding tiling_def apart_def by blast
  qed
  moreover have "?b = j"
  proof -
    have "2 ^ m dvd ?b" using ab \<open>m \<le> k\<close> by (meson dvd_trans le_imp_power_dvd)
    with blk(2) aj show ?thesis
      by (simp add: aligned_mem) (metis dvd_mult_div_cancel)
  qed
  ultimately show ?thesis by simp
qed

section \<open>The invariant\<close>

definition free_blocks :: "(nat \<Rightarrow> nat list) \<Rightarrow> block set" where
  "free_blocks fl = {(i, k). k < MAX_ORDER \<and> i \<in> set (fl k)}"

definition free_total :: "(nat \<Rightarrow> nat list) \<Rightarrow> nat" where
  "free_total fl = (\<Sum>k<MAX_ORDER. length (fl k) * 2 ^ k)"

definition lists_rep :: "pmm \<Rightarrow> (nat \<Rightarrow> nat list) \<Rightarrow> bool" where
  "lists_rep s fl \<longleftrightarrow> (\<forall>k<MAX_ORDER. dlist (links s) (FreeHead k) (map PageNode (fl k)))"

definition labels :: "pmm \<Rightarrow> (nat \<Rightarrow> nat list) \<Rightarrow> block set \<Rightarrow> bool" where
  "labels s fl A \<longleftrightarrow>
     (\<forall>(i, k) \<in> free_blocks fl. pg_order (mem_map s i) = of_nat k)
     \<and> (\<forall>(i, k) \<in> A. pg_order (mem_map s i) = PAGE_INUSE)"

definition counts :: "pmm \<Rightarrow> (nat \<Rightarrow> nat list) \<Rightarrow> bool" where
  "counts s fl \<longleftrightarrow>
     (\<forall>k<MAX_ORDER. area_nr_free s k = of_nat (length (fl k))) \<and> nr_free s = of_nat (free_total fl)"

definition buddy_inv :: "pmm \<Rightarrow> (nat \<Rightarrow> nat list) \<Rightarrow> block set \<Rightarrow> block set \<Rightarrow> bool" where
  "buddy_inv s fl A P \<longleftrightarrow>
     lists_rep s fl \<and> labels s fl A \<and> counts s fl
     \<and> tiling (free_blocks fl \<union> A \<union> P) (unat (nr_pages s))
     \<and> free_blocks fl \<inter> A = {} \<and> free_blocks fl \<inter> P = {} \<and> A \<inter> P = {}"

lemma head_unique:
  assumes "tiling B n" and "(i, k) \<in> B" and "(i, k') \<in> B" shows "k = k'"
proof (rule ccontr)
  assume "k \<noteq> k'"
  then have "pages_of (i, k) \<inter> pages_of (i, k') = {}"
    using assms unfolding tiling_def apart_def by blast
  then show False using fst_in_pages_of by blast
qed

lemma total_upd:
  assumes "k < MAX_ORDER"
  shows "free_total (fl(k := xs)) + length (fl k) * 2 ^ k = free_total fl + length xs * 2 ^ k"
proof -
  have "free_total g = length (g k) * 2 ^ k + (\<Sum>j \<in> {..<MAX_ORDER} - {k}. length (g j) * 2 ^ j)" for g
    unfolding free_total_def using assms by (intro sum.remove) auto
  from this [of "fl(k := xs)"] this [of fl] show ?thesis by simp
qed

lemma total_add: "k < MAX_ORDER \<Longrightarrow> free_total (fl(k := fl k @ [i])) = free_total fl + 2 ^ k"
  using total_upd [of k fl "fl k @ [i]"] by simp

lemma total_del:
  assumes "k < MAX_ORDER" and "i \<in> set (fl k)"
  shows "free_total fl = free_total (fl(k := remove1 i (fl k))) + 2 ^ k"
proof -
  have "length (fl k) = Suc (length (remove1 i (fl k)))"
    using assms(2) by (simp add: length_remove1) (metis Suc_pred length_pos_if_in_set)
  with total_upd [OF assms(1), of fl "remove1 i (fl k)"] show ?thesis by simp
qed

lemma lists_rep_distinct: "lists_rep s fl \<Longrightarrow> k < MAX_ORDER \<Longrightarrow> distinct (fl k)"
  by (auto simp: lists_rep_def dlist_def distinct_map)

lemma free_blocks_del:
  "distinct (fl k) \<Longrightarrow> free_blocks (fl(k := remove1 i (fl k))) = free_blocks fl - {(i, k)}"
  by (auto simp: free_blocks_def)

lemma free_blocks_add:
  "k < MAX_ORDER \<Longrightarrow> free_blocks (fl(k := fl k @ [i])) = insert (i, k) (free_blocks fl)"
  by (auto simp: free_blocks_def)

lemma order_inj: "k < MAX_ORDER \<Longrightarrow> k' < MAX_ORDER \<Longrightarrow> (of_nat k :: u32) = of_nat k' \<longleftrightarrow> k = k'"
  by (auto simp: MAX_ORDER_def word_of_nat_eq_iff take_bit_nat_eq_self_iff take_bit_nat_eq_self)

lemma order_not_inuse: "k < MAX_ORDER \<Longrightarrow> (of_nat k :: u32) \<noteq> PAGE_INUSE"
proof
  assume k: "k < MAX_ORDER" and "(of_nat k :: u32) = PAGE_INUSE"
  then have "unat (of_nat k :: u32) = unat (- 1 :: u32)" by (simp add: PAGE_INUSE_def)
  with k show False by (simp add: unat_of_nat MAX_ORDER_def unsigned_minus_1_eq_mask mask_eq_exp_minus_1)
qed

section \<open>The elementary steps\<close>

lemma map_remove1_PageNode: "map PageNode (remove1 i xs) = remove1 (PageNode i) (map PageNode xs)"
  by (induction xs) auto

lemma lists_rep_del:
  assumes rep: "lists_rep s fl" and t: "tiling (free_blocks fl \<union> R) n"
    and free: "k < MAX_ORDER" "i \<in> set (fl k)"
  shows "lists_rep (free_area_del i k s) (fl(k := remove1 i (fl k)))"
  unfolding lists_rep_def
proof (intro allI impI)
  fix m assume m: "m < MAX_ORDER"
  have dk: "dlist (links s) (FreeHead k) (map PageNode (fl k))" and
    dm: "dlist (links s) (FreeHead m) (map PageNode (fl m))"
    using rep free m by (auto simp: lists_rep_def)
  let ?l = "links (free_area_del i k s)"
  have l: "?l = list_del (PageNode i) (links s)" by (simp add: free_area_del_def)
  show "dlist ?l (FreeHead m) (map PageNode ((fl(k := remove1 i (fl k))) m))"
  proof (cases "m = k")
    case True
    have "dlist ?l (FreeHead k) (remove1 (PageNode i) (map PageNode (fl k)))"
      using dlist_list_del [OF dk, of "PageNode i"] free(2) by (simp add: l)
    with True show ?thesis by (simp add: map_remove1_PageNode)
  next
    case False
    have "set (fl m) \<inter> set (fl k) = {}"
      using head_unique [OF t, of _ m k] m free(1) False by (auto simp: free_blocks_def)
    with dm list_del_outside [OF dk, of "PageNode i"] free(2) False show ?thesis
      by (subst dlist_same_outside) (auto simp: l)
  qed
qed

lemma lists_rep_add:
  assumes rep: "lists_rep s fl" and t: "tiling (free_blocks fl \<union> R) n"
    and new: "(i, k) \<in> R" "(i, k) \<notin> free_blocks fl" "k < MAX_ORDER"
  shows "lists_rep (free_area_add i k s) (fl(k := fl k @ [i]))"
  unfolding lists_rep_def
proof (intro allI impI)
  fix m assume m: "m < MAX_ORDER"
  have dk: "dlist (links s) (FreeHead k) (map PageNode (fl k))" and
    dm: "dlist (links s) (FreeHead m) (map PageNode (fl m))"
    using rep new(3) m by (auto simp: lists_rep_def)
  let ?l = "links (free_area_add i k s)"
  have l: "?l = list_add_tail (PageNode i) (FreeHead k) (links s)"
    by (simp add: free_area_add_def set_order_def Let_def)
  have ni: "i \<notin> set (fl j)" if "j < MAX_ORDER" for j
    using head_unique [OF t, of i j k] new that by (auto simp: free_blocks_def)
  show "dlist ?l (FreeHead m) (map PageNode ((fl(k := fl k @ [i])) m))"
  proof (cases "m = k")
    case True
    with dlist_list_add_tail [OF dk, of "PageNode i"] ni [OF new(3)] show ?thesis
      by (auto simp: l)
  next
    case False
    have "set (fl m) \<inter> set (fl k) = {}"
      using head_unique [OF t, of _ m k] m new(3) False by (auto simp: free_blocks_def)
    with dm list_add_tail_outside [OF dk, of "PageNode i"] ni [OF m] False show ?thesis
      by (subst dlist_same_outside) (auto simp: l)
  qed
qed

lemma buddy_inv_del:
  assumes inv: "buddy_inv s fl A P" and free: "(i, k) \<in> free_blocks fl"
  shows "buddy_inv (free_area_del i k s) (fl(k := remove1 i (fl k))) A (insert (i, k) P)"
proof -
  let ?s = "free_area_del i k s" and ?fl = "fl(k := remove1 i (fl k))"
  have k: "k < MAX_ORDER" "i \<in> set (fl k)" using free by (auto simp: free_blocks_def)
  have t: "tiling (free_blocks fl \<union> (A \<union> P)) (unat (nr_pages s))" and rep: "lists_rep s fl"
    and dj: "free_blocks fl \<inter> A = {}" "free_blocks fl \<inter> P = {}" "A \<inter> P = {}"
    and c: "counts s fl" and lab: "labels s fl A"
    using inv by (auto simp: buddy_inv_def Un_assoc)
  have F: "free_blocks ?fl = free_blocks fl - {(i, k)}"
    using lists_rep_distinct [OF rep k(1)] by (rule free_blocks_del)
  have "free_blocks ?fl \<union> A \<union> insert (i, k) P = free_blocks fl \<union> (A \<union> P)"
    using free F by auto
  moreover have "nr_pages ?s = nr_pages s" by (simp add: free_area_del_def)
  ultimately have "tiling (free_blocks ?fl \<union> A \<union> insert (i, k) P) (unat (nr_pages ?s))"
    using t by simp
  moreover have "counts ?s ?fl"
    using c total_del [of k i fl, OF k] k(2)
    by (auto simp: counts_def free_area_del_def length_remove1 push_bit_eq_mult of_nat_diff Suc_le_eq
        dest: length_pos_if_in_set)
  moreover have "labels ?s ?fl A"
    using lab F by (auto simp: labels_def free_area_del_def)
  moreover have "free_blocks ?fl \<inter> A = {}" "free_blocks ?fl \<inter> insert (i, k) P = {}" "A \<inter> insert (i, k) P = {}"
    using dj free by (auto simp: F)
  moreover have "lists_rep ?s ?fl"
    using rep t k by (rule lists_rep_del)
  ultimately show ?thesis by (simp add: buddy_inv_def)
qed

lemma buddy_inv_add:
  assumes inv: "buddy_inv s fl A (insert (i, k) P)" and new: "(i, k) \<notin> P"
  shows "buddy_inv (free_area_add i k s) (fl(k := fl k @ [i])) A P"
proof -
  let ?s = "free_area_add i k s" and ?fl = "fl(k := fl k @ [i])"
  have t: "tiling (free_blocks fl \<union> (A \<union> insert (i, k) P)) (unat (nr_pages s))"
    and rep: "lists_rep s fl" and c: "counts s fl" and lab: "labels s fl A"
    and dj: "free_blocks fl \<inter> A = {}" "free_blocks fl \<inter> insert (i, k) P = {}" "A \<inter> insert (i, k) P = {}"
    using inv by (auto simp: buddy_inv_def Un_assoc)
  have k: "k < MAX_ORDER" using tiling_bounds(1) [OF t, of "(i, k)"] by simp
  have F: "free_blocks ?fl = insert (i, k) (free_blocks fl)"
    using k by (rule free_blocks_add)
  have "free_blocks ?fl \<union> A \<union> P = free_blocks fl \<union> (A \<union> insert (i, k) P)"
    using F by auto
  moreover have "nr_pages ?s = nr_pages s"
    by (simp add: free_area_add_def set_order_def Let_def)
  ultimately have "tiling (free_blocks ?fl \<union> A \<union> P) (unat (nr_pages ?s))" using t by simp
  moreover have "counts ?s ?fl"
    using c total_add [OF k, of fl i]
    by (auto simp: counts_def free_area_add_def set_order_def Let_def push_bit_eq_mult)
  moreover have "labels ?s ?fl A"
  proof -
    have "j \<noteq> i" if "(j, m) \<in> free_blocks fl \<union> A" for j m
      using head_unique [OF t, of j m k] that dj by blast
    with lab F show ?thesis
      by (fastforce simp: labels_def free_area_add_def set_order_def Let_def)
  qed
  moreover have "lists_rep ?s ?fl"
    using lists_rep_add [OF rep t _ _ k, of i] dj by blast
  moreover have "free_blocks ?fl \<inter> A = {}" "free_blocks ?fl \<inter> P = {}" "A \<inter> P = {}"
    using dj new by (auto simp: F)
  ultimately show ?thesis by (simp add: buddy_inv_def)
qed

lemma buddy_inv_merge:
  assumes inv: "buddy_inv s fl A (insert (i, k) (insert (j, k) P))"
    and b: "j = i XOR 2 ^ k" and k: "Suc k < MAX_ORDER" and new: "(i, k) \<notin> P" "(j, k) \<notin> P"
  shows "buddy_inv s fl A (insert (unset_bit k i, Suc k) P) \<and> (unset_bit k i, Suc k) \<notin> P"
proof -
  let ?c = "unset_bit k i" and ?R = "free_blocks fl \<union> A \<union> P"
  have t: "tiling (insert (i, k) (insert (j, k) ?R)) (unat (nr_pages s))"
    and new': "(i, k) \<notin> ?R" "(j, k) \<notin> ?R"
    using inv new by (auto simp: buddy_inv_def Un_ac)
  have "2 ^ k dvd i" using tiling_bounds(2) [OF t, of "(i, k)"] by simp
  then have "tiling (insert (?c, Suc k) ?R) (unat (nr_pages s)) \<and> (?c, Suc k) \<notin> ?R"
  proof (cases rule: buddy_cases)
    case low
    with t new' b k show ?thesis using tiling_merge [of i k ?R] by simp
  next
    case (high m)
    have "tiling (insert (m, k) (insert (m + 2 ^ k, k) ?R)) (unat (nr_pages s))"
      using t b high by (simp add: insert_commute)
    with new' b k high show ?thesis using tiling_merge [of m k ?R] by simp
  qed
  with inv show ?thesis by (auto simp: buddy_inv_def Un_ac)
qed

lemma buddy_inv_split:
  assumes inv: "buddy_inv s fl A (insert (i, Suc k) P)" and new: "(i, Suc k) \<notin> P"
  shows "buddy_inv s fl A (insert (i + 2 ^ k, k) (insert (i, k) P))
    \<and> (i + 2 ^ k, k) \<notin> insert (i, k) P \<and> (i, k) \<notin> P"
proof -
  let ?R = "free_blocks fl \<union> A \<union> P"
  have "tiling (insert (i, Suc k) ?R) (unat (nr_pages s))" "(i, Suc k) \<notin> ?R"
    using inv new by (auto simp: buddy_inv_def Un_ac)
  from tiling_split [OF this] inv show ?thesis
    by (auto simp: buddy_inv_def Un_ac insert_commute)
qed

text \<open>Only the label of the block's first page matters, and only while the block is not pending.\<close>

lemma buddy_inv_hand_out:
  assumes inv: "buddy_inv s fl A (insert (i, k) P)" and new: "(i, k) \<notin> P"
  shows "buddy_inv (set_refcount i v (set_order i PAGE_INUSE s)) fl (insert (i, k) A) P"
proof -
  let ?s = "set_refcount i v (set_order i PAGE_INUSE s)"
  have t: "tiling (free_blocks fl \<union> A \<union> insert (i, k) P) (unat (nr_pages s))"
    and dj: "free_blocks fl \<inter> insert (i, k) P = {}" "A \<inter> insert (i, k) P = {}"
    using inv by (auto simp: buddy_inv_def)
  have "j \<noteq> i" if "(j, m) \<in> free_blocks fl \<union> A" for j m
    using head_unique [OF t, of j m k] that dj by blast
  then have "labels ?s fl (insert (i, k) A)"
    using inv by (fastforce simp: buddy_inv_def labels_def set_order_def set_refcount_def)
  moreover have "lists_rep ?s fl" "counts ?s fl" "nr_pages ?s = nr_pages s"
    using inv by (auto simp: buddy_inv_def lists_rep_def counts_def set_order_def set_refcount_def)
  moreover have "free_blocks fl \<union> insert (i, k) A \<union> P = free_blocks fl \<union> A \<union> insert (i, k) P" by auto
  ultimately show ?thesis using inv new by (auto simp: buddy_inv_def)
qed

lemma buddy_inv_take_back:
  "buddy_inv s fl (insert (i, k) A) P \<Longrightarrow> (i, k) \<notin> A \<Longrightarrow> buddy_inv s fl A (insert (i, k) P) \<and> (i, k) \<notin> P"
  by (auto simp: buddy_inv_def labels_def Un_ac)

lemma set_refcount_simps [simp]:
  "pg_order (mem_map (set_refcount i v s) j) = pg_order (mem_map s j)"
  "pg_refcount (mem_map (set_refcount i v s) j) = (if j = i then v else pg_refcount (mem_map s j))"
  "links (set_refcount i v s) = links s" "area_nr_free (set_refcount i v s) = area_nr_free s"
  "nr_free (set_refcount i v s) = nr_free s" "nr_pages (set_refcount i v s) = nr_pages s"
  "mem_start (set_refcount i v s) = mem_start s" "mem_end (set_refcount i v s) = mem_end s"
  "ram (set_refcount i v s) = ram s"
  by (simp_all add: set_refcount_def)

lemma buddy_inv_refcount: "buddy_inv (set_refcount i v s) fl A P \<longleftrightarrow> buddy_inv s fl A P"
  by (simp add: buddy_inv_def labels_def lists_rep_def counts_def)

lemma buddy_inv_ram: "buddy_inv (s\<lparr>ram := m\<rparr>) fl A P \<longleftrightarrow> buddy_inv s fl A P"
  by (auto simp: buddy_inv_def labels_def lists_rep_def counts_def)

text \<open>The test of \<open>__free_one_page\<close> finds a buddy exactly when it is a free block of that order.\<close>

lemma buddy_found:
  assumes inv: "buddy_inv s fl A {(i, k)}" and b: "page_buddy i k s = Some j"
    and lab: "pg_order (mem_map s j) = of_nat k"
  shows "(j, k) \<in> free_blocks fl"
proof -
  let ?B = "free_blocks fl \<union> A \<union> {(i, k)}"
  have t: "tiling ?B (unat (nr_pages s))" using inv by (simp add: buddy_inv_def)
  have j: "j = i XOR 2 ^ k" "j < unat (nr_pages s)"
    using b by (auto simp: page_buddy_def Let_def split: if_splits)
  then obtain c where "c \<in> ?B" "j \<in> pages_of c" using t unfolding tiling_def by blast
  then obtain l m where c: "(l, m) \<in> ?B" "j \<in> pages_of (l, m)" by (cases c) auto
  then have l: "l = j" using buddy_is_head [OF t, of i k l m] j by simp
  have k: "k < MAX_ORDER" and m: "m < MAX_ORDER"
    using tiling_bounds(1) [OF t, of "(i, k)"] tiling_bounds(1) [OF t c(1)] by auto
  have "2 ^ k dvd i" using tiling_bounds(2) [OF t, of "(i, k)"] by simp
  then have "j \<noteq> i" using j(1) by (cases rule: buddy_cases) auto
  then have "(j, m) \<in> free_blocks fl \<union> A" using c l by auto
  moreover have "(j, m) \<notin> A"
    using inv lab order_not_inuse [OF k] by (auto simp: buddy_inv_def labels_def)
  ultimately have f: "(j, m) \<in> free_blocks fl" by simp
  with inv lab have "(of_nat m :: u32) = of_nat k" by (auto simp: buddy_inv_def labels_def)
  with f k m show ?thesis by (simp add: order_inj)
qed

section \<open>Accounting and coalescing\<close>

lemma tiling_pages: "tiling B n \<Longrightarrow> (\<Sum>b \<in> B. 2 ^ snd b) = n"
proof -
  assume t: "tiling B n"
  have "card (\<Union> (pages_of ` B)) = (\<Sum>b \<in> B. card (pages_of b))"
    using t finite_tiling [OF t]
    by (intro card_UN_disjoint) (auto simp: tiling_def apart_def pages_of_def)
  also have "\<dots> = (\<Sum>b \<in> B. 2 ^ snd b)" by (simp add: pages_of_def)
  finally show ?thesis using t by (simp add: tiling_def)
qed

lemma free_blocks_pages:
  assumes "\<And>k. k < MAX_ORDER \<Longrightarrow> distinct (fl k)"
  shows "(\<Sum>b \<in> free_blocks fl. 2 ^ snd b) = free_total fl"
proof -
  have "free_blocks fl = (\<Union>k<MAX_ORDER. (\<lambda>i. (i, k)) ` set (fl k))"
    by (auto simp: free_blocks_def)
  then have "(\<Sum>b \<in> free_blocks fl. 2 ^ snd b) = (\<Sum>k<MAX_ORDER. \<Sum>b \<in> (\<lambda>i. (i, k)) ` set (fl k). 2 ^ snd b)"
    by (simp only:) (rule sum.UNION_disjoint, auto)
  also have "\<dots> = (\<Sum>k<MAX_ORDER. length (fl k) * 2 ^ k)"
    using assms by (intro sum.cong) (auto simp: sum.reindex inj_on_def distinct_card)
  finally show ?thesis by (simp add: free_total_def)
qed

lemma buddy_inv_accounting:
  assumes "buddy_inv s fl A P"
  shows "free_total fl + (\<Sum>b \<in> A. 2 ^ snd b) + (\<Sum>b \<in> P. 2 ^ snd b) = unat (nr_pages s)"
proof -
  have t: "tiling (free_blocks fl \<union> A \<union> P) (unat (nr_pages s))"
    and d: "free_blocks fl \<inter> A = {}" "free_blocks fl \<inter> P = {}" "A \<inter> P = {}"
    and r: "lists_rep s fl"
    using assms by (auto simp: buddy_inv_def)
  have f: "finite (free_blocks fl)" "finite A" "finite P" using finite_tiling [OF t] by auto
  have "(\<Sum>b \<in> free_blocks fl \<union> A \<union> P. 2 ^ snd b) =
      (\<Sum>b \<in> free_blocks fl. 2 ^ snd b) + (\<Sum>b \<in> A. 2 ^ snd b) + (\<Sum>b \<in> P. 2 ^ snd b :: nat)"
    using f d by (simp add: sum.union_disjoint Int_Un_distrib2)
  with tiling_pages [OF t] free_blocks_pages [OF lists_rep_distinct [OF r]] show ?thesis by simp
qed

lemma unat_nr_free: "buddy_inv s fl A P \<Longrightarrow> unat (nr_free s) = free_total fl"
proof -
  assume inv: "buddy_inv s fl A P"
  have "free_total fl < 2 ^ 32"
    using buddy_inv_accounting [OF inv] unat_u32 [of "nr_pages s"] by linarith
  with inv show ?thesis by (simp add: buddy_inv_def counts_def unat_of_nat)
qed

definition coalesced :: "(nat \<Rightarrow> nat list) \<Rightarrow> bool" where
  "coalesced fl \<longleftrightarrow>
     (\<forall>(i, k) \<in> free_blocks fl. Suc k < MAX_ORDER \<longrightarrow> (i XOR 2 ^ k, k) \<notin> free_blocks fl)"

lemma xor_xor_cancel: "(i XOR m) XOR m = (i :: nat)"
  by (simp add: xor.assoc)

lemma coalesced_del:
  "coalesced fl \<Longrightarrow> distinct (fl k) \<Longrightarrow> coalesced (fl(k := remove1 i (fl k)))"
  by (auto simp: coalesced_def free_blocks_del)

lemma coalesced_add:
  assumes "coalesced fl" and "k < MAX_ORDER" and "Suc k < MAX_ORDER \<longrightarrow> (i XOR 2 ^ k, k) \<notin> free_blocks fl"
  shows "coalesced (fl(k := fl k @ [i]))"
proof -
  have "j XOR 2 ^ k = i \<Longrightarrow> j = i XOR 2 ^ k" for j using xor_xor_cancel [of j "2 ^ k"] by simp
  moreover have "i XOR 2 ^ k \<noteq> i" by (metis power_eq_0_iff xor.right_neutral xor_self_eq xor_xor_cancel xor.commute zero_neq_numeral)
  ultimately show ?thesis
    using assms by (force simp: coalesced_def free_blocks_add)
qed

section \<open>Freeing and allocating blocks\<close>

text \<open>What no operation on blocks touches.\<close>

definition same_frame :: "pmm \<Rightarrow> pmm \<Rightarrow> bool" where
  "same_frame s s' \<longleftrightarrow>
     mem_start s' = mem_start s \<and> mem_end s' = mem_end s \<and> nr_pages s' = nr_pages s \<and> ram s' = ram s
     \<and> (\<forall>j. pg_refcount (mem_map s' j) = pg_refcount (mem_map s j))"

lemma same_frame_refl [simp]: "same_frame s s"
  by (simp add: same_frame_def)

lemma same_frame_trans: "same_frame s s' \<Longrightarrow> same_frame s' s'' \<Longrightarrow> same_frame s s''"
  by (simp add: same_frame_def)

lemma same_frame_add: "same_frame s (free_area_add i k s)"
  by (simp add: same_frame_def free_area_add_def set_order_def Let_def)

lemma same_frame_del: "same_frame s (free_area_del i k s)"
  by (simp add: same_frame_def free_area_del_def)

lemma same_frame_free_one_page: "same_frame s (free_one_page i k s)"
proof (induction i k s rule: free_one_page.induct)
  case (1 i k s)
  show ?case
    by (subst free_one_page.simps)
      (auto simp: same_frame_add split: option.split intro: same_frame_trans [OF same_frame_del 1])
qed

lemma same_frame_alloc_split: "same_frame s (alloc_split i k order s)"
  by (induction i k order s rule: alloc_split.induct)
    (auto intro: same_frame_trans [OF same_frame_add])

lemma free_add_coalesced:
  assumes inv: "buddy_inv s fl A {(i, k)}" and co: "coalesced fl"
    and nb: "Suc k < MAX_ORDER \<longrightarrow> (i XOR 2 ^ k, k) \<notin> free_blocks fl"
  shows "\<exists>fl'. buddy_inv (free_area_add i k s) fl' A {} \<and> coalesced fl'"
proof -
  have "tiling (free_blocks fl \<union> A \<union> {(i, k)}) (unat (nr_pages s))"
    using inv by (simp add: buddy_inv_def)
  then have "k < MAX_ORDER" using tiling_bounds(1) [of _ _ "(i, k)"] by fastforce
  with co nb buddy_inv_add [OF inv] show ?thesis by (blast intro: coalesced_add)
qed

lemma free_one_page_ok:
  assumes "buddy_inv s fl A {(i, k)}" and "coalesced fl"
  shows "\<exists>fl'. buddy_inv (free_one_page i k s) fl' A {} \<and> coalesced fl'"
  using assms
proof (induction i k s arbitrary: fl rule: free_one_page.induct)
  case (1 i k s)
  let ?j = "i XOR 2 ^ k"
  have t: "tiling (free_blocks fl \<union> A \<union> {(i, k)}) (unat (nr_pages s))"
    using "1.prems" by (simp add: buddy_inv_def)
  show ?case
  proof (cases "k < MAX_ORDER - 1 \<and> page_buddy i k s = Some ?j \<and> pg_order (mem_map s ?j) = of_nat k")
    case False
    have "(?j, k) \<notin> free_blocks fl" if "Suc k < MAX_ORDER"
    proof
      assume f: "(?j, k) \<in> free_blocks fl"
      then have "?j < unat (nr_pages s)" using tiling_bounds(4) [OF t, of "(?j, k)"] by simp
      moreover have "pg_order (mem_map s ?j) = of_nat k"
        using f "1.prems"(1) by (auto simp: buddy_inv_def labels_def)
      ultimately show False using False that by (auto simp: page_buddy_def)
    qed
    then have "\<exists>fl'. buddy_inv (free_area_add i k s) fl' A {} \<and> coalesced fl'"
      using "1.prems" by (intro free_add_coalesced) auto
    moreover have "free_one_page i k s = free_area_add i k s"
      using False by (subst free_one_page.simps) (auto simp: page_buddy_def Let_def)
    ultimately show ?thesis by simp
  next
    case True
    then have free: "(?j, k) \<in> free_blocks fl" and k: "Suc k < MAX_ORDER"
      using buddy_found "1.prems"(1) by auto
    let ?s = "free_area_del ?j k s" and ?fl = "fl(k := remove1 ?j (fl k))"
    have "buddy_inv ?s ?fl A (insert (i, k) (insert (?j, k) {}))"
      using buddy_inv_del [OF "1.prems"(1) free] by (simp add: insert_commute)
    then have m: "buddy_inv ?s ?fl A {(unset_bit k i, Suc k)}"
      using buddy_inv_merge [of ?s ?fl A i k ?j "{}"] k by simp
    have "distinct (fl k)"
      using "1.prems"(1) k by (auto simp: buddy_inv_def intro: lists_rep_distinct)
    then have "coalesced ?fl" using "1.prems"(2) by (intro coalesced_del)
    with "1.IH" [of ?j] True m show ?thesis
      by (subst free_one_page.simps) auto
  qed
qed

lemma alloc_split_ok:
  assumes "buddy_inv s fl A {(i, k)}" and "coalesced fl" and "order \<le> k"
  shows "\<exists>fl'. buddy_inv (alloc_split i k order s) fl' A {(i, order)} \<and> coalesced fl'"
  using assms
proof (induction i k order s arbitrary: fl rule: alloc_split.induct)
  case (1 i order s)
  then show ?case by auto
next
  case (2 i k order s)
  show ?case
  proof (cases "order < Suc k")
    case True
    have t: "tiling (free_blocks fl \<union> A \<union> {(i, Suc k)}) (unat (nr_pages s))"
      using "2.prems" by (simp add: buddy_inv_def)
    have al: "2 ^ Suc k dvd i" "Suc k < MAX_ORDER"
      using tiling_bounds(1,2) [OF t, of "(i, Suc k)"] by auto
    have sp: "buddy_inv s fl A (insert (i + 2 ^ k, k) {(i, k)})" "(i + 2 ^ k, k) \<notin> {(i, k)}"
      using buddy_inv_split [OF "2.prems"(1)] by auto
    have inv: "buddy_inv (free_area_add (i + 2 ^ k) k s) (fl(k := fl k @ [i + 2 ^ k])) A {(i, k)}"
      using sp by (rule buddy_inv_add)
    have "(i + 2 ^ k) XOR 2 ^ k = i"
    proof -
      have "2 ^ k dvd i" using al(1) by (meson dvd_trans le_imp_power_dvd le_SucI order_refl)
      then show ?thesis
      proof (cases rule: buddy_cases)
        case low
        then show ?thesis using xor_xor_cancel [of i "2 ^ k"] by simp
      next
        case (high j)
        with al(1) show ?thesis by (auto simp: dvd_add_right_iff dest: dvd_imp_le)
      qed
    qed
    moreover have "(i, k) \<notin> free_blocks fl" using sp(1) by (auto simp: buddy_inv_def)
    ultimately have co: "coalesced (fl(k := fl k @ [i + 2 ^ k]))"
      using "2.prems"(2) al(2) by (intro coalesced_add) auto
    have "order \<le> k" using True by simp
    from "2.IH" [OF True inv co this] True show ?thesis by simp
  next
    case False
    with "2.prems" show ?thesis by auto
  qed
qed

text \<open>With coalesced free lists, an aligned run of free pages lies inside one free block.\<close>

lemma nested_blocks:
  assumes "2 ^ k dvd i" and "2 ^ m dvd j" and "m \<le> k" and "x \<in> pages_of (i, k)" and "x \<in> pages_of (j, m)"
  shows "pages_of (j, m) \<subseteq> pages_of (i, k)"
proof
  fix y assume "y \<in> pages_of (j, m)"
  then have "y div 2 ^ m = x div 2 ^ m" using assms by (simp add: aligned_mem)
  moreover obtain r where "k = m + r" using assms(3) by (auto simp: le_iff_add)
  ultimately have "y div 2 ^ k = x div 2 ^ k" by (simp add: power_add div_mult2_eq)
  with assms show "y \<in> pages_of (i, k)" by (simp add: aligned_mem)
qed

lemma buddy_in_larger:
  assumes "2 ^ k dvd i" and "2 ^ m dvd j" and "m < k" and "j \<in> pages_of (i, k)"
  shows "j XOR 2 ^ m \<in> pages_of (i, k)"
proof -
  have "(j XOR 2 ^ m) div 2 ^ Suc m = j div 2 ^ Suc m"
    using assms(2) by (cases rule: buddy_cases) (auto simp: div_plus_div_distrib_dvd_left)
  moreover obtain r where "k = Suc m + r" using assms(3) by (metis less_iff_Suc_add add_Suc_shift add_Suc)
  ultimately have "(j XOR 2 ^ m) div 2 ^ k = j div 2 ^ k" by (simp only: power_add div_mult2_eq)
  with assms show ?thesis by (simp add: aligned_mem)
qed

lemma free_run_in_block:
  assumes inv: "buddy_inv s fl A {}" and co: "coalesced fl"
    and run: "block_ok (unat (nr_pages s)) (i, k)" "\<forall>b \<in> A. pages_of b \<inter> pages_of (i, k) = {}"
  shows "\<exists>j m. (j, m) \<in> free_blocks fl \<and> k \<le> m"
proof (rule ccontr)
  assume small: "\<nexists>j m. (j, m) \<in> free_blocks fl \<and> k \<le> m"
  let ?B = "free_blocks fl \<union> A" and ?n = "unat (nr_pages s)"
  have t: "tiling ?B ?n" using inv by (simp add: buddy_inv_def)
  have ai: "2 ^ k dvd i" and k: "k < MAX_ORDER" using run(1) by (auto simp: block_ok_def)
  have cov: "\<exists>j m. (j, m) \<in> free_blocks fl \<and> x \<in> pages_of (j, m)" if "x \<in> pages_of (i, k)" for x
  proof -
    have "x \<in> {..<?n}" using that run(1) by (auto simp: pages_of_def block_ok_def)
    then obtain c where "c \<in> ?B" "x \<in> pages_of c" using t unfolding tiling_def by blast
    with that run(2) show ?thesis by (cases c) blast
  qed
  let ?Q = "\<lambda>m. \<exists>j. (j, m) \<in> free_blocks fl \<and> j \<in> pages_of (i, k)"
  have nest: "j \<in> pages_of (i, k)" if "(j, m) \<in> free_blocks fl" "x \<in> pages_of (j, m)" "x \<in> pages_of (i, k)" for j m x
  proof -
    have "m \<le> k" using small that(1) by (meson nat_le_linear)
    moreover have "2 ^ m dvd j" using tiling_bounds(2) [OF t, of "(j, m)"] that(1) by simp
    ultimately have "pages_of (j, m) \<subseteq> pages_of (i, k)" using ai that by (intro nested_blocks) auto
    then show ?thesis using fst_in_pages_of by blast
  qed
  have "\<exists>m. ?Q m" using cov [OF fst_in_pages_of] nest fst_in_pages_of by blast
  then have Q: "?Q (LEAST m. ?Q m)" by (rule LeastI_ex)
  define m where "m = (LEAST m. ?Q m)"
  obtain j where j: "(j, m) \<in> free_blocks fl" "j \<in> pages_of (i, k)" using Q by (auto simp: m_def)
  have mk: "m < k" using small j(1) by (meson not_le)
  have aj: "2 ^ m dvd j" using tiling_bounds(2) [OF t, of "(j, m)"] j(1) by simp
  have bj: "j XOR 2 ^ m \<in> pages_of (i, k)" using ai aj mk j(2) by (rule buddy_in_larger)
  then obtain l p where l: "(l, p) \<in> free_blocks fl" "j XOR 2 ^ m \<in> pages_of (l, p)" using cov by blast
  have "l = j XOR 2 ^ m" "p \<le> m" using buddy_is_head [OF t, of j m l p] j(1) l by auto
  moreover have "m \<le> p" unfolding m_def using l nest bj by (intro Least_le) blast
  ultimately have "(j XOR 2 ^ m, m) \<in> free_blocks fl" using l(1) by simp
  with co j(1) mk k show False by (auto simp: coalesced_def)
qed

end
