(* ===== verification/Page_Alloc.thy ===== *)
theory Page_Alloc
  imports Buddy_Inv
begin

text \<open>
  What the exported operations of src/arch/x86/kernel/mm/buddy.c promise, in terms of addresses.

  \<open>pmm_inv s A\<close> is the invariant between operations: the managed range has the geometry
  \<open>pmm_init\<close> gives it, the free lists and the blocks \<open>A\<close> handed out tile it, no two free buddies
  are left unmerged, and every block handed out has references. The lemmas show what allocation,
  the release of blocks and the reference counts of single pages do, that \<open>pmm_init\<close> establishes
  the invariant, and when an allocation fails.
\<close>

section \<open>The invariant between operations\<close>

definition pmm_geom :: "pmm \<Rightarrow> bool" where
  "pmm_geom s \<longleftrightarrow>
     unat (mem_start s) mod 4096 = 0 \<and> mem_end s \<le> PHYSMEM_TOP_MAX
     \<and> unat (mem_start s) + 4096 * unat (nr_pages s) = unat (mem_end s)"

definition pmm_inv :: "pmm \<Rightarrow> block set \<Rightarrow> bool" where
  "pmm_inv s A \<longleftrightarrow>
     pmm_geom s \<and> (\<exists>fl. buddy_inv s fl A {} \<and> coalesced fl)
     \<and> (\<forall>(i, k) \<in> A. pg_refcount (mem_map s i) \<noteq> 0)"

lemma same_frame_geom: "same_frame s s' \<Longrightarrow> pmm_geom s' \<longleftrightarrow> pmm_geom s"
  by (simp add: same_frame_def pmm_geom_def)

lemma unat_page_to_addr:
  assumes "pmm_geom s" and "i < unat (nr_pages s)"
  shows "unat (page_to_addr i s) = 0xC0000000 + unat (mem_start s) + 4096 * i"
proof -
  have b: "unat (mem_start s) + 4096 * i < 0x38000000"
    using assms by (simp add: pmm_geom_def word_le_nat_alt PHYSMEM_TOP_MAX_def)
  then have "unat (mem_start s + of_nat i * PGSIZE) = unat (mem_start s) + 4096 * i"
    by (simp add: unat_word_ariths PGSIZE_def unat_of_nat mult.commute)
  with b show ?thesis by (simp add: page_to_addr_def unat_P2V)
qed

lemma V2P_page_to_addr:
  assumes "pmm_geom s" and "i < unat (nr_pages s)"
  shows "unat (V2P (page_to_addr i s)) = unat (mem_start s) + 4096 * i" "KERNBASE \<le> page_to_addr i s"
proof -
  have b: "unat (mem_start s) + 4096 * i < 0x38000000"
    using assms by (simp add: pmm_geom_def word_le_nat_alt PHYSMEM_TOP_MAX_def)
  then show "unat (V2P (page_to_addr i s)) = unat (mem_start s) + 4096 * i"
    by (simp add: page_to_addr_def unat_word_ariths PGSIZE_def unat_of_nat mult.commute)
  show "KERNBASE \<le> page_to_addr i s"
    using unat_page_to_addr [OF assms] by (simp add: word_le_nat_alt KERNBASE_def)
qed

lemma unat_div_PGSIZE: "unat (x div PGSIZE) = unat x div 4096"
  by (simp add: unat_div PGSIZE_def)

lemma addr_to_page_to_addr:
  assumes g: "pmm_geom s" and i: "i < unat (nr_pages s)"
  shows "addr_to_page (page_to_addr i s) s = Some i"
proof -
  let ?a = "V2P (page_to_addr i s)"
  note a = V2P_page_to_addr [OF g i]
  have lo: "mem_start s \<le> ?a" and hi: "?a < mem_end s"
    using a(1) i g by (auto simp: word_le_nat_alt word_less_nat_alt pmm_geom_def)
  have "unat (?a AND (PGSIZE - 1)) = 0"
    using a(1) g by (simp add: unat_and_pgmask pmm_geom_def mod_add_left_eq [symmetric])
  then have "?a AND (PGSIZE - 1) = 0" by (simp add: unat_eq_0)
  moreover have "unat ((?a - mem_start s) div PGSIZE) = i"
    using a(1) lo by (simp add: unat_div_PGSIZE unat_sub)
  ultimately show ?thesis using a(2) lo hi by (auto simp: addr_to_page_def Let_def)
qed

lemma page_to_addr_to_page:
  assumes g: "pmm_geom s" and r: "addr_to_page addr s = Some i"
  shows "i < unat (nr_pages s) \<and> page_to_addr i s = (if KERNBASE \<le> addr then addr else P2V addr)"
proof -
  define a where "a = (if KERNBASE \<le> addr then V2P addr else addr)"
  have a: "mem_start s \<le> a" "a < mem_end s" "a AND (PGSIZE - 1) = 0"
    and i: "i = unat ((a - mem_start s) div PGSIZE)"
    using r by (auto simp: addr_to_page_def a_def Let_def not_less split: if_splits)
  have am: "unat a mod 4096 = 0"
    using a(3) unat_and_pgmask [of a] by simp
  have le: "unat (mem_start s) \<le> unat a" "unat a < unat (mem_end s)"
    using a(1,2) by (auto simp: word_le_nat_alt word_less_nat_alt)
  have "(unat a - unat (mem_start s)) mod 4096 = 0"
    using am g le(1) by (simp add: pmm_geom_def mod_eq_0_iff_dvd dvd_diff_nat)
  moreover have i': "i = (unat a - unat (mem_start s)) div 4096"
    using a(1) by (simp add: i unat_div_PGSIZE unat_sub)
  ultimately have d: "unat (mem_start s) + 4096 * i = unat a" using le(1) by auto
  with le(2) g have lt: "i < unat (nr_pages s)" by (auto simp: pmm_geom_def)
  have "unat (V2P (page_to_addr i s)) = unat a"
    using V2P_page_to_addr(1) [OF g lt] d by simp
  then have "V2P (page_to_addr i s) = a" by (rule unsigned_word_eqI)
  then have "page_to_addr i s = P2V a" using P2V_V2P by metis
  with lt show ?thesis by (simp add: a_def)
qed

section \<open>Byte loops\<close>

lemma memset_apply:
  "n \<le> 2 ^ 32 \<Longrightarrow> memset p c n m a = (if unat (a - p) < n then c else m a)"
proof (induction n arbitrary: p m)
  case (Suc n)
  show ?case
  proof (cases "a = p")
    case False
    then have "a - p \<noteq> 0" by simp
    then have "unat (a - p) = Suc (unat (a - p - 1))"
      by (metis Suc_pred' unat_minus_one unat_gt_0)
    with Suc False show ?thesis by (simp add: diff_diff_eq)
  qed (use Suc in simp)
qed simp

section \<open>Allocation\<close>

lemma first_free_block:
  assumes inv: "buddy_inv s fl A P" and k: "k < MAX_ORDER" and ne: "\<not> list_empty (FreeHead k) (links s)"
  obtains i where "list_first (FreeHead k) (links s) = PageNode i" "(i, k) \<in> free_blocks fl"
proof -
  have d: "dlist (links s) (FreeHead k) (map PageNode (fl k))"
    using inv k by (simp add: buddy_inv_def lists_rep_def)
  with ne have "fl k \<noteq> []" by (simp add: dlist_list_empty)
  with dlist_list_first [OF d] k show thesis
    by (intro that [of "hd (fl k)"]) (auto simp: hd_map free_blocks_def)
qed

lemma list_empty_no_blocks:
  "buddy_inv s fl A P \<Longrightarrow> k < MAX_ORDER \<Longrightarrow> list_empty (FreeHead k) (links s) \<longleftrightarrow> fl k = []"
  using dlist_list_empty [of "links s" "FreeHead k" "map PageNode (fl k)"]
  by (simp add: buddy_inv_def lists_rep_def)

lemma alloc_block_cases:
  assumes inv: "buddy_inv s fl A {}"
  obtains (full) "alloc_block order s = (None, s)" "order < MAX_ORDER \<longrightarrow> (\<forall>(i, k) \<in> free_blocks fl. k < order)"
    | (found) i k where "order \<le> k" "(i, k) \<in> free_blocks fl"
      "alloc_block order s = (Some i, set_refcount i 1 (set_order i PAGE_INUSE
         (alloc_split i k order (free_area_del i k s))))"
proof (cases "order < MAX_ORDER")
  case False
  then show thesis by (intro full) (auto simp: alloc_block_def)
next
  case True
  let ?P = "\<lambda>oo. \<not> list_empty (FreeHead oo) (links s)"
  show thesis
  proof (cases "find ?P [order..<MAX_ORDER]")
    case None
    then have "\<forall>k. order \<le> k \<and> k < MAX_ORDER \<longrightarrow> fl k = []"
      using inv by (auto simp: find_upt_None list_empty_no_blocks)
    then have "\<forall>(i, k) \<in> free_blocks fl. k < order" by (auto simp: free_blocks_def) (metis emptyE empty_set not_less)
    with None True show thesis by (intro full) (auto simp: alloc_block_def)
  next
    case (Some k)
    then have k: "order \<le> k" "k < MAX_ORDER" "?P k" by (auto simp: find_upt_Some)
    from first_free_block [OF inv k(2,3)] obtain i where
      "list_first (FreeHead k) (links s) = PageNode i" "(i, k) \<in> free_blocks fl" .
    with Some True k show thesis by (intro found) (auto simp: alloc_block_def Let_def)
  qed
qed

definition same_range :: "pmm \<Rightarrow> pmm \<Rightarrow> bool" where
  "same_range s s' \<longleftrightarrow> mem_start s' = mem_start s \<and> mem_end s' = mem_end s \<and> nr_pages s' = nr_pages s"

lemma same_frame_range: "same_frame s s' \<Longrightarrow> same_range s s'"
  by (simp add: same_frame_def same_range_def)

text \<open>What is free is what is not handed out.\<close>

lemma pmm_inv_accounting: "pmm_inv s A \<Longrightarrow> unat (nr_free s) + (\<Sum>b \<in> A. 2 ^ snd b) = unat (nr_pages s)"
  using buddy_inv_accounting [of s _ A "{}"] unat_nr_free [of s _ A "{}"] by (auto simp: pmm_inv_def)

lemma pmm_inv_finite: "pmm_inv s A \<Longrightarrow> finite A"
  by (auto simp: pmm_inv_def buddy_inv_def dest!: finite_tiling)

lemma pmm_inv_tiling: "pmm_inv s A \<Longrightarrow> b \<in> A \<Longrightarrow> block_ok (unat (nr_pages s)) b"
  by (auto simp: pmm_inv_def buddy_inv_def tiling_def)

lemma pmm_inv_apart: "pmm_inv s A \<Longrightarrow> apart A"
  unfolding pmm_inv_def buddy_inv_def tiling_def apart_def by blast

lemma pmm_inv_nr_free_insert:
  assumes "pmm_inv s A" and "pmm_inv s' (insert b A)" and "b \<notin> A" and "nr_pages s' = nr_pages s"
  shows "unat (nr_free s') + 2 ^ snd b = unat (nr_free s)"
  using pmm_inv_accounting [OF assms(1)] pmm_inv_accounting [OF assms(2)] pmm_inv_finite [OF assms(1)] assms(3,4)
  by simp

lemma alloc_block_Some:
  assumes pi: "pmm_inv s A" and r: "alloc_block order s = (Some i, s')"
  shows "pmm_inv s' (insert (i, order) A)" "(i, order) \<notin> A" "same_range s s'" "ram s' = ram s"
    "pg_refcount (mem_map s' j) = (if j = i then 1 else pg_refcount (mem_map s j))"
proof -
  obtain fl where inv: "buddy_inv s fl A {}" and co: "coalesced fl" and g: "pmm_geom s"
    using pi by (auto simp: pmm_inv_def)
  from inv obtain k where k: "order \<le> k" "(i, k) \<in> free_blocks fl"
    and s': "s' = set_refcount i 1 (set_order i PAGE_INUSE (alloc_split i k order (free_area_del i k s)))"
    by (cases rule: alloc_block_cases [of s fl A order]) (use r in auto)
  let ?d = "free_area_del i k s" let ?t = "alloc_split i k order ?d"
  have "lists_rep s fl" using inv by (simp add: buddy_inv_def)
  then have "coalesced (fl(k := remove1 i (fl k)))"
    using k(2) by (intro coalesced_del [OF co] lists_rep_distinct) (auto simp: free_blocks_def)
  from alloc_split_ok [OF buddy_inv_del [OF inv k(2)] this k(1)] obtain fl' where
    fl': "buddy_inv ?t fl' A {(i, order)}" "coalesced fl'" by blast
  have b: "buddy_inv s' fl' (insert (i, order) A) {}"
    unfolding s' using fl'(1) by (rule buddy_inv_hand_out) simp
  have fr: "same_frame s ?t" by (rule same_frame_trans [OF same_frame_del same_frame_alloc_split])
  show "(i, order) \<notin> A" using fl'(1) by (auto simp: buddy_inv_def)
  show r': "same_range s s'" and "ram s' = ram s"
    using fr by (auto simp: s' same_frame_def same_range_def set_order_def)
  show rc: "pg_refcount (mem_map s' j) = (if j = i then 1 else pg_refcount (mem_map s j))" for j
    using fr by (auto simp: s' same_frame_def set_order_def)
  have "\<forall>(j, k) \<in> insert (i, order) A. pg_refcount (mem_map s' j) \<noteq> 0"
    using pi by (auto simp: rc pmm_inv_def split: if_splits)
  moreover have "pmm_geom s'" using g r' by (simp add: pmm_geom_def same_range_def)
  ultimately show "pmm_inv s' (insert (i, order) A)" using b fl'(2) by (auto simp: pmm_inv_def)
qed

lemma alloc_block_disjoint:
  assumes "pmm_inv s A" and "alloc_block order s = (Some i, s')"
  shows "block_ok (unat (nr_pages s)) (i, order)" "\<forall>b \<in> A. pages_of b \<inter> pages_of (i, order) = {}"
proof -
  note r = alloc_block_Some [OF assms]
  show "block_ok (unat (nr_pages s)) (i, order)"
    using pmm_inv_tiling [OF r(1), of "(i, order)"] r(3) by (simp add: same_range_def)
  show "\<forall>b \<in> A. pages_of b \<inter> pages_of (i, order) = {}"
    using pmm_inv_apart [OF r(1)] r(2) by (auto simp: apart_insert)
qed

lemma pmm_inv_ram: "pmm_inv (s\<lparr>ram := m\<rparr>) A \<longleftrightarrow> pmm_inv s A"
  by (simp add: pmm_inv_def pmm_geom_def buddy_inv_ram)

lemma block_bytes: "block_ok (unat (nr_pages s)) (i, k) \<Longrightarrow> pmm_geom s \<Longrightarrow>
    i < unat (nr_pages s) \<and> unat (mem_start s) + 4096 * i + 4096 * 2 ^ k \<le> unat (mem_end s)"
proof -
  assume b: "block_ok (unat (nr_pages s)) (i, k)" and g: "pmm_geom s"
  have "i + 2 ^ k \<le> unat (nr_pages s)" "(0::nat) < 2 ^ k" using b by (auto simp: block_ok_def)
  with g show ?thesis unfolding pmm_geom_def by linarith
qed

lemma block_size_bound: "k < MAX_ORDER \<Longrightarrow> (4096::nat) * 2 ^ k \<le> 2 ^ 32"
proof -
  assume "k < MAX_ORDER"
  then have "(2::nat) ^ k \<le> 2 ^ 10" by (intro power_increasing) (auto simp: MAX_ORDER_def)
  then show ?thesis by simp
qed

lemma page_to_addr_range: "same_range s s' \<Longrightarrow> page_to_addr i s' = page_to_addr i s"
  by (simp add: same_range_def page_to_addr_def)

lemma addr_to_page_range: "same_range s s' \<Longrightarrow> addr_to_page a s' = addr_to_page a s"
  by (simp add: addr_to_page_def same_range_def Let_def)

lemma alloc_pages_Some:
  assumes pi: "pmm_inv s A" and r: "alloc_pages order s = (Some addr, s')"
  obtains i where "addr = page_to_addr i s" "block_ok (unat (nr_pages s)) (i, order)"
    "\<forall>b \<in> A. pages_of b \<inter> pages_of (i, order) = {}" "(i, order) \<notin> A" "pmm_inv s' (insert (i, order) A)"
    "same_range s s'" "\<forall>a. ram s' a = (if unat (a - addr) < 4096 * 2 ^ order then 0 else ram s a)"
    "\<forall>j. pg_refcount (mem_map s' j) = (if j = i then 1 else pg_refcount (mem_map s j))"
proof -
  obtain i t where t: "alloc_block order s = (Some i, t)" and addr: "addr = page_to_addr i t"
    and s': "s' = t\<lparr>ram := memset addr 0 (4096 * 2 ^ order) (ram t)\<rparr>"
    using r by (auto simp: alloc_pages_def Let_def split: prod.splits option.splits)
  note a = alloc_block_Some [OF pi t] and d = alloc_block_disjoint [OF pi t]
  have sz: "(4096::nat) * 2 ^ order \<le> 2 ^ 32" using d(1) by (intro block_size_bound) (simp add: block_ok_def)
  have "\<forall>a. ram s' a = (if unat (a - addr) < 4096 * 2 ^ order then 0 else ram s a)"
    using memset_apply [OF sz, of addr 0 "ram t"] by (simp add: s' a(4))
  moreover have "pmm_inv s' (insert (i, order) A)" using a(1) by (simp add: s' pmm_inv_ram)
  moreover have "same_range s s'" using a(3) by (simp add: s' same_range_def)
  moreover have "\<forall>j. pg_refcount (mem_map s' j) = (if j = i then 1 else pg_refcount (mem_map s j))"
    using a(5) by (simp add: s')
  ultimately show thesis using addr page_to_addr_range [OF a(3)] d a(2) by (intro that) auto
qed

lemma alloc_pages_None:
  assumes pi: "pmm_inv s A" and r: "alloc_pages order s = (None, s')" shows "s' = s"
proof -
  obtain fl where "buddy_inv s fl A {}" using pi by (auto simp: pmm_inv_def)
  then show ?thesis
    by (cases rule: alloc_block_cases [of s fl A order])
      (use r in \<open>auto simp: alloc_pages_def Let_def split: prod.splits\<close>)
qed

section \<open>Releasing blocks and references\<close>

lemma free_one_page_inv:
  assumes pi: "pmm_inv s (insert (i, k) A)" and new: "(i, k) \<notin> A"
  shows "pmm_inv (free_one_page i k (set_refcount i v s)) A"
proof -
  let ?s = "set_refcount i v s"
  obtain fl where inv: "buddy_inv s fl (insert (i, k) A) {}" and co: "coalesced fl" and g: "pmm_geom s"
    using pi by (auto simp: pmm_inv_def)
  have "buddy_inv ?s fl A {(i, k)}"
    using buddy_inv_take_back [OF inv new] by (simp add: buddy_inv_refcount)
  from free_one_page_ok [OF this co] obtain fl' where
    "buddy_inv (free_one_page i k ?s) fl' A {}" "coalesced fl'" by blast
  moreover have fr: "same_frame ?s (free_one_page i k ?s)" by (rule same_frame_free_one_page)
  moreover have "pmm_geom (free_one_page i k ?s)"
    using same_frame_geom [OF fr] g by (simp add: pmm_geom_def)
  moreover have "j \<noteq> i" if "(j, m) \<in> A" for j m
    using inv new that head_unique [of "free_blocks fl \<union> insert (i, k) A" _ i k m]
    by (auto simp: buddy_inv_def)
  then have "\<forall>(j, m) \<in> A. pg_refcount (mem_map (free_one_page i k ?s) j) \<noteq> 0"
    using pi fr by (fastforce simp: same_frame_def pmm_inv_def)
  ultimately show ?thesis by (auto simp: pmm_inv_def)
qed

lemma handed_out_head:
  assumes "pmm_inv s A" and "(i, k) \<in> A"
  shows "addr_to_page (page_to_addr i s) s = Some i" "pg_order (mem_map s i) = PAGE_INUSE"
    "pg_refcount (mem_map s i) \<noteq> 0"
proof -
  have "pmm_geom s" using assms(1) by (simp add: pmm_inv_def)
  moreover have "block_ok (unat (nr_pages s)) (i, k)" using assms by (rule pmm_inv_tiling)
  ultimately show "addr_to_page (page_to_addr i s) s = Some i"
    using block_bytes by (intro addr_to_page_to_addr) auto
  show "pg_order (mem_map s i) = PAGE_INUSE" "pg_refcount (mem_map s i) \<noteq> 0"
    using assms by (auto simp: pmm_inv_def buddy_inv_def labels_def)
qed

lemma free_one_page_frame:
  "same_range s (free_one_page i k (set_refcount i v s))" "ram (free_one_page i k (set_refcount i v s)) = ram s"
  "pg_refcount (mem_map (free_one_page i k (set_refcount i v s)) j) = (if j = i then v else pg_refcount (mem_map s j))"
  using same_frame_free_one_page [of "set_refcount i v s" i k] by (auto simp: same_frame_def same_range_def)

lemma set_refcount_id: "set_refcount i (pg_refcount (mem_map s i)) s = s"
  by (simp add: set_refcount_def)

lemma pmm_inv_set_refcount:
  "pmm_inv s A \<Longrightarrow> v \<noteq> 0 \<Longrightarrow> pmm_inv (set_refcount i v s) A"
  by (auto simp: pmm_inv_def pmm_geom_def buddy_inv_refcount split: if_splits)

lemma put_page_shared:
  assumes "pmm_inv s A" and "(i, k) \<in> A" and "pg_refcount (mem_map s i) \<noteq> 1"
  shows "put_page (page_to_addr i s) s = Inr (set_refcount i (pg_refcount (mem_map s i) - 1) s)"
  using handed_out_head [OF assms(1,2)] assms(3) by (simp add: put_page_def Let_def)

lemma put_page_last:
  assumes "pmm_inv s A" and "(i, k) \<in> A" and "pg_refcount (mem_map s i) = 1"
  shows "put_page (page_to_addr i s) s = Inr (free_one_page i 0 (set_refcount i 0 s))"
  using handed_out_head [OF assms(1,2)] assms(3) by (simp add: put_page_def Let_def)

section \<open>Initialisation\<close>

text \<open>Single pages that together form an aligned block can be taken as that block.\<close>

lemma tiling_join:
  assumes t: "tiling (B \<union> (\<lambda>j. (j, 0)) ` pages_of (i, k)) n" and d: "B \<inter> (\<lambda>j. (j, 0)) ` pages_of (i, k) = {}"
    and al: "2 ^ k dvd i" "k < MAX_ORDER"
  shows "tiling (insert (i, k) B) n \<and> (i, k) \<notin> B"
proof -
  let ?S = "(\<lambda>j. (j, 0)) ` pages_of (i, k)"
  have single: "pages_of (j, 0) = {j}" for j by (auto simp: pages_of_def)
  have dj: "\<forall>c \<in> B. pages_of (i, k) \<inter> pages_of c = {}"
  proof (intro ballI equals0I)
    fix c j assume c: "c \<in> B" and "j \<in> pages_of (i, k) \<inter> pages_of c"
    then have "(j, 0) \<in> ?S" "j \<in> pages_of c" by auto
    moreover have "(j, 0) \<noteq> c" using c d \<open>(j, 0) \<in> ?S\<close> by blast
    ultimately have "pages_of (j, 0) \<inter> pages_of c = {}"
      using t c unfolding tiling_def apart_def by blast
    with \<open>j \<in> pages_of c\<close> single show False by blast
  qed
  have new: "(i, k) \<notin> B" using not_in_if_disjoint [OF dj] by blast
  have "pages_of (i, k) \<subseteq> {..<n}"
    using t unfolding tiling_def by (auto simp: single)
  moreover obtain m where m: "(2::nat) ^ k = Suc m" by (metis not0_implies_Suc power_not_zero zero_neq_numeral)
  moreover have "i + m \<in> pages_of (i, k)" by (simp add: pages_of_def m)
  ultimately have "i + m < n" by blast
  then have "block_ok n (i, k)" using al m by (simp add: block_ok_def)
  moreover have "pages_of (i, k) \<union> \<Union> (pages_of ` B) = {..<n}"
    using t unfolding tiling_def by (auto simp: single)
  moreover have "apart B" "\<forall>b \<in> B. block_ok n b" using t by (auto simp: tiling_def apart_def)
  ultimately show ?thesis using tiling_insert [OF new] dj new by simp
qed

lemma unat_push_bit_1: "m < 32 \<Longrightarrow> unat (push_bit m 1 :: u32) = 2 ^ m"
proof -
  assume m: "m < 32"
  have "(push_bit m 1 :: u32) = of_nat (2 ^ m)" by (simp add: push_bit_eq_mult)
  moreover have "(2::nat) ^ m < 2 ^ 32" using m by (intro power_strict_increasing) auto
  ultimately show ?thesis by (simp only: unat_of_nat) simp
qed

lemma and_low_bits: "(x AND (push_bit m 1 - 1) :: u32) = 0 \<longleftrightarrow> 2 ^ m dvd unat x"
proof -
  have "push_bit m 1 - 1 = (mask m :: u32)" by (simp add: mask_eq_exp_minus_1 push_bit_eq_mult)
  then show ?thesis
    using unat_and_mask [of x m] by (auto simp: mod_eq_0_iff_dvd [symmetric] unat_eq_0 [symmetric])
qed

lemma init_order_ok:
  assumes "order < MAX_ORDER" and "2 ^ order dvd unat idx" and "2 ^ order \<le> unat left"
  shows "init_order idx left order < MAX_ORDER \<and> 2 ^ init_order idx left order dvd unat idx
    \<and> 2 ^ init_order idx left order \<le> unat left"
  using assms
proof (induction idx left order rule: init_order.induct)
  case (1 idx left order)
  show ?case
  proof (cases "order + 1 < MAX_ORDER \<and> idx AND (push_bit (order + 1) 1 - 1) = 0 \<and> push_bit (order + 1) 1 \<le> left")
    case True
    then have "2 ^ (order + 1) dvd unat idx" "2 ^ (order + 1) \<le> unat left"
      using unat_push_bit_1 [of "order + 1"]
      by (simp_all only: and_low_bits word_le_nat_alt) (auto simp: MAX_ORDER_def)
    with "1.IH" True show ?thesis by (subst (1 2 3) init_order.simps) simp
  next
    case False
    with "1.prems" show ?thesis by (subst (1 2 3) init_order.simps) (simp only: if_False)
  qed
qed

lemma addr_to_page_phys:
  assumes g: "pmm_geom s" and a: "unat addr = unat (mem_start s) + 4096 * c" and c: "c < unat (nr_pages s)"
  shows "addr_to_page addr s = Some c"
proof -
  have "addr < KERNBASE"
    using g a c by (simp add: pmm_geom_def word_le_nat_alt word_less_nat_alt PHYSMEM_TOP_MAX_def KERNBASE_def)
  moreover have "unat (V2P (page_to_addr c s)) = unat addr" using V2P_page_to_addr(1) [OF g c] a by simp
  then have "V2P (page_to_addr c s) = addr" by (rule unsigned_word_eqI)
  ultimately show ?thesis
    using addr_to_page_to_addr [OF g c] V2P_page_to_addr(2) [OF g c]
    by (simp add: addr_to_page_def not_le [symmetric])
qed

abbreviation single_pages :: "nat \<Rightarrow> nat \<Rightarrow> block set" where
  "single_pages c n \<equiv> (\<lambda>j. (j, 0)) ` {c..<n}"

lemma buddy_inv_join:
  assumes inv: "buddy_inv s fl (single_pages c n) {}" and k: "2 ^ k dvd c" "k < MAX_ORDER" "c + 2 ^ k \<le> n"
  shows "buddy_inv s fl (single_pages (c + 2 ^ k) n) {(c, k)}"
proof -
  let ?B = "free_blocks fl \<union> single_pages (c + 2 ^ k) n" and ?S = "(\<lambda>j. (j, 0)) ` pages_of (c, k)"
  have sp: "single_pages c n = single_pages (c + 2 ^ k) n \<union> ?S"
    unfolding image_Un [symmetric] using k(3) by (intro arg_cong2 [of _ _ _ _ image]) (auto simp: pages_of_def)
  have d: "?B \<inter> ?S = {}" using inv by (auto simp: buddy_inv_def sp pages_of_def)
  have t: "tiling (?B \<union> ?S) (unat (nr_pages s))"
    using inv by (simp add: buddy_inv_def sp Un_assoc)
  have "tiling (insert (c, k) ?B) (unat (nr_pages s)) \<and> (c, k) \<notin> ?B"
    using t d k(1,2) by (rule tiling_join)
  moreover have "labels s fl (single_pages (c + 2 ^ k) n)"
    using inv by (auto simp: buddy_inv_def labels_def sp)
  ultimately show ?thesis using inv by (auto simp: buddy_inv_def sp)
qed

lemma pmm_release_loop_ok:
  assumes "pmm_geom s" and "buddy_inv s fl (single_pages c (unat (nr_pages s))) {}" and "coalesced fl"
    and "unat addr = unat (mem_start s) + 4096 * c" and "c \<le> unat (nr_pages s)"
    and "unat (nr_pages s) - c < fuel"
  shows "\<exists>s' fl'. pmm_release_loop fuel addr s = Some s' \<and> buddy_inv s' fl' {} {} \<and> coalesced fl' \<and> same_frame s s'"
  using assms
proof (induction fuel arbitrary: addr s fl c)
  case (Suc fuel)
  let ?n = "unat (nr_pages s)"
  note prems = Suc.prems
  have lt: "addr < mem_end s \<longleftrightarrow> c < ?n"
    using prems(1,4) by (auto simp: word_less_nat_alt pmm_geom_def)
  show ?case
  proof (cases "c < ?n")
    case False
    with prems have "buddy_inv s fl {} {}" by simp
    with prems lt False show ?thesis by auto
  next
    case True
    define k where "k = init_order ((addr - mem_start s) div PGSIZE) ((mem_end s - addr) div PGSIZE) 0"
    have le: "mem_start s \<le> addr" "addr \<le> mem_end s"
      using prems(1,4) True by (auto simp: word_le_nat_alt pmm_geom_def)
    have idx: "unat ((addr - mem_start s) div PGSIZE) = c"
      using le(1) prems(4) by (simp add: unat_div_PGSIZE unat_sub)
    have "unat (mem_end s) - unat addr = 4096 * (?n - c)" using prems(1,4) by (auto simp: pmm_geom_def)
    then have left: "unat ((mem_end s - addr) div PGSIZE) = ?n - c"
      using le(2) by (simp add: unat_div_PGSIZE unat_sub)
    have k': "k < MAX_ORDER" "2 ^ k dvd c" "2 ^ k \<le> ?n - c"
      using init_order_ok [of 0 "(addr - mem_start s) div PGSIZE" "(mem_end s - addr) div PGSIZE"] True
      by (auto simp: k_def [symmetric] idx left MAX_ORDER_def)
    then have k: "k < MAX_ORDER" "2 ^ k dvd c" "c + 2 ^ k \<le> ?n" using True by linarith+
    let ?s = "free_one_page c k s"
    have "buddy_inv s fl (single_pages (c + 2 ^ k) ?n) {(c, k)}"
      using prems(2) k by (intro buddy_inv_join) auto
    from free_one_page_ok [OF this prems(3)] obtain fl' where
      fl': "buddy_inv ?s fl' (single_pages (c + 2 ^ k) ?n) {}" "coalesced fl'" by blast
    have fr: "same_frame s ?s" by (rule same_frame_free_one_page)
    then have eq: "nr_pages ?s = nr_pages s" "mem_start ?s = mem_start s" by (auto simp: same_frame_def)
    have "unat (push_bit k PGSIZE) = 4096 * 2 ^ k"
    proof -
      have "(4096::nat) * 2 ^ k < 2 ^ 32"
        using k(1) power_strict_increasing [of k 11 "2::nat"] by (simp add: MAX_ORDER_def)
      moreover have "push_bit k PGSIZE = of_nat (4096 * 2 ^ k)" by (simp add: push_bit_eq_mult PGSIZE_def)
      ultimately show ?thesis by (simp only: unat_of_nat) simp
    qed
    then have a: "unat (addr + push_bit k PGSIZE) = unat (mem_start s) + 4096 * (c + 2 ^ k)"
      using k(3) True prems(1,4) by (simp add: unat_word_ariths pmm_geom_def word_le_nat_alt PHYSMEM_TOP_MAX_def)
    have "(0::nat) < 2 ^ k" by simp
    then have fuel: "?n - (c + 2 ^ k) < fuel" using prems(6) True k(3) by linarith
    have "\<exists>s' fl''. pmm_release_loop fuel (addr + push_bit k PGSIZE) ?s = Some s' \<and> buddy_inv s' fl'' {} {}
        \<and> coalesced fl'' \<and> same_frame ?s s'"
      using fl' a k(3) fuel prems(1) same_frame_geom [OF fr]
      by (intro Suc.IH [of ?s fl' "c + 2 ^ k"]) (auto simp: eq)
    with fr True lt addr_to_page_phys [OF prems(1,4) True] show ?thesis
      by (auto simp: k_def [symmetric] Let_def intro: same_frame_trans)
  qed
qed simp

lemma fold_INIT_LIST_HEAD:
  "nxt (fold (\<lambda>i. INIT_LIST_HEAD (f i)) xs l) n = (if n \<in> f ` set xs then n else nxt l n)"
  "prv (fold (\<lambda>i. INIT_LIST_HEAD (f i)) xs l) n = (if n \<in> f ` set xs then n else prv l n)"
  by (induction xs arbitrary: l) (auto simp: INIT_LIST_HEAD_def link_defs)

lemma tiling_single_pages: "tiling (single_pages 0 n) n"
  by (auto simp: tiling_def block_ok_def apart_def pages_of_def MAX_ORDER_def)

lemma init_inv:
  assumes "\<And>k. k < MAX_ORDER \<Longrightarrow> unlinked (links s) (FreeHead k)" and "\<And>i. i < unat (nr_pages s) \<Longrightarrow> pg_order (mem_map s i) = PAGE_INUSE"
    and "\<And>k. area_nr_free s k = 0" and "nr_free s = 0"
  shows "buddy_inv s (\<lambda>_. []) (single_pages 0 (unat (nr_pages s))) {} \<and> coalesced (\<lambda>_. [])"
proof -
  have [simp]: "free_blocks (\<lambda>_. []) = {}" by (simp add: free_blocks_def)
  show ?thesis using assms tiling_single_pages
    by (auto simp: buddy_inv_def lists_rep_def dlist_def unlinked_def labels_def counts_def free_total_def coalesced_def)
qed

lemma pmm_init_range:
  assumes base: "unat b mod 4096 = 0" "b < ptop" and tp: "unat ptop mod 4096 = 0" "unat ptop \<le> 0x38000000"
    and mb: "mb = PGROUNDUP (((ptop - b) div PGSIZE) * sizeof_page)" and fits: "b + mb < ptop"
  shows "unat (b + mb) mod 4096 = 0" "unat (b + mb) + 4096 * unat ((ptop - (b + mb)) div PGSIZE) = unat ptop"
proof -
  have lt: "unat b < unat ptop" using base(2) by (simp add: word_less_nat_alt)
  have e: "unat ((ptop - b) div PGSIZE) = (unat ptop - unat b) div 4096"
    using lt by (simp add: unat_div_PGSIZE unat_sub word_le_nat_alt)
  have q: "(unat ptop - unat b) div 4096 \<le> 0x38000" using tp(2) by (simp add: div_le_mono [of _ "0x38000000", simplified])
  then have "unat (((ptop - b) div PGSIZE) * sizeof_page) = (unat ptop - unat b) div 4096 * 16"
    by (simp add: unat_word_ariths(2) sizeof_page_def e)
  then have m: "unat mb \<le> 0x390000" using q by (simp add: mb unat_PGROUNDUP)
  have s: "unat (b + mb) = unat b + unat mb" using m lt tp(2) by (simp add: unat_word_ariths)
  have "unat mb mod 4096 = 0" by (simp add: mb PGROUNDUP_aligned)
  then show al: "unat (b + mb) mod 4096 = 0"
    using base(1) by (simp add: s mod_eq_0_iff_dvd)
  have "unat (b + mb) < unat ptop" using fits by (simp add: word_less_nat_alt)
  then show "unat (b + mb) + 4096 * unat ((ptop - (b + mb)) div PGSIZE) = unat ptop"
    using al tp(1) by (simp add: unat_div_PGSIZE unat_sub word_le_nat_alt mod_eq_0_iff_dvd dvd_diff_nat)
qed

lemma pmm_init_inv:
  assumes tp: "unat ptop mod 4096 = 0" "unat ptop \<le> 0x38000000" and r: "pmm_init kend ptop l0 m = Inr r"
  shows "\<exists>s. r = Some s \<and> pmm_inv s {} \<and> mem_end s = ptop \<and> nr_pages s \<noteq> 0
    \<and> mem_start s = PGROUNDUP (V2P kend) + PGROUNDUP (((ptop - PGROUNDUP (V2P kend)) div PGSIZE) * sizeof_page)
    \<and> PGROUNDUP (V2P kend) < ptop"
proof -
  define b where "b = PGROUNDUP (V2P kend)"
  define mb where "mb = PGROUNDUP (((ptop - b) div PGSIZE) * sizeof_page)"
  define n where "n = (ptop - (b + mb)) div PGSIZE"
  define s where "s = \<lparr>mem_map = (\<lambda>i. \<lparr>pg_order = (if i < unat n then PAGE_INUSE else 0), pg_refcount = 0\<rparr>),
      links = fold (\<lambda>i. INIT_LIST_HEAD (PageNode i)) [0..<unat n]
        (fold (\<lambda>i. INIT_LIST_HEAD (FreeHead i)) [0..<MAX_ORDER] l0),
      area_nr_free = (\<lambda>_. 0), mem_start = b + mb, mem_end = ptop, nr_pages = n, nr_free = 0,
      ram = memset (P2V b) 0 (unat mb) m\<rparr>"
  have fit: "b < ptop" "b + mb < ptop" "n \<noteq> 0" and r': "r = pmm_release_loop (Suc (unat n)) (b + mb) s"
    using r unfolding pmm_init_def Let_def b_def [symmetric] mb_def [symmetric] n_def [symmetric] s_def [symmetric]
    by (auto split: if_splits)
  have "unat b mod 4096 = 0" by (simp add: b_def PGROUNDUP_aligned)
  note g = pmm_init_range [OF this fit(1) tp mb_def fit(2)]
  then have geom: "pmm_geom s"
    using tp by (simp add: pmm_geom_def s_def n_def PHYSMEM_TOP_MAX_def word_le_nat_alt)
  have inv: "buddy_inv s (\<lambda>_. []) (single_pages 0 (unat (nr_pages s))) {} \<and> coalesced (\<lambda>_. [])"
    by (rule init_inv) (auto simp: s_def unlinked_def fold_INIT_LIST_HEAD)
  have "\<exists>s' fl. pmm_release_loop (Suc (unat n)) (b + mb) s = Some s' \<and> buddy_inv s' fl {} {} \<and> coalesced fl \<and> same_frame s s'"
    using inv by (intro pmm_release_loop_ok [OF geom]) (auto simp: s_def)
  then obtain s' fl where s': "r = Some s'" "buddy_inv s' fl {} {}" "coalesced fl" "same_frame s s'"
    using r' by auto
  then have "pmm_inv s' {}" using geom by (auto simp: pmm_inv_def same_frame_geom)
  with s' fit(1,3) show ?thesis by (auto simp: same_frame_def s_def b_def mb_def)
qed

text \<open>The pool starts after the kernel image and after the descriptors of all its pages.\<close>

lemma pmm_init_pool:
  assumes "unat ptop mod 4096 = 0" and "ptop \<le> PHYSMEM_TOP_MAX" and "KERNBASE \<le> kend"
    and "pmm_init kend ptop l0 m = Inr r"
  shows "\<exists>s. r = Some s \<and> pmm_inv s {} \<and> mem_end s = ptop \<and> 0 < unat (pmm_nr_pages s)
    \<and> pmm_nr_free_pages s = pmm_nr_pages s
    \<and> unat (V2P kend) + unat sizeof_page * unat (pmm_nr_pages s) \<le> unat (mem_start s)"
proof -
  define b where "b = PGROUNDUP (V2P kend)"
  have tp: "unat ptop \<le> 0x38000000" using assms(2) by (simp add: PHYSMEM_TOP_MAX_def word_le_nat_alt)
  obtain s where s: "r = Some s" "pmm_inv s {}" "mem_end s = ptop" "nr_pages s \<noteq> 0"
    "mem_start s = b + PGROUNDUP (((ptop - b) div PGSIZE) * sizeof_page)" "b < ptop"
    using pmm_init_inv [OF assms(1) tp assms(4)] by (auto simp: b_def)
  have "unat (V2P kend) < 0x40000000"
    using assms(3) unat_u32 [of kend] by (simp add: V2P_def unat_sub KERNBASE_def word_le_nat_alt)
  then have "unat (V2P kend) \<le> unat b" by (simp add: b_def unat_PGROUNDUP)
  moreover define q where "q = (unat ptop - unat b) div 4096"
  have "unat b < unat ptop" using s(6) by (simp add: word_less_nat_alt)
  then have q: "unat ((ptop - b) div PGSIZE) = q" "q \<le> 0x38000"
    using tp by (auto simp: q_def unat_div_PGSIZE unat_sub word_le_nat_alt)
  have "unat (((ptop - b) div PGSIZE) * sizeof_page) = 16 * q"
    using q by (simp add: unat_word_ariths(2) sizeof_page_def)
  then have mb: "16 * q \<le> unat (PGROUNDUP (((ptop - b) div PGSIZE) * sizeof_page))"
      "unat (PGROUNDUP (((ptop - b) div PGSIZE) * sizeof_page)) \<le> 0x390000"
    using q(2) by (auto simp: unat_PGROUNDUP)
  have ms: "unat (mem_start s) = unat b + unat (PGROUNDUP (((ptop - b) div PGSIZE) * sizeof_page))"
    using mb(2) tp \<open>unat b < unat ptop\<close> by (simp add: s(5) unat_word_ariths(1))
  have "unat (mem_start s) + 4096 * unat (nr_pages s) = unat ptop"
    using s(2,3) by (simp add: pmm_inv_def pmm_geom_def)
  then have "unat (nr_pages s) \<le> q" using ms by (simp add: q_def)
  moreover have "nr_free s = nr_pages s"
    using pmm_inv_accounting [OF s(2)] by (intro unsigned_word_eqI) simp
  ultimately show ?thesis using s ms mb(1)
    by (auto simp: pmm_nr_pages_def pmm_nr_free_pages_def sizeof_page_def unat_gt_0)
qed

section \<open>The interface of the page allocator\<close>

text \<open>
  A client holds blocks, named by the address it was given and the order it asked for. \<open>owns s B\<close>:
  in the state \<open>s\<close> the blocks \<open>B\<close> belong to the client, each with a single reference.
\<close>

definition block_addrs :: "u32 \<times> nat \<Rightarrow> u32 set" where
  "block_addrs b = {x. unat (x - fst b) < 4096 * 2 ^ snd b}"

datatype preq = PAlloc nat | PFree nat

text \<open>A client that allocates and frees: \<open>PFree j\<close> gives back the \<open>j\<close>-th block it holds.\<close>

fun prun :: "(nat \<Rightarrow> 's \<Rightarrow> u32 option \<times> 's) \<Rightarrow> (u32 \<Rightarrow> nat \<Rightarrow> 's \<Rightarrow> 's kres) \<Rightarrow> preq list
    \<Rightarrow> 's \<Rightarrow> (u32 \<times> nat) list \<Rightarrow> ('s \<times> (u32 \<times> nat) list) kres" where
  "prun al fr [] s bs = Inr (s, bs)"
| "prun al fr (PAlloc k # rs) s bs =
     (case al k s of (None, s') \<Rightarrow> prun al fr rs s' bs | (Some a, s') \<Rightarrow> prun al fr rs s' ((a, k) # bs))"
| "prun al fr (PFree j # rs) s bs =
     (if j < length bs then
        (case fr (fst (bs ! j)) (snd (bs ! j)) s of
           Inl e \<Rightarrow> Inl e | Inr s' \<Rightarrow> prun al fr rs s' (take j bs @ drop (Suc j) bs))
      else prun al fr rs s bs)"

locale page_allocator =
  fixes owns :: "'s \<Rightarrow> (u32 \<times> nat) set \<Rightarrow> bool"
    and al :: "nat \<Rightarrow> 's \<Rightarrow> u32 option \<times> 's"
    and fr :: "u32 \<Rightarrow> nat \<Rightarrow> 's \<Rightarrow> 's kres"
    and bytes :: "'s \<Rightarrow> u32 \<Rightarrow> u8"
  assumes owns_disjoint: "owns s B \<Longrightarrow> b \<in> B \<Longrightarrow> c \<in> B \<Longrightarrow> b \<noteq> c \<Longrightarrow> block_addrs b \<inter> block_addrs c = {}"
    and owns_alloc: "owns s B \<Longrightarrow> al k s = (Some a, s') \<Longrightarrow>
      (a, k) \<notin> B \<and> owns s' (insert (a, k) B) \<and> (\<forall>x. bytes s' x = (if x \<in> block_addrs (a, k) then 0 else bytes s x))"
    and owns_alloc_fails: "owns s B \<Longrightarrow> al k s = (None, s') \<Longrightarrow> s' = s"
    and owns_free: "owns s B \<Longrightarrow> (a, k) \<in> B \<Longrightarrow>
      \<exists>s'. fr a k s = Inr s' \<and> owns s' (B - {(a, k)}) \<and> bytes s' = bytes s"
begin

lemma alloc_keeps_bytes:
  assumes "owns s B" and "al k s = (Some a, s')" and "b \<in> B" and "x \<in> block_addrs b"
  shows "bytes s' x = bytes s x"
proof -
  note r = owns_alloc [OF assms(1,2)]
  then have "owns s' (insert (a, k) B)" "b \<noteq> (a, k)" using assms(3) by auto
  then have "block_addrs b \<inter> block_addrs (a, k) = {}" using assms(3) by (intro owns_disjoint [of s' "insert (a, k) B"]) auto
  with r assms(4) show ?thesis by auto
qed

lemma set_take_drop: "distinct bs \<Longrightarrow> j < length bs \<Longrightarrow> set (take j bs @ drop (Suc j) bs) = set bs - {bs ! j}"
  using id_take_nth_drop [of j bs] by (metis Diff_insert_absorb Un_iff distinct.simps(2) distinct_append
      insert_Diff1 insert_iff list.simps(15) set_append disjoint_insert(1) Un_insert_right)

lemma prun_safe:
  assumes "owns s (set bs)" and "distinct bs"
  shows "\<exists>s' bs'. prun al fr rs s bs = Inr (s', bs') \<and> owns s' (set bs') \<and> distinct bs'"
  using assms
proof (induction rs arbitrary: s bs)
  case (Cons r rs)
  show ?case
  proof (cases r)
    case (PAlloc k)
    show ?thesis
    proof (cases "al k s")
      case (Pair o' s')
      show ?thesis
      proof (cases o')
        case None
        with Pair have "s' = s" using owns_alloc_fails [OF Cons.prems(1)] by simp
        with None Pair PAlloc Cons show ?thesis by simp
      next
        case (Some a)
        with Pair owns_alloc [OF Cons.prems(1), of k a s'] Cons.prems(2) PAlloc show ?thesis
          using Cons.IH [of s' "(a, k) # bs"] by simp
      qed
    qed
  next
    case (PFree j)
    show ?thesis
    proof (cases "j < length bs")
      case True
      then have "(fst (bs ! j), snd (bs ! j)) \<in> set bs" by simp
      from owns_free [OF Cons.prems(1) this] obtain s' where s': "fr (fst (bs ! j)) (snd (bs ! j)) s = Inr s'"
        "owns s' (set bs - {bs ! j})" by auto
      have "distinct (take j bs @ drop (Suc j) bs)"
        using Cons.prems(2) by (simp add: set_take_disj_set_drop_if_distinct)
      with s' True PFree Cons.IH [of s' "take j bs @ drop (Suc j) bs"] set_take_drop [OF Cons.prems(2) True]
      show ?thesis by simp
    next
      case False
      with Cons PFree show ?thesis by simp
    qed
  qed
qed simp

end

text \<open>The buddy allocator provides the interface.\<close>

definition pmm_owns :: "pmm \<Rightarrow> (u32 \<times> nat) set \<Rightarrow> bool" where
  "pmm_owns s B \<longleftrightarrow>
     (\<exists>A. pmm_inv s A \<and> (\<forall>(a, k) \<in> B. \<exists>i. a = page_to_addr i s \<and> (i, k) \<in> A \<and> pg_refcount (mem_map s i) = 1))"

lemma unat_diff_less_iff:
  fixes a x :: u32
  assumes "unat a + l \<le> 2 ^ 32"
  shows "unat (x - a) < l \<longleftrightarrow> unat a \<le> unat x \<and> unat x < unat a + l"
proof (cases "a \<le> x")
  case True
  then show ?thesis by (auto simp: unat_sub word_le_nat_alt)
next
  case False
  then have lt: "unat x < unat a" by (simp add: word_le_nat_alt)
  have "unat (x - a) = 2 ^ 32 + unat x - unat a"
    using lt unat_sub_if_size [of x a] by (simp add: word_size)
  with lt assms show ?thesis by simp
qed

lemma block_addrs_iff:
  assumes "pmm_inv s A" and "(i, k) \<in> A"
  shows "x \<in> block_addrs (page_to_addr i s, k) \<longleftrightarrow>
    0xC0000000 + unat (mem_start s) + 4096 * i \<le> unat x
    \<and> unat x < 0xC0000000 + unat (mem_start s) + 4096 * (i + 2 ^ k)"
proof -
  have g: "pmm_geom s" using assms(1) by (simp add: pmm_inv_def)
  note b = block_bytes [OF pmm_inv_tiling [OF assms] g]
  then have u: "unat (page_to_addr i s) = 0xC0000000 + unat (mem_start s) + 4096 * i"
    using unat_page_to_addr [OF g] by simp
  have "unat (page_to_addr i s) + 4096 * 2 ^ k \<le> 2 ^ 32"
    using b g by (simp add: u pmm_geom_def PHYSMEM_TOP_MAX_def word_le_nat_alt)
  from unat_diff_less_iff [OF this] show ?thesis by (simp add: block_addrs_def u distrib_left add.assoc)
qed

lemma block_addrs_disjoint:
  assumes inv: "pmm_inv s A" and b: "(i, k) \<in> A" and c: "(j, m) \<in> A" and ne: "(i, k) \<noteq> (j, m)"
  shows "block_addrs (page_to_addr i s, k) \<inter> block_addrs (page_to_addr j s, m) = {}"
proof (intro equals0I)
  fix x assume x: "x \<in> block_addrs (page_to_addr i s, k) \<inter> block_addrs (page_to_addr j s, m)"
  define p where "p = (unat x - (0xC0000000 + unat (mem_start s))) div 4096"
  have "p \<in> pages_of (i', k')" if "(i', k') \<in> A" "x \<in> block_addrs (page_to_addr i' s, k')" for i' k'
    using that(2) block_addrs_iff [OF inv that(1)] by (auto simp: pages_of_def p_def)
  with x b c have "p \<in> pages_of (i, k) \<inter> pages_of (j, m)" by blast
  with pmm_inv_apart [OF inv] b c ne show False unfolding apart_def by blast
qed

lemma handed_out_unique:
  assumes "pmm_inv s A" and "(i, k) \<in> A" and "(i, m) \<in> A" shows "k = m"
  using pmm_inv_apart [OF assms(1)] assms(2,3) fst_in_pages_of unfolding apart_def by blast

lemma page_to_addr_inj:
  assumes g: "pmm_geom s" and "i < unat (nr_pages s)" and "j < unat (nr_pages s)"
    and "page_to_addr i s = page_to_addr j s"
  shows "i = j"
  using addr_to_page_to_addr [OF g assms(2)] addr_to_page_to_addr [OF g assms(3)] assms(4) by (metis option.inject)

lemma free_pages_sole:
  assumes inv: "pmm_inv s A" and b: "(i, k) \<in> A" and one: "pg_refcount (mem_map s i) = 1"
  shows "\<exists>v. free_pages (page_to_addr i s) k s = Inr (free_one_page i k (set_refcount i v s))"
proof (cases "k = 0")
  case True
  with put_page_last [OF inv b one] show ?thesis by (auto simp: free_pages_def MAX_ORDER_def)
next
  case False
  have "k < MAX_ORDER" using pmm_inv_tiling [OF inv b] by (simp add: block_ok_def)
  with False handed_out_head(1) [OF inv b] show ?thesis
    using set_refcount_id [of i s] by (auto simp: free_pages_def not_le intro: exI [of _ "pg_refcount (mem_map s i)"])
qed

lemma pmm_owns_alloc:
  assumes own: "pmm_owns s B" and r: "alloc_pages k s = (Some a, s')"
  shows "(a, k) \<notin> B \<and> pmm_owns s' (insert (a, k) B)
    \<and> (\<forall>x. ram s' x = (if x \<in> block_addrs (a, k) then 0 else ram s x))"
proof -
  obtain A where inv: "pmm_inv s A"
    and B: "\<forall>(a, k) \<in> B. \<exists>i. a = page_to_addr i s \<and> (i, k) \<in> A \<and> pg_refcount (mem_map s i) = 1"
    using own by (auto simp: pmm_owns_def)
  obtain i where i: "a = page_to_addr i s" "block_ok (unat (nr_pages s)) (i, k)"
    "\<forall>b \<in> A. pages_of b \<inter> pages_of (i, k) = {}" "(i, k) \<notin> A" "pmm_inv s' (insert (i, k) A)" "same_range s s'"
    "\<forall>x. ram s' x = (if unat (x - a) < 4096 * 2 ^ k then 0 else ram s x)"
    "\<forall>j. pg_refcount (mem_map s' j) = (if j = i then 1 else pg_refcount (mem_map s j))"
    by (rule alloc_pages_Some [OF inv r])
  have g: "pmm_geom s" using inv by (simp add: pmm_inv_def)
  have "(a, k) \<notin> B"
  proof
    assume "(a, k) \<in> B"
    then obtain j where j: "a = page_to_addr j s" "(j, k) \<in> A" using B by auto
    have "j = i" using i(1,2) j block_bytes [OF _ g] pmm_inv_tiling [OF inv j(2)]
      by (intro page_to_addr_inj [OF g]) auto
    with i(4) j(2) show False by simp
  qed
  moreover have "pmm_owns s' (insert (a, k) B)"
    unfolding pmm_owns_def
  proof (intro exI [of _ "insert (i, k) A"] conjI i(5) ballI, clarify)
    fix c m assume "(c, m) \<in> insert (a, k) B"
    then consider "c = a \<and> m = k" | j where "c = page_to_addr j s" "(j, m) \<in> A" "pg_refcount (mem_map s j) = 1"
      using B by auto
    then show "\<exists>j. c = page_to_addr j s' \<and> (j, m) \<in> insert (i, k) A \<and> pg_refcount (mem_map s' j) = 1"
    proof cases
      case 1
      with i(1,8) page_to_addr_range [OF i(6)] show ?thesis by (intro exI [of _ i]) simp
    next
      case (2 j)
      with i(8) page_to_addr_range [OF i(6)] show ?thesis by (intro exI [of _ j]) simp
    qed
  qed
  ultimately show ?thesis using i(7) by (auto simp: block_addrs_def)
qed

lemma pmm_owns_free:
  assumes own: "pmm_owns s B" and b: "(a, k) \<in> B"
  shows "\<exists>s'. free_pages a k s = Inr s' \<and> pmm_owns s' (B - {(a, k)}) \<and> ram s' = ram s"
proof -
  obtain A where inv: "pmm_inv s A"
    and B: "\<forall>(a, k) \<in> B. \<exists>i. a = page_to_addr i s \<and> (i, k) \<in> A \<and> pg_refcount (mem_map s i) = 1"
    using own by (auto simp: pmm_owns_def)
  obtain i where i: "a = page_to_addr i s" "(i, k) \<in> A" "pg_refcount (mem_map s i) = 1" using B b by auto
  from free_pages_sole [OF inv i(2,3)] obtain v where v: "free_pages a k s = Inr (free_one_page i k (set_refcount i v s))"
    using i(1) by auto
  let ?s = "free_one_page i k (set_refcount i v s)"
  have inv': "pmm_inv ?s (A - {(i, k)})"
    using inv i(2) by (intro free_one_page_inv) (auto simp: insert_absorb)
  have own': "\<exists>j. c = page_to_addr j ?s \<and> (j, m) \<in> A - {(i, k)} \<and> pg_refcount (mem_map ?s j) = 1"
    if cm: "(c, m) \<in> B" "(c, m) \<noteq> (a, k)" for c m
  proof -
    obtain j where j: "c = page_to_addr j s" "(j, m) \<in> A" "pg_refcount (mem_map s j) = 1" using B cm by auto
    have "j \<noteq> i" using handed_out_unique [OF inv i(2), of m] j i cm(2) by auto
    with j show ?thesis
      using page_to_addr_range [OF free_one_page_frame(1)] by (intro exI [of _ j]) (auto simp: free_one_page_frame(3))
  qed
  have "pmm_owns ?s (B - {(a, k)})"
    unfolding pmm_owns_def
  proof (intro exI conjI ballI)
    fix b assume "b \<in> B - {(a, k)}"
    then show "case b of (c, m) \<Rightarrow> \<exists>j. c = page_to_addr j ?s \<and> (j, m) \<in> A - {(i, k)} \<and> pg_refcount (mem_map ?s j) = 1"
      by (cases b, simp only: prod.case, intro own') auto
  qed (rule inv')
  with v free_one_page_frame(2) show ?thesis by auto
qed

interpretation pages: page_allocator pmm_owns alloc_pages free_pages ram
proof unfold_locales
  show "block_addrs b \<inter> block_addrs c = {}" if o: "pmm_owns s B" "b \<in> B" "c \<in> B" "b \<noteq> c" for s B b c
  proof -
    obtain A where inv: "pmm_inv s A"
      and B: "\<forall>(a, k) \<in> B. \<exists>i. a = page_to_addr i s \<and> (i, k) \<in> A \<and> pg_refcount (mem_map s i) = 1"
      using o(1) by (auto simp: pmm_owns_def)
    have e: "\<exists>i. fst d = page_to_addr i s \<and> (i, snd d) \<in> A" if "d \<in> B" for d
      using bspec [OF B that] by (cases d) auto
    obtain i j where "fst b = page_to_addr i s" "(i, snd b) \<in> A" "fst c = page_to_addr j s" "(j, snd c) \<in> A"
      using e [OF o(2)] e [OF o(3)] by blast
    then show ?thesis using block_addrs_disjoint [OF inv, of i "snd b" j "snd c"] o(4)
      by (cases b; cases c) auto
  qed
  show "s' = s" if "pmm_owns s B" "alloc_pages k s = (None, s')" for s B k s'
    using that alloc_pages_None by (auto simp: pmm_owns_def)
qed (use pmm_owns_alloc pmm_owns_free in blast)+

section \<open>Properties\<close>

lemma alloc_block_complete:
  assumes inv: "pmm_inv s A" and k: "order < MAX_ORDER"
    and run: "block_ok (unat (nr_pages s)) (i, order)" "\<forall>b \<in> A. pages_of b \<inter> pages_of (i, order) = {}"
  shows "\<exists>a s'. alloc_pages order s = (Some a, s')"
proof -
  obtain fl where fl: "buddy_inv s fl A {}" "coalesced fl" using inv by (auto simp: pmm_inv_def)
  from free_run_in_block [OF fl run] obtain j m where "(j, m) \<in> free_blocks fl" "order \<le> m" by blast
  then show ?thesis using k
    by (cases rule: alloc_block_cases [OF fl(1), of order]) (auto simp: alloc_pages_def Let_def)
qed

text \<open>A machine with 64 KiB above a kernel that ends at 1 MiB: 15 pages are managed.\<close>

definition demo_pmm :: pmm where
  "demo_pmm = the (projr (pmm_init 0xC0100000 0x110000 \<lparr>nxt = id, prv = id\<rparr> (\<lambda>_. 0)))"

lemma demo_pmm:
  shows "pmm_init 0xC0100000 0x110000 \<lparr>nxt = id, prv = id\<rparr> (\<lambda>_. 0) = Inr (Some demo_pmm)"
    and "pmm_inv demo_pmm {}" and "unat (nr_pages demo_pmm) = 15"
proof -
  let ?r = "pmm_init 0xC0100000 0x110000 \<lparr>nxt = id, prv = id\<rparr> (\<lambda>_. 0)"
  note defs = V2P_def KERNBASE_def PGROUNDUP_def PGSIZE_def sizeof_page_def
  have "\<exists>r. ?r = Inr r" by (simp add: pmm_init_def Let_def defs)
  then obtain r where r: "?r = Inr r" by blast
  have "\<exists>s. r = Some s \<and> pmm_inv s {} \<and> mem_end s = 0x110000 \<and> mem_start s = 0x101000"
    using pmm_init_inv [OF _ _ r] by (auto simp: defs)
  then obtain s where s: "r = Some s" "pmm_inv s {}" "mem_end s = 0x110000" "mem_start s = 0x101000" by blast
  with r have d: "demo_pmm = s" by (simp add: demo_pmm_def)
  with r s show "?r = Inr (Some demo_pmm)" "pmm_inv demo_pmm {}" by simp_all
  have "unat (mem_start s) + 4096 * unat (nr_pages s) = unat (mem_end s)"
    using s(2) by (simp add: pmm_inv_def pmm_geom_def)
  then show "unat (nr_pages demo_pmm) = 15" by (simp add: s(3,4) d)
qed

lemma demo_alloc: "\<exists>a s'. alloc_pages 2 demo_pmm = (Some a, s')"
  by (rule alloc_block_complete [OF demo_pmm(2), of _ 0]) (simp_all add: demo_pmm(3) block_ok_def MAX_ORDER_def)

text \<open>C6: an allocation that succeeds returns the address of an aligned block of \<open>2^order\<close> pages inside
  the managed range that shares no page with any block handed out before. Afterwards the block is
  handed out with one reference, its bytes are zero and no other byte has changed, the number of
  free pages is down by \<open>2^order\<close>, and the allocator's invariant holds.\<close>

theorem alloc_pages_ok:
  assumes "pmm_inv s A" and "alloc_pages order s = (Some addr, s')"
  shows "\<exists>i. addr = page_to_addr i s \<and> block_ok (unat (nr_pages s)) (i, order)
    \<and> (\<forall>b \<in> A. pages_of b \<inter> pages_of (i, order) = {})
    \<and> pmm_inv s' (insert (i, order) A) \<and> page_refcount addr s' = 1
    \<and> unat (pmm_nr_free_pages s') + 2 ^ order = unat (pmm_nr_free_pages s)
    \<and> (\<forall>x. ram s' x = (if unat (x - addr) < 4096 * 2 ^ order then 0 else ram s x))"
proof -
  obtain i where i: "addr = page_to_addr i s" "block_ok (unat (nr_pages s)) (i, order)"
    "\<forall>b \<in> A. pages_of b \<inter> pages_of (i, order) = {}" "(i, order) \<notin> A" "pmm_inv s' (insert (i, order) A)" "same_range s s'"
    "\<forall>x. ram s' x = (if unat (x - addr) < 4096 * 2 ^ order then 0 else ram s x)"
    "\<forall>j. pg_refcount (mem_map s' j) = (if j = i then 1 else pg_refcount (mem_map s j))"
    by (rule alloc_pages_Some [OF assms])
  have "unat (pmm_nr_free_pages s') + 2 ^ order = unat (pmm_nr_free_pages s)"
    using pmm_inv_nr_free_insert [OF assms(1) i(5,4)] i(6) by (simp add: same_range_def pmm_nr_free_pages_def)
  moreover have "page_refcount addr s' = 1"
    using handed_out_head(1) [OF i(5), of i order] i(8)
    by (simp add: page_refcount_def i(1) page_to_addr_range [OF i(6)])
  ultimately show ?thesis using i by blast
qed

theorem alloc_pages_ok_witness:
  "\<exists>addr s' i. alloc_pages 2 demo_pmm = (Some addr, s') \<and> addr = page_to_addr i demo_pmm
     \<and> block_ok 15 (i, 2) \<and> pmm_inv s' {(i, 2)} \<and> ram s' addr = 0"
proof -
  obtain a s' where "alloc_pages 2 demo_pmm = (Some a, s')" using demo_alloc by blast
  with alloc_pages_ok [OF demo_pmm(2) this] show ?thesis by (auto simp: demo_pmm(3))
qed

text \<open>C8: because free buddies are always merged, a request of order \<open>order\<close> fails only when no aligned
  run of \<open>2^order\<close> pages is free: external fragmentation is the only cause of failure, and a failed
  request leaves the allocator as it was.\<close>

theorem alloc_pages_fails_iff:
  assumes "pmm_inv s A" and "order < MAX_ORDER"
  shows "alloc_pages order s = (None, s) \<longleftrightarrow>
    \<not> (\<exists>i. block_ok (unat (nr_pages s)) (i, order) \<and> (\<forall>b \<in> A. pages_of b \<inter> pages_of (i, order) = {}))"
proof (cases "alloc_pages order s")
  case (Pair r s')
  show ?thesis
  proof (cases r)
    case None
    then show ?thesis using Pair alloc_pages_None [OF assms(1)] alloc_block_complete [OF assms] by fastforce
  next
    case (Some a)
    with Pair have p: "alloc_pages order s = (Some a, s')" by simp
    show ?thesis by (rule alloc_pages_Some [OF assms(1) p]) (use p in auto)
  qed
qed

theorem alloc_pages_fails_iff_witness:
  "(4 :: nat) < MAX_ORDER \<and> alloc_pages 4 demo_pmm = (None, demo_pmm) \<and> alloc_pages 3 demo_pmm \<noteq> (None, demo_pmm)"
  using alloc_pages_fails_iff [OF demo_pmm(2), of 4] alloc_pages_fails_iff [OF demo_pmm(2), of 3]
  by (auto simp: MAX_ORDER_def demo_pmm(3) block_ok_def dest: dvd_imp_le intro: exI [of _ 0])

text \<open>C7: giving back a block that was handed out, with the order it was asked for, never panics: it
  makes its pages free again, merges them so that no two free buddies remain, and leaves the other
  blocks and the memory alone. A single page is given back this way when it has one reference.\<close>

theorem free_pages_ok:
  assumes "pmm_inv s A" and "(i, k) \<in> A" and "pg_refcount (mem_map s i) = 1"
  shows "\<exists>s'. free_pages (page_to_addr i s) k s = Inr s' \<and> pmm_inv s' (A - {(i, k)})
    \<and> unat (pmm_nr_free_pages s') = unat (pmm_nr_free_pages s) + 2 ^ k \<and> ram s' = ram s"
proof -
  obtain v where v: "free_pages (page_to_addr i s) k s = Inr (free_one_page i k (set_refcount i v s))"
    using free_pages_sole [OF assms] by blast
  let ?s = "free_one_page i k (set_refcount i v s)"
  have A: "insert (i, k) (A - {(i, k)}) = A" using assms(2) by blast
  have inv: "pmm_inv ?s (A - {(i, k)})" using assms(1) A by (intro free_one_page_inv) auto
  have "unat (nr_free s) + 2 ^ snd (i, k) = unat (nr_free ?s)"
    using inv assms(1) A free_one_page_frame(1) [where s = s and i = i and k = k and v = v]
    by (intro pmm_inv_nr_free_insert [of _ "A - {(i, k)}"]) (auto simp: same_range_def)
  with v inv free_one_page_frame(2) show ?thesis by (auto simp: pmm_nr_free_pages_def)
qed

theorem free_pages_ok_witness:
  "\<exists>addr s' s''. alloc_pages 2 demo_pmm = (Some addr, s') \<and> free_pages addr 2 s' = Inr s'' \<and> pmm_inv s'' {}"
proof -
  obtain a s' where p: "alloc_pages 2 demo_pmm = (Some a, s')" using demo_alloc by blast
  show ?thesis
  proof (rule alloc_pages_Some [OF demo_pmm(2) p])
    fix i assume i: "a = page_to_addr i demo_pmm" "pmm_inv s' {(i, 2)}" "same_range demo_pmm s'"
      and "\<forall>j. pg_refcount (mem_map s' j) = (if j = i then 1 else pg_refcount (mem_map demo_pmm j))"
    with free_pages_ok [OF i(2), of i 2] p page_to_addr_range [OF i(3)] show ?thesis by auto
  qed
qed

text \<open>\<open>put_page\<close> on a page that was handed out drops one reference and never panics. While other
  references remain nothing else changes; with the last reference the page becomes free, and a
  second \<open>put_page\<close> on the same address panics instead of freeing it twice.\<close>

theorem put_page_ok:
  assumes "pmm_inv s A" and "(i, 0) \<in> A"
  shows "\<exists>s'. put_page (page_to_addr i s) s = Inr s'
    \<and> page_refcount (page_to_addr i s) s' = page_refcount (page_to_addr i s) s - 1
    \<and> (if page_refcount (page_to_addr i s) s = 1
       then pmm_inv s' (A - {(i, 0)}) \<and> unat (pmm_nr_free_pages s') = unat (pmm_nr_free_pages s) + 1
            \<and> (\<exists>msg. put_page (page_to_addr i s) s' = Inl msg)
       else pmm_inv s' A \<and> pmm_nr_free_pages s' = pmm_nr_free_pages s)"
proof -
  define addr where "addr = page_to_addr i s"
  let ?r = "pg_refcount (mem_map s i)"
  note h = handed_out_head [OF assms(1,2)]
  have same: "addr_to_page addr s' = Some i" if "same_range s s'" for s'
    using h(1) addr_to_page_range [OF that] by (simp add: addr_def)
  have rc: "page_refcount addr s = ?r" using h(1) by (simp add: page_refcount_def addr_def)
  show ?thesis
  proof (cases "?r = 1")
    case True
    let ?s = "free_one_page i 0 (set_refcount i 0 s)"
    note fr = free_one_page_frame [where s = s and i = i and k = 0 and v = 0]
    have A: "insert (i, 0) (A - {(i, 0)}) = A" using assms(2) by blast
    have inv: "pmm_inv ?s (A - {(i, 0)})" using assms(1) A by (intro free_one_page_inv) auto
    have "unat (nr_free s) + 2 ^ snd (i, 0::nat) = unat (nr_free ?s)"
      using inv assms(1) A fr(1) by (intro pmm_inv_nr_free_insert [of _ "A - {(i, 0)}"]) (auto simp: same_range_def)
    moreover have "\<exists>msg. put_page addr ?s = Inl msg" using same [OF fr(1)] fr(3) by (simp add: put_page_def)
    moreover have "page_refcount addr ?s = 0" using same [OF fr(1)] fr(3) by (simp add: page_refcount_def)
    ultimately show ?thesis
      using inv True put_page_last [OF assms(1,2) True] by (simp add: rc [unfolded addr_def] addr_def pmm_nr_free_pages_def)
  next
    case False
    let ?s = "set_refcount i (?r - 1) s"
    have "?r - 1 \<noteq> 0" using False by simp
    then have "pmm_inv ?s A" using assms(1) by (intro pmm_inv_set_refcount)
    moreover have "page_refcount addr ?s = ?r - 1" using same [of ?s] by (simp add: page_refcount_def same_range_def)
    ultimately show ?thesis
      using False put_page_shared [OF assms(1,2) False] by (simp add: rc [unfolded addr_def] addr_def pmm_nr_free_pages_def)
  qed
qed

theorem put_page_ok_witness:
  "\<exists>addr s' s''. alloc_pages 0 demo_pmm = (Some addr, s') \<and> put_page addr s' = Inr s'' \<and> pmm_inv s'' {}
     \<and> (\<exists>msg. put_page addr s'' = Inl msg)"
proof -
  obtain a s' where p: "alloc_pages 0 demo_pmm = (Some a, s')"
    using alloc_block_complete [OF demo_pmm(2), of 0 0] by (auto simp: demo_pmm(3) block_ok_def MAX_ORDER_def)
  show ?thesis
  proof (rule alloc_pages_Some [OF demo_pmm(2) p])
    fix i assume i: "a = page_to_addr i demo_pmm" "pmm_inv s' {(i, 0)}" "same_range demo_pmm s'"
      and "\<forall>j. pg_refcount (mem_map s' j) = (if j = i then 1 else pg_refcount (mem_map demo_pmm j))"
    then have "page_refcount (page_to_addr i s') s' = 1"
      using handed_out_head(1) [OF i(2), of i 0] by (simp add: page_refcount_def)
    with put_page_ok [OF i(2), of i] p i(1) page_to_addr_range [OF i(3)] show ?thesis by auto
  qed
qed

text \<open>Several references taken or dropped in a row.\<close>

fun get_pages :: "nat \<Rightarrow> u32 \<Rightarrow> pmm \<Rightarrow> pmm kres" where
  "get_pages 0 addr s = Inr s"
| "get_pages (Suc n) addr s = (case get_page addr s of Inl e \<Rightarrow> Inl e | Inr s' \<Rightarrow> get_pages n addr s')"

fun put_pages :: "nat \<Rightarrow> u32 \<Rightarrow> pmm \<Rightarrow> pmm kres" where
  "put_pages 0 addr s = Inr s"
| "put_pages (Suc n) addr s = (case put_page addr s of Inl e \<Rightarrow> Inl e | Inr s' \<Rightarrow> put_pages n addr s')"

lemma set_refcount_twice: "set_refcount i v (set_refcount i w s) = set_refcount i v s"
  by (simp add: set_refcount_def)

lemma set_refcount_range: "same_range s (set_refcount i v s)"
  by (simp add: same_range_def)

lemma get_pages_eq:
  assumes "addr_to_page addr s = Some i" and "pg_order (mem_map s i) = PAGE_INUSE"
  shows "get_pages n addr s = Inr (set_refcount i (pg_refcount (mem_map s i) + of_nat n) s)"
  using assms
proof (induction n arbitrary: s)
  case 0
  then show ?case by (simp add: set_refcount_id)
next
  case (Suc n)
  let ?s = "set_refcount i (pg_refcount (mem_map s i) + 1) s"
  have "get_pages n addr ?s = Inr (set_refcount i (pg_refcount (mem_map ?s i) + of_nat n) ?s)"
    using Suc.prems addr_to_page_range [OF set_refcount_range] by (intro Suc.IH) auto
  with Suc.prems show ?case by (simp add: get_page_def set_refcount_twice add.assoc)
qed

lemma put_pages_eq:
  assumes "addr_to_page addr s = Some i" and "pg_order (mem_map s i) = PAGE_INUSE"
    and "pg_refcount (mem_map s i) \<noteq> 0" and "unat (pg_refcount (mem_map s i)) + n < 2 ^ 32"
  shows "put_pages n addr (set_refcount i (pg_refcount (mem_map s i) + of_nat n) s) = Inr s"
  using assms(4)
proof (induction n)
  case 0
  then show ?case by (simp add: set_refcount_id)
next
  case (Suc n)
  let ?r = "pg_refcount (mem_map s i)"
  have "0 < unat ?r" using assms(3) by (simp add: unat_gt_0)
  then have "unat (?r + of_nat m) \<noteq> 0" if "m \<le> Suc n" for m
    using Suc.prems that by (simp add: unat_word_ariths unat_of_nat)
  from this [of n] this [of "Suc n"] have nz: "?r + of_nat n \<noteq> 0" "?r + of_nat (Suc n) \<noteq> 0"
    by (auto simp: unat_eq_0)
  define w where "w = ?r + of_nat (Suc n)"
  have w: "w - 1 = ?r + of_nat n" "w \<noteq> 0" "w \<noteq> 1" using nz by (auto simp: w_def)
  have "put_page addr (set_refcount i w s) = Inr (set_refcount i (w - 1) s)"
    using w(2,3) assms(1,2) addr_to_page_range [OF set_refcount_range]
    by (simp add: put_page_def Let_def set_refcount_twice)
  with Suc show ?case by (simp add: w(1) w_def [symmetric] del: of_nat_Suc)
qed

text \<open>\<open>get_page\<close> on a page that was handed out adds one reference without touching the allocator's
  lists; a page shared this way survives as many \<open>put_page\<close> calls as there were \<open>get_page\<close> calls.\<close>

theorem get_put_pages:
  assumes "pmm_inv s A" and "(i, k) \<in> A" and "unat (page_refcount (page_to_addr i s) s) + n < 2 ^ 32"
  shows "\<exists>s'. get_pages n (page_to_addr i s) s = Inr s' \<and> pmm_inv s' A
    \<and> unat (page_refcount (page_to_addr i s) s') = unat (page_refcount (page_to_addr i s) s) + n
    \<and> put_pages n (page_to_addr i s) s' = Inr s"
proof -
  let ?r = "pg_refcount (mem_map s i)"
  note h = handed_out_head [OF assms(1,2)]
  let ?s = "set_refcount i (?r + of_nat n) s"
  have r: "unat ?r + n < 2 ^ 32" using assms(3) h(1) by (simp add: page_refcount_def)
  then have u: "unat (?r + of_nat n) = unat ?r + n" by (simp add: unat_word_ariths unat_of_nat)
  have "?r + of_nat n \<noteq> 0" using u h(3) by (metis add_is_0 unat_eq_0)
  then have "pmm_inv ?s A" using assms(1) by (intro pmm_inv_set_refcount)
  with u get_pages_eq [OF h(1,2)] put_pages_eq [OF h r] h(1) addr_to_page_range [OF set_refcount_range] show ?thesis
    by (simp add: page_refcount_def)
qed

theorem get_put_pages_witness:
  "\<exists>addr s' s''. alloc_pages 0 demo_pmm = (Some addr, s') \<and> get_pages 3 addr s' = Inr s''
     \<and> unat (page_refcount addr s'') = 4 \<and> put_pages 3 addr s'' = Inr s'"
proof -
  obtain a s' where p: "alloc_pages 0 demo_pmm = (Some a, s')"
    using alloc_block_complete [OF demo_pmm(2), of 0 0] by (auto simp: demo_pmm(3) block_ok_def MAX_ORDER_def)
  show ?thesis
  proof (rule alloc_pages_Some [OF demo_pmm(2) p])
    fix i assume i: "a = page_to_addr i demo_pmm" "pmm_inv s' {(i, 0)}" "same_range demo_pmm s'"
      and "\<forall>j. pg_refcount (mem_map s' j) = (if j = i then 1 else pg_refcount (mem_map demo_pmm j))"
    then have "page_refcount (page_to_addr i s') s' = 1"
      using handed_out_head(1) [OF i(2), of i 0] by (simp add: page_refcount_def)
    with get_put_pages [OF i(2), of i 0 3] p i(1) page_to_addr_range [OF i(3)] show ?thesis by auto
  qed
qed

text \<open>Page indices and addresses correspond: the address of a managed page leads back to that page,
  and every address \<open>addr_to_page\<close> accepts, physical or in the kernel's direct map, is the address of
  the page it returns. Other addresses are rejected.\<close>

theorem addr_page_roundtrip:
  assumes "pmm_geom s"
  shows "(i < unat (nr_pages s) \<longrightarrow> addr_to_page (page_to_addr i s) s = Some i)
    \<and> (addr_to_page addr s = Some i \<longrightarrow>
         i < unat (nr_pages s) \<and> page_to_addr i s = (if KERNBASE \<le> addr then addr else P2V addr))
    \<and> (addr_to_page addr s = None \<longrightarrow> (\<forall>j < unat (nr_pages s). addr \<noteq> page_to_addr j s))"
  using assms addr_to_page_to_addr page_to_addr_to_page by force

theorem addr_page_roundtrip_witness:
  "pmm_geom demo_pmm \<and> addr_to_page (page_to_addr 7 demo_pmm) demo_pmm = Some 7"
  using addr_page_roundtrip [of demo_pmm 7] demo_pmm(2,3) by (simp add: pmm_inv_def)

text \<open>C9: a client that only allocates blocks and gives back blocks it holds never makes the allocator
  panic, whatever the sequence and whatever else is allocated, and at every moment the blocks it
  holds occupy disjoint ranges of bytes.\<close>

theorem client_run_safe:
  assumes "pmm_owns s (set bs)" and "distinct bs"
  shows "\<exists>s' bs'. prun alloc_pages free_pages rs s bs = Inr (s', bs') \<and> pmm_owns s' (set bs') \<and> distinct bs'
    \<and> (\<forall>b \<in> set bs'. \<forall>c \<in> set bs'. b \<noteq> c \<longrightarrow> block_addrs b \<inter> block_addrs c = {})"
  using pages.prun_safe [OF assms, of rs] pages.owns_disjoint by blast

theorem client_run_safe_witness:
  "\<exists>s' bs'. prun alloc_pages free_pages [PAlloc 1, PAlloc 0, PFree 1, PAlloc 3] demo_pmm [] = Inr (s', bs')
     \<and> pmm_owns s' (set bs')"
proof -
  have "pmm_owns demo_pmm (set [])" using demo_pmm(2) by (auto simp: pmm_owns_def)
  from client_run_safe [OF this] show ?thesis by (simp del: prun.simps) blast
qed

end
