(* ===== verification/Mem_Probe.thy ===== *)
theory Mem_Probe
  imports Page_Alloc
begin

text \<open>
  The detection of the size of memory, src/arch/x86/kernel/mm/mem.c.

  The QEMU firmware port is a function from a selected key and a position to the byte read there;
  the boot information page is a function from an index to the word stored there. Both come from
  outside the kernel, so the theorems hold for every content.
\<close>

definition KERNEL_LOAD_PA :: u32 where "KERNEL_LOAD_PA = 0x00100000"
definition BOOT_INFO_MAGIC :: u32 where "BOOT_INFO_MAGIC = 0x544f4d53"
definition FW_CFG_SIGNATURE :: nat where "FW_CFG_SIGNATURE = 0x0000"
definition FW_CFG_RAM_SIZE :: nat where "FW_CFG_RAM_SIZE = 0x0003"

definition fw_cfg_ram_size :: "(nat \<Rightarrow> nat \<Rightarrow> u8) \<Rightarrow> u32 option" where
  "fw_cfg_ram_size fw =
     (let b = fw FW_CFG_SIGNATURE;
          sig = ucast (b 0) OR push_bit 8 (ucast (b 1)) OR push_bit 16 (ucast (b 2)) OR push_bit 24 (ucast (b 3))
      in if sig \<noteq> (0x554d4551 :: u32) then None
      else let r = fold (\<lambda>i ram. ram OR push_bit (8 * i) (ucast (fw FW_CFG_RAM_SIZE i))) [0..<8] (0 :: 64 word)
      in if r = 0 then None
      else let r' = (if ucast PHYSMEM_TOP_MAX < r then ucast PHYSMEM_TOP_MAX else r)
      in Some (ucast r'))"

definition boot_info_ram_size :: "(nat \<Rightarrow> u32) \<Rightarrow> u32 option" where
  "boot_info_ram_size info =
     (if info 0 \<noteq> BOOT_INFO_MAGIC then None
      else if info 1 \<le> KERNEL_LOAD_PA then None
      else Some (info 1))"

definition mem_probe :: "(nat \<Rightarrow> nat \<Rightarrow> u8) \<Rightarrow> (nat \<Rightarrow> u32) \<Rightarrow> u32 kres" where
  "mem_probe fw info =
     (case (case fw_cfg_ram_size fw of Some t \<Rightarrow> Some t | None \<Rightarrow> boot_info_ram_size info) of
        None \<Rightarrow> Inl ''mem: cannot detect RAM size''
      | Some t0 \<Rightarrow>
          (let t1 = PGROUNDDOWN t0;
               t2 = (if PHYSMEM_TOP_MAX < t1 then PHYSMEM_TOP_MAX else t1)
           in if t2 \<le> KERNEL_LOAD_PA then Inl ''mem: RAM too small, below the kernel load address''
              else Inr t2))"

lemma mem_probe_range:
  assumes "mem_probe fw info = Inr t"
  shows "unat t mod 4096 = 0" "t \<le> PHYSMEM_TOP_MAX" "KERNEL_LOAD_PA < t"
  using assms
  by (auto simp: mem_probe_def Let_def unat_PGROUNDDOWN PHYSMEM_TOP_MAX_def split: option.splits if_splits)



end
