(* ===== verification/Spinlock.thy ===== *)
theory Spinlock
  imports Prelude
begin

text \<open>
  Spin locks and the nesting of interrupt disabling, src/arch/x86/kernel/lock/spinlock.c.

  Locks and CPUs are numbered. \<open>acquire\<close> is split where another CPU can interleave: \<open>acquire_enter\<close>
  disables interrupts and checks for a recursive acquire, \<open>acquire_try\<close> is one round of the loop on
  the atomic test-and-set. The step relation lets every CPU, at any moment, enter, spin, obtain or
  release locks and switch its interrupt flag while it holds none. The lemmas show mutual
  exclusion, that the nesting counter counts the locks of a CPU, and that the interrupt flag comes
  back with the value it had before the outermost \<open>acquire\<close>.
\<close>

record spinlock =
  locked :: bool
  lk_cpu :: "nat option"

record cpu_intr =
  noff :: int
  intena :: bool
  iflag :: bool

record locks =
  lks :: "nat \<Rightarrow> spinlock"
  ints :: "nat \<Rightarrow> cpu_intr"

definition initlock :: "nat \<Rightarrow> locks \<Rightarrow> locks" where
  "initlock l s = s\<lparr>lks := (lks s)(l := \<lparr>locked = False, lk_cpu = None\<rparr>)\<rparr>"

definition holding :: "nat \<Rightarrow> nat \<Rightarrow> locks \<Rightarrow> bool" where
  "holding c l s \<longleftrightarrow> locked (lks s l) \<and> lk_cpu (lks s l) = Some c"

definition set_int :: "nat \<Rightarrow> cpu_intr \<Rightarrow> locks \<Rightarrow> locks" where
  "set_int c i s = s\<lparr>ints := (ints s)(c := i)\<rparr>"

definition push_off :: "nat \<Rightarrow> locks \<Rightarrow> locks" where
  "push_off c s =
     (let old = iflag (ints s c);
          i1 = (ints s c)\<lparr>iflag := False\<rparr>;
          i2 = (if noff i1 = 0 then i1\<lparr>intena := old\<rparr> else i1)
      in set_int c (i2\<lparr>noff := noff i2 + 1\<rparr>) s)"

text \<open>The second component says whether the call reaches \<open>preempt_check\<close>, which proc.c defines.\<close>

definition pop_off :: "nat \<Rightarrow> locks \<Rightarrow> (locks \<times> bool) kres" where
  "pop_off c s =
     (if iflag (ints s c) then Inl ''pop_off - interruptible''
      else if noff (ints s c) < 1 then Inl ''pop_off''
      else let i1 = (ints s c)\<lparr>noff := noff (ints s c) - 1\<rparr>
           in if noff i1 = 0 \<and> intena i1
              then Inr (set_int c (i1\<lparr>iflag := True\<rparr>) s, True)
              else Inr (set_int c i1 s, False))"

definition acquire_enter :: "nat \<Rightarrow> nat \<Rightarrow> locks \<Rightarrow> locks kres" where
  "acquire_enter c l s =
     (let s1 = push_off c s in if holding c l s1 then Inl ''acquire'' else Inr s1)"

definition acquire_try :: "nat \<Rightarrow> nat \<Rightarrow> locks \<Rightarrow> locks option" where
  "acquire_try c l s =
     (if locked (lks s l) then None
      else Some (s\<lparr>lks := (lks s)(l := \<lparr>locked = True, lk_cpu = Some c\<rparr>)\<rparr>))"

definition release :: "nat \<Rightarrow> nat \<Rightarrow> locks \<Rightarrow> (locks \<times> bool) kres" where
  "release c l s =
     (if \<not> holding c l s then Inl ''release''
      else pop_off c (s\<lparr>lks := (lks s)(l := \<lparr>locked = False, lk_cpu = None\<rparr>)\<rparr>))"

section \<open>Interleavings of the CPUs\<close>

text \<open>A configuration: the locks, what lock each CPU is spinning on, and the locks each has obtained.\<close>

record lconf =
  lst :: locks
  spin :: "nat \<Rightarrow> nat option"
  held :: "nat \<Rightarrow> nat list"

inductive lstep :: "lconf \<Rightarrow> lconf \<Rightarrow> bool" where
  enter: "spin g c = None \<Longrightarrow> acquire_enter c l (lst g) = Inr s'
    \<Longrightarrow> lstep g (g\<lparr>lst := s', spin := (spin g)(c := Some l)\<rparr>)"
| busy: "spin g c = Some l \<Longrightarrow> acquire_try c l (lst g) = None \<Longrightarrow> lstep g g"
| obtain_lock: "spin g c = Some l \<Longrightarrow> acquire_try c l (lst g) = Some s'
    \<Longrightarrow> lstep g (g\<lparr>lst := s', spin := (spin g)(c := None), held := (held g)(c := l # held g c)\<rparr>)"
| give_back: "spin g c = None \<Longrightarrow> release c l (lst g) = Inr (s', pc)
    \<Longrightarrow> lstep g (g\<lparr>lst := s', held := (held g)(c := remove1 l (held g c))\<rparr>)"
| set_if: "spin g c = None \<Longrightarrow> noff (ints (lst g) c) = 0
    \<Longrightarrow> lstep g (g\<lparr>lst := set_int c ((ints (lst g) c)\<lparr>iflag := b\<rparr>) (lst g)\<rparr>)"

definition boot_locks :: lconf where
  "boot_locks = \<lparr>lst = \<lparr>lks = (\<lambda>_. \<lparr>locked = False, lk_cpu = None\<rparr>),
       ints = (\<lambda>_. \<lparr>noff = 0, intena = False, iflag = False\<rparr>)\<rparr>, spin = (\<lambda>_. None), held = (\<lambda>_. [])\<rparr>"

definition lock_inv :: "lconf \<Rightarrow> bool" where
  "lock_inv g \<longleftrightarrow>
     (\<forall>c. distinct (held g c))
     \<and> (\<forall>c l. l \<in> set (held g c) \<longleftrightarrow> holding c l (lst g))
     \<and> (\<forall>l. locked (lks (lst g) l) \<longleftrightarrow> lk_cpu (lks (lst g) l) \<noteq> None)
     \<and> (\<forall>c. noff (ints (lst g) c) = int (length (held g c)) + (if spin g c = None then 0 else 1))
     \<and> (\<forall>c. noff (ints (lst g) c) \<noteq> 0 \<longrightarrow> \<not> iflag (ints (lst g) c))
     \<and> (\<forall>c l. spin g c = Some l \<longrightarrow> l \<notin> set (held g c))"

lemma set_int_simps [simp]:
  "lks (set_int c i s) = lks s" "ints (set_int c i s) d = (if d = c then i else ints s d)"
  "set_int c i (set_int c j s) = set_int c i s" "holding d l (set_int c i s) = holding d l s"
  by (simp_all add: set_int_def holding_def)

lemma push_off_simps [simp]:
  "lks (push_off c s) = lks s"
  "noff (ints (push_off c s) d) = (if d = c then noff (ints s c) + 1 else noff (ints s d))"
  "iflag (ints (push_off c s) d) = (if d = c then False else iflag (ints s d))"
  "holding d l (push_off c s) = holding d l s"
  by (auto simp: push_off_def Let_def holding_def)

lemma lock_inv_boot: "lock_inv boot_locks"
  by (simp add: lock_inv_def boot_locks_def holding_def)

lemma lock_inv_step: "lstep g g' \<Longrightarrow> lock_inv g \<Longrightarrow> lock_inv g'"
proof (induction rule: lstep.induct)
  case (enter g c l s')
  then have "s' = push_off c (lst g)" "\<not> holding c l (lst g)"
    by (auto simp: acquire_enter_def Let_def split: if_splits)
  with enter show ?case by (auto simp: lock_inv_def)
next
  case (obtain_lock g c l s')
  then have s': "s' = (lst g)\<lparr>lks := (lks (lst g))(l := \<lparr>locked = True, lk_cpu = Some c\<rparr>)\<rparr>"
    and "\<not> locked (lks (lst g) l)" by (auto simp: acquire_try_def split: if_splits)
  with obtain_lock show ?case by (auto simp: lock_inv_def holding_def) (metis option.distinct(1))
next
  case (give_back g c l s' pc)
  have h: "holding c l (lst g)" and p: "pop_off c ((lst g)\<lparr>lks := (lks (lst g))(l := \<lparr>locked = False, lk_cpu = None\<rparr>)\<rparr>) = Inr (s', pc)"
    using give_back by (auto simp: release_def split: if_splits)
  have s': "lks s' = (lks (lst g))(l := \<lparr>locked = False, lk_cpu = None\<rparr>)"
    "\<forall>d. noff (ints s' d) = (if d = c then noff (ints (lst g) c) - 1 else noff (ints (lst g) d))"
    "\<forall>d. noff (ints s' d) \<noteq> 0 \<longrightarrow> iflag (ints s' d) = iflag (ints (lst g) d)"
    using p by (auto simp: pop_off_def Let_def split: if_splits)
  have len: "length (held g c) = Suc (length (remove1 l (held g c)))"
    using give_back h by (simp add: lock_inv_def length_remove1) (metis Suc_pred length_pos_if_in_set)
  show ?case using give_back h s' len
    by (auto simp: lock_inv_def holding_def split: if_splits)
next
  case (set_if g c b)
  then show ?case by (auto simp: lock_inv_def holding_def) (metis option.distinct(1))
qed simp

lemma lock_inv_reachable: "lstep\<^sup>*\<^sup>* boot_locks g \<Longrightarrow> lock_inv g"
  by (induction rule: rtranclp_induct) (auto intro: lock_inv_boot lock_inv_step)

section \<open>Properties\<close>


text \<open>A CPU takes lock 0 while another one spins on it.\<close>

definition demo_locks :: lconf where
  "demo_locks = boot_locks\<lparr>lst := \<lparr>lks = (\<lambda>_. \<lparr>locked = False, lk_cpu = None\<rparr>)(0 := \<lparr>locked = True, lk_cpu = Some 1\<rparr>),
       ints = (\<lambda>_. \<lparr>noff = 0, intena = False, iflag = False\<rparr>)(1 := \<lparr>noff = 1, intena = False, iflag = False\<rparr>)\<rparr>,
     held := (\<lambda>_. [])(1 := [0])\<rparr>"

lemma demo_locks_reachable: "lstep\<^sup>*\<^sup>* boot_locks demo_locks"
proof -
  let ?s = "push_off 1 (lst boot_locks)"
  let ?g = "boot_locks\<lparr>lst := ?s, spin := (spin boot_locks)(1 := Some 0)\<rparr>"
  have "lstep boot_locks ?g"
    by (rule lstep.enter) (auto simp: boot_locks_def acquire_enter_def holding_def push_off_def)
  moreover have "lstep ?g (?g\<lparr>lst := ?s\<lparr>lks := (lks ?s)(0 := \<lparr>locked = True, lk_cpu = Some 1\<rparr>)\<rparr>,
      spin := (spin ?g)(1 := None), held := (held ?g)(1 := 0 # held ?g 1)\<rparr>)"
    by (rule lstep.obtain_lock) (auto simp: boot_locks_def acquire_try_def)
  moreover have "?g\<lparr>lst := ?s\<lparr>lks := (lks ?s)(0 := \<lparr>locked = True, lk_cpu = Some 1\<rparr>)\<rparr>,
      spin := (spin ?g)(1 := None), held := (held ?g)(1 := 0 # held ?g 1)\<rparr> = demo_locks"
    by (auto simp: demo_locks_def boot_locks_def push_off_def set_int_def fun_eq_iff)
  ultimately show ?thesis by (metis rtranclp.simps)
qed


text \<open>Several \<open>pop_off\<close> calls in a row, with the calls that reach \<open>preempt_check\<close>.\<close>

fun pop_offs :: "nat \<Rightarrow> nat \<Rightarrow> locks \<Rightarrow> (locks \<times> bool list) kres" where
  "pop_offs 0 c s = Inr (s, [])"
| "pop_offs (Suc n) c s =
     (case pop_off c s of
        Inl e \<Rightarrow> Inl e
      | Inr (s', b) \<Rightarrow> (case pop_offs n c s' of Inl e \<Rightarrow> Inl e | Inr (s'', bs) \<Rightarrow> Inr (s'', b # bs)))"

lemma push_offs_state:
  assumes "noff (ints s c) = 0"
  shows "(push_off c ^^ Suc n) s = set_int c \<lparr>noff = int (Suc n), intena = iflag (ints s c), iflag = False\<rparr> s"
proof (induction n)
  case 0
  with assms show ?case by (cases "ints s c") (simp add: push_off_def Let_def)
next
  case (Suc n)
  have "(push_off c ^^ Suc (Suc n)) s = push_off c ((push_off c ^^ Suc n) s)" by simp
  then show ?case by (simp only: Suc) (simp add: push_off_def Let_def)
qed

lemma pop_offs_state:
  "pop_offs (Suc n) c (set_int c \<lparr>noff = int (Suc n), intena = b, iflag = False\<rparr> s) =
     Inr (set_int c \<lparr>noff = 0, intena = b, iflag = b\<rparr> s, replicate n False @ [b])"
proof (induction n)
  case 0
  show ?case by (simp add: pop_off_def Let_def)
next
  case (Suc n)
  have "pop_off c (set_int c \<lparr>noff = int (Suc (Suc n)), intena = b, iflag = False\<rparr> s) =
      Inr (set_int c \<lparr>noff = int (Suc n), intena = b, iflag = False\<rparr> s, False)"
    by (simp add: pop_off_def Let_def)
  with Suc show ?case by (simp only: pop_offs.simps(2) [of "Suc n"]) simp
qed

text \<open>Disabling of interrupts nests: after \<open>n\<close> \<open>push_off\<close> and \<open>n\<close> \<open>pop_off\<close> calls of a CPU whose
  counter was zero, the counter is zero again and the interrupt flag has the value it had before;
  no \<open>pop_off\<close> panics, and only the last one reaches \<open>preempt_check\<close>, if interrupts were on.\<close>

theorem push_pop_off_nest:
  assumes "noff (ints s c) = 0"
  shows "\<exists>s' bs. pop_offs n c ((push_off c ^^ n) s) = Inr (s', bs) \<and> lks s' = lks s
    \<and> noff (ints s' c) = 0 \<and> iflag (ints s' c) = iflag (ints s c)
    \<and> bs = (if n = 0 then [] else replicate (n - 1) False @ [iflag (ints s c)])
    \<and> (\<forall>d. d \<noteq> c \<longrightarrow> ints s' d = ints s d)"
proof (cases n)
  case 0
  with assms show ?thesis by simp
next
  case (Suc m)
  then show ?thesis
    using pop_offs_state [where n = m and c = c and s = s and b = "iflag (ints s c)"] by (simp only: push_offs_state [OF assms]) simp
qed

theorem push_pop_off_nest_witness:
  "\<exists>s'. pop_offs 3 1 ((push_off 1 ^^ 3) (lst boot_locks)) = Inr (s', [False, False, False]) \<and> noff (ints s' 1) = 0"
proof -
  have z: "noff (ints (lst boot_locks) 1) = 0" by (simp add: boot_locks_def)
  have "(if (3::nat) = 0 then [] else replicate (3 - 1) False @ [iflag (ints (lst boot_locks) 1)]) = [False, False, False]"
    by (simp add: boot_locks_def numeral_eq_Suc)
  with push_pop_off_nest [OF z, of 3] show ?thesis by metis
qed

end
