(* ===== verification/Slab.thy ===== *)
theory Slab
  imports Page_Alloc
begin

text \<open>
  The kernel heap, src/arch/x86/kernel/mm/slab.c: size classes cut from pages of the page allocator.

  A block is the address of its header. The free lists are kept at pointer level (\<open>klinks\<close>, with the
  heads of the caches and the nodes in the headers); the fields \<open>size\<close> and \<open>magic\<close> of all headers are
  functions of the address. \<open>slab_inv\<close> relates the state to the pages cut for each class, the whole
  pages given out and the blocks in use; the laws of the page allocator used here are the facts of
  the interpretation \<open>pages\<close>.
\<close>

section \<open>State and operations\<close>

datatype snode = CacheHead nat | Blk u32

record slab =
  klinks :: "snode list_heads"
  nr_kfree :: u32
  h_size :: "u32 \<Rightarrow> u32"
  h_magic :: "u32 \<Rightarrow> u32"

definition KMAGIC :: u32 where "KMAGIC = 0x4b4d454d"
definition KFLAG_PAGE :: u32 where "KFLAG_PAGE = 0x80000000"
definition NCACHE :: nat where "NCACHE = 7"
definition sizeof_khdr :: u32 where "sizeof_khdr = 16"

definition cache_bsize :: "nat \<Rightarrow> u32" where
  "cache_bsize i = [32, 64, 128, 256, 512, 1024, 2048] ! i"

definition cache_index :: "u32 \<Rightarrow> nat option" where
  "cache_index need = find (\<lambda>i. need \<le> cache_bsize i) [0..<NCACHE]"

text \<open>The loop of \<open>cache_refill\<close>: the blocks of the page at \<open>page\<close> go to the front of the free list.\<close>

fun refill_loop :: "u32 \<Rightarrow> nat \<Rightarrow> nat list \<Rightarrow> slab \<Rightarrow> slab" where
  "refill_loop page idx [] sl = sl"
| "refill_loop page idx (i # is) sl =
     (let h = page + of_nat i * cache_bsize idx
      in refill_loop page idx is
           (sl\<lparr>klinks := list_add (Blk h) (CacheHead idx) (INIT_LIST_HEAD (Blk h) (klinks sl)),
               nr_kfree := nr_kfree sl + 1\<rparr>))"

definition cache_refill :: "nat \<Rightarrow> slab \<times> pmm \<Rightarrow> (slab \<times> pmm) kres" where
  "cache_refill idx st =
     (case st of (sl, m) \<Rightarrow>
        case alloc_page m of
          (None, m') \<Rightarrow> Inl ''kmem: out of memory''
        | (Some page, m') \<Rightarrow> Inr (refill_loop page idx [0..<unat (PGSIZE div cache_bsize idx)] sl, m'))"

definition kmem_init :: "slab \<Rightarrow> slab" where
  "kmem_init sl = sl\<lparr>nr_kfree := 0, klinks := fold (\<lambda>i. INIT_LIST_HEAD (CacheHead i)) [0..<NCACHE] (klinks sl)\<rparr>"

text \<open>The loop that finds the order of a large request.\<close>

function kmalloc_order :: "u32 \<Rightarrow> nat \<Rightarrow> nat kres" where
  "kmalloc_order bytes order =
     (if push_bit order PGSIZE < bytes then
        (if MAX_ORDER \<le> order + 1 then Inl ''kmalloc: size too large'' else kmalloc_order bytes (order + 1))
      else Inr order)"
  by pat_completeness auto
termination
  by (relation "measure (\<lambda>(bytes, order). MAX_ORDER - order)") auto

declare kmalloc_order.simps [simp del]

definition kmalloc :: "u32 \<Rightarrow> slab \<times> pmm \<Rightarrow> (u32 option \<times> slab \<times> pmm) kres" where
  "kmalloc sz st =
     (if sz = 0 then Inr (None, st)
      else let need = sz + sizeof_khdr
      in if cache_bsize (NCACHE - 1) < need then
           (case kmalloc_order (PGROUNDUP need) 0 of
              Inl e \<Rightarrow> Inl e
            | Inr order \<Rightarrow>
                (case alloc_pages order (snd st) of
                   (None, m) \<Rightarrow> Inr (None, fst st, m)
                 | (Some h, m) \<Rightarrow>
                     Inr (Some (h + sizeof_khdr),
                       (fst st)\<lparr>h_size := (h_size (fst st))(h := KFLAG_PAGE OR of_nat order),
                               h_magic := (h_magic (fst st))(h := KMAGIC)\<rparr>, m)))
         else
           (case cache_index need of
              None \<Rightarrow> Inl ''kmalloc: bad size''
            | Some idx \<Rightarrow>
                (case (if list_empty (CacheHead idx) (klinks (fst st)) then cache_refill idx st else Inr st) of
                   Inl e \<Rightarrow> Inl e
                 | Inr (sl, m) \<Rightarrow>
                     (case list_first (CacheHead idx) (klinks sl) of
                        CacheHead _ \<Rightarrow> Inl ''list_first_entry''
                      | Blk h \<Rightarrow>
                          Inr (Some (h + sizeof_khdr),
                            sl\<lparr>klinks := list_del (Blk h) (klinks sl), nr_kfree := nr_kfree sl - 1,
                               h_size := (h_size sl)(h := cache_bsize idx), h_magic := (h_magic sl)(h := KMAGIC)\<rparr>, m)))))"

definition kcalloc :: "u32 \<Rightarrow> u32 \<Rightarrow> slab \<times> pmm \<Rightarrow> (u32 option \<times> slab \<times> pmm) kres" where
  "kcalloc n sz st =
     (if n \<noteq> 0 \<and> (- 1) div n < sz then Inr (None, st)
      else let total = n * sz
      in case kmalloc total st of
           Inl e \<Rightarrow> Inl e
         | Inr (None, st') \<Rightarrow> Inr (None, st')
         | Inr (Some p, sl, m) \<Rightarrow> Inr (Some p, sl, m\<lparr>ram := memset p 0 (unat total) (ram m)\<rparr>))"

definition kfree :: "u32 \<Rightarrow> slab \<times> pmm \<Rightarrow> (slab \<times> pmm) kres" where
  "kfree ptr st =
     (if ptr = 0 then Inr st
      else let h = ptr - sizeof_khdr; sl = fst st
      in if h_magic sl h \<noteq> KMAGIC then Inl ''kfree: bad magic''
      else let sl1 = sl\<lparr>h_magic := (h_magic sl)(h := 0)\<rparr>
      in if h_size sl1 h AND KFLAG_PAGE \<noteq> 0 then
           (case free_pages h (unat (h_size sl1 h AND NOT KFLAG_PAGE)) (snd st) of
              Inl e \<Rightarrow> Inl e | Inr m \<Rightarrow> Inr (sl1, m))
         else
           (case cache_index (h_size sl1 h) of
              None \<Rightarrow> Inl ''kfree: bad size''
            | Some idx \<Rightarrow>
                Inr (sl1\<lparr>klinks := list_add (Blk h) (CacheHead idx) (klinks sl1), nr_kfree := nr_kfree sl1 + 1\<rparr>, snd st)))"

definition kmem_nr_free :: "slab \<Rightarrow> u32" where
  "kmem_nr_free sl = nr_kfree sl"

section \<open>Size classes\<close>

lemma cache_bsize_pow: "i < NCACHE \<Longrightarrow> unat (cache_bsize i) = 32 * 2 ^ i"
proof -
  assume "i < NCACHE"
  then have "i \<in> {0, 1, 2, 3, 4, 5, 6}" by (auto simp: NCACHE_def)
  then show ?thesis by (auto simp: cache_bsize_def)
qed

lemma cache_index_Some:
  "cache_index need = Some i \<Longrightarrow> i < NCACHE \<and> need \<le> cache_bsize i"
  by (auto simp: cache_index_def find_upt_Some)

lemma cache_index_bsize: "i < NCACHE \<Longrightarrow> cache_index (cache_bsize i) = Some i"
  unfolding cache_index_def find_upt_Some
  by (auto simp: word_le_nat_alt cache_bsize_pow not_le)

lemma cache_index_total: "\<not> cache_bsize (NCACHE - 1) < need \<Longrightarrow> \<exists>i. cache_index need = Some i"
  by (cases "cache_index need") (auto simp: cache_index_def find_upt_None NCACHE_def not_less)


section \<open>The blocks of a page\<close>

definition blocks_of :: "(u32 \<times> nat) set \<Rightarrow> nat \<Rightarrow> u32 set" where
  "blocks_of pg i = {h. \<exists>a j. (a, i) \<in> pg \<and> j < 4096 div unat (cache_bsize i) \<and> h = a + of_nat j * cache_bsize i}"

text \<open>The \<open>n\<close> bytes from \<open>h\<close> on.\<close>

definition span :: "u32 \<Rightarrow> nat \<Rightarrow> u32 set" where
  "span h n = {x. unat (x - h) < n}"

lemma span_block_addrs: "span a (4096 * 2 ^ k) = block_addrs (a, k)"
  by (simp add: span_def block_addrs_def)

lemma span_self: "0 < n \<Longrightarrow> h \<in> span h n"
  by (simp add: span_def)

lemma block_addrs_self: "h \<in> block_addrs (h, k)"
  by (simp add: block_addrs_def)

lemma block_index:
  assumes "i < NCACHE" and "j < 4096 div unat (cache_bsize i)"
    and "x \<in> span (a + of_nat j * cache_bsize i) (unat (cache_bsize i))"
  shows "unat (x - a) < 4096 \<and> unat (x - a) div unat (cache_bsize i) = j"
proof -
  define b where "b = unat (cache_bsize i)"
  have b: "cache_bsize i = of_nat b" "0 < b" by (simp add: b_def) (use cache_bsize_pow [OF assms(1)] in \<open>simp add: b_def\<close>)
  define d where "d = unat (x - (a + of_nat j * cache_bsize i))"
  have d: "d < b" using assms(3) by (simp add: span_def d_def b_def)
  have "Suc j * b \<le> 4096 div b * b" using assms(2) by (intro mult_le_mono1) (simp add: b_def)
  also have "\<dots> \<le> 4096" by simp
  finally have j: "d + j * b < 4096" using d by simp
  have "x - a = (x - (a + of_nat j * cache_bsize i)) + of_nat j * cache_bsize i" by simp
  also have "\<dots> = of_nat (d + j * b)" by (simp add: d_def b(1))
  finally have "unat (x - a) = unat (of_nat (d + j * b) :: u32)" by (simp only:)
  also have "\<dots> = d + j * b" using j by (simp only: unat_of_nat) simp
  finally have "unat (x - a) = d + j * b" .
  with j d b(2) show ?thesis unfolding b_def [symmetric] by simp
qed

lemma block_in_page:
  assumes "h \<in> blocks_of pg i" and "i < NCACHE"
  shows "\<exists>a. (a, i) \<in> pg \<and> span h (unat (cache_bsize i)) \<subseteq> block_addrs (a, 0)"
  using assms block_index by (fastforce simp: blocks_of_def block_addrs_def)

text \<open>What the invariant says of the pages: the page allocator owns them, no page serves two classes.\<close>

definition slab_pages :: "pmm \<Rightarrow> (u32 \<times> nat) set \<Rightarrow> (u32 \<times> nat) set \<Rightarrow> bool" where
  "slab_pages m pg big \<longleftrightarrow> pmm_owns m ((\<lambda>(a, i). (a, 0)) ` pg \<union> big)
     \<and> (\<forall>a i j. (a, i) \<in> pg \<longrightarrow> (a, j) \<in> pg \<longrightarrow> i = j)
     \<and> (\<forall>a i. (a, i) \<in> pg \<longrightarrow> i < NCACHE \<and> (a, 0) \<notin> big)"

lemma slab_pages_class: "slab_pages m pg big \<Longrightarrow> h \<in> blocks_of pg i \<Longrightarrow> i < NCACHE"
  by (auto simp: slab_pages_def blocks_of_def)

lemma block_unique:
  assumes pg: "slab_pages m pg big"
    and a: "(a, i) \<in> pg" "j < 4096 div unat (cache_bsize i)"
    and a': "(a', i') \<in> pg" "j' < 4096 div unat (cache_bsize i')"
    and x: "x \<in> span (a + of_nat j * cache_bsize i) (unat (cache_bsize i))"
      "x \<in> span (a' + of_nat j' * cache_bsize i') (unat (cache_bsize i'))"
  shows "a = a' \<and> i = i' \<and> j = j'"
proof -
  have i: "i < NCACHE" "i' < NCACHE" using pg a a' by (auto simp: slab_pages_def)
  note b = block_index [OF i(1) a(2) x(1)] block_index [OF i(2) a'(2) x(2)]
  let ?B = "(\<lambda>(a, i). (a, 0 :: nat)) ` pg \<union> big"
  have "(a, 0) \<in> ?B" "(a', 0) \<in> ?B" using a(1) a'(1) by force+
  then have "a = a'"
    using pg b pages.owns_disjoint [of m ?B "(a, 0)" "(a', 0)"]
    by (auto simp: slab_pages_def block_addrs_def)
  moreover from this have "i = i'" using pg a(1) a'(1) by (auto simp: slab_pages_def)
  ultimately show ?thesis using b by simp
qed

lemma blocks_apart:
  assumes pg: "slab_pages m pg big" and h: "h \<in> blocks_of pg i" and h': "h' \<in> blocks_of pg i'"
    and ne: "(h, i) \<noteq> (h', i')"
  shows "span h (unat (cache_bsize i)) \<inter> span h' (unat (cache_bsize i')) = {}"
  using h h' ne block_unique [OF pg] by (fastforce simp: blocks_of_def)

lemma cache_bsize_pos: "i < NCACHE \<Longrightarrow> 0 < unat (cache_bsize i)"
  by (simp add: cache_bsize_pow)

lemma block_class_unique:
  assumes pg: "slab_pages m pg big" and h: "h \<in> blocks_of pg i" and h': "h \<in> blocks_of pg i'"
  shows "i = i'"
  using blocks_apart [OF pg h h'] span_self [OF cache_bsize_pos [OF slab_pages_class [OF pg h]], of h]
    span_self [OF cache_bsize_pos [OF slab_pages_class [OF pg h']], of h] by auto

lemma block_big_apart:
  assumes pg: "slab_pages m pg big" and h: "h \<in> blocks_of pg i" and b: "b \<in> big"
  shows "span h (unat (cache_bsize i)) \<inter> block_addrs b = {}"
proof -
  obtain a where a: "(a, i) \<in> pg" "span h (unat (cache_bsize i)) \<subseteq> block_addrs (a, 0)"
    using block_in_page [OF h slab_pages_class [OF pg h]] by auto
  have "(a, 0) \<in> (\<lambda>(a, i). (a, 0 :: nat)) ` pg \<union> big" using a(1) by force
  moreover have "(a, 0) \<noteq> b" using pg a(1) b by (auto simp: slab_pages_def)
  ultimately have "block_addrs (a, 0) \<inter> block_addrs b = {}"
    using pg b pages.owns_disjoint [of m "(\<lambda>(a, i). (a, 0 :: nat)) ` pg \<union> big" "(a, 0)" b]
    by (simp add: slab_pages_def)
  with a(2) show ?thesis by auto
qed

section \<open>The free lists\<close>

definition freelists :: "snode list_heads \<Rightarrow> (nat \<Rightarrow> u32 list) \<Rightarrow> bool" where
  "freelists L fl \<longleftrightarrow> (\<forall>i < NCACHE. dlist L (CacheHead i) (map Blk (fl i)))
     \<and> (\<forall>i < NCACHE. \<forall>j < NCACHE. i \<noteq> j \<longrightarrow> set (fl i) \<inter> set (fl j) = {})"

definition total_free :: "(nat \<Rightarrow> u32 list) \<Rightarrow> nat" where
  "total_free fl = (\<Sum>i < NCACHE. length (fl i))"

lemma total_free_upd: "i < NCACHE \<Longrightarrow> total_free (fl(i := xs)) + length (fl i) = total_free fl + length xs"
proof -
  assume i: "i < NCACHE"
  have "(\<Sum>k \<in> {..<NCACHE} - {i}. length ((fl(i := xs)) k)) = (\<Sum>k \<in> {..<NCACHE} - {i}. length (fl k))"
    by (rule sum.cong) auto
  then show ?thesis
    using i sum.remove [of "{..<NCACHE}" i "\<lambda>k. length ((fl(i := xs)) k)"]
      sum.remove [of "{..<NCACHE}" i "\<lambda>k. length (fl k)"] by (simp add: total_free_def)
qed

lemma freelists_dlist: "freelists L fl \<Longrightarrow> i < NCACHE \<Longrightarrow> dlist L (CacheHead i) (map Blk (fl i))"
  by (simp add: freelists_def)

lemma freelists_step:
  assumes fl: "freelists L fl" and i: "i < NCACHE"
    and d: "dlist L' (CacheHead i) (map Blk xs)"
    and out: "same_links_outside (insert (Blk h) (insert (CacheHead i) (Blk ` set (fl i)))) L L'"
    and h: "\<And>k. k < NCACHE \<Longrightarrow> k \<noteq> i \<Longrightarrow> h \<notin> set (fl k)"
    and xs: "set xs \<subseteq> insert h (set (fl i))"
  shows "freelists L' (fl(i := xs))"
proof -
  have "dlist L' (CacheHead k) (map Blk (fl k))" if k: "k < NCACHE" "k \<noteq> i" for k
  proof -
    have "set (fl k) \<inter> set (fl i) = {}" using fl i k by (auto simp: freelists_def)
    then have "set (CacheHead k # map Blk (fl k)) \<inter> insert (Blk h) (insert (CacheHead i) (Blk ` set (fl i))) = {}"
      using h [OF k] k by auto
    from dlist_same_outside [OF out this] fl k show ?thesis by (simp add: freelists_def)
  qed
  moreover have "set xs \<inter> set (fl k) = {}" if k: "k < NCACHE" "k \<noteq> i" for k
  proof -
    have "set (fl i) \<inter> set (fl k) = {}" using fl i k by (auto simp: freelists_def)
    with h [OF k] xs show ?thesis by auto
  qed
  ultimately show ?thesis using d fl by (auto simp: freelists_def)
qed

lemma freelists_add:
  assumes fl: "freelists L fl" and i: "i < NCACHE" and h: "\<And>k. k < NCACHE \<Longrightarrow> h \<notin> set (fl k)"
  shows "freelists (list_add (Blk h) (CacheHead i) L) (fl(i := h # fl i))"
proof (rule freelists_step [OF fl i])
  show "dlist (list_add (Blk h) (CacheHead i) L) (CacheHead i) (map Blk (h # fl i))"
    using dlist_list_add [OF freelists_dlist [OF fl i], of "Blk h"] h [OF i] by auto
  show "same_links_outside (insert (Blk h) (insert (CacheHead i) (Blk ` set (fl i)))) L (list_add (Blk h) (CacheHead i) L)"
    using list_add_outside [OF freelists_dlist [OF fl i], of "Blk h"] by simp
qed (use h in auto)

lemma freelists_del:
  assumes fl: "freelists L fl" and i: "i < NCACHE" and h: "fl i = h # r"
  shows "freelists (list_del (Blk h) L) (fl(i := r))"
proof (rule freelists_step [OF fl i])
  note d = freelists_dlist [OF fl i]
  show "dlist (list_del (Blk h) L) (CacheHead i) (map Blk r)"
    using dlist_list_del [OF d, of "Blk h"] h by simp
  show "same_links_outside (insert (Blk h) (insert (CacheHead i) (Blk ` set (fl i)))) L (list_del (Blk h) L)"
    using list_del_outside [OF d, of "Blk h"] h by (simp add: insert_commute)
  show "h \<notin> set (fl k)" if "k < NCACHE" "k \<noteq> i" for k
    using fl i h that by (auto simp: freelists_def)
qed (use h in auto)

lemma freelists_INIT:
  assumes fl: "freelists L fl" and h: "\<And>k. k < NCACHE \<Longrightarrow> h \<notin> set (fl k)"
  shows "freelists (INIT_LIST_HEAD (Blk h) L) fl"
proof -
  have "dlist (INIT_LIST_HEAD (Blk h) L) (CacheHead k) (map Blk (fl k))" if k: "k < NCACHE" for k
  proof -
    have "set (CacheHead k # map Blk (fl k)) \<inter> {Blk h} = {}" using h [OF k] by auto
    from dlist_same_outside [OF INIT_LIST_HEAD_outside this] fl k show ?thesis by (simp add: freelists_def)
  qed
  with fl show ?thesis by (simp add: freelists_def)
qed


lemma refill_loop_ok:
  assumes "freelists (klinks sl) fl" and "i < NCACHE" and "nr_kfree sl = of_nat (total_free fl)"
    and "distinct (map (\<lambda>j. page + of_nat j * cache_bsize i) js)"
    and "\<forall>j \<in> set js. \<forall>k < NCACHE. page + of_nat j * cache_bsize i \<notin> set (fl k)"
  shows "\<exists>xs. set xs = (\<lambda>j. page + of_nat j * cache_bsize i) ` set js \<union> set (fl i)
    \<and> freelists (klinks (refill_loop page i js sl)) (fl(i := xs))
    \<and> nr_kfree (refill_loop page i js sl) = of_nat (total_free (fl(i := xs)))
    \<and> h_size (refill_loop page i js sl) = h_size sl \<and> h_magic (refill_loop page i js sl) = h_magic sl"
  using assms
proof (induction js arbitrary: sl fl)
  case Nil
  then show ?case by (intro exI [of _ "fl i"]) simp
next
  case (Cons j js)
  define h where "h = page + of_nat j * cache_bsize i"
  define fl' where "fl' = fl(i := h # fl i)"
  define sl' where "sl' = sl\<lparr>klinks := list_add (Blk h) (CacheHead i) (INIT_LIST_HEAD (Blk h) (klinks sl)),
    nr_kfree := nr_kfree sl + 1\<rparr>"
  have hn: "h \<notin> set (fl k)" if "k < NCACHE" for k using Cons.prems(5) that by (simp add: h_def)
  have f1: "freelists (klinks sl') fl'"
    using freelists_add [OF freelists_INIT [OF Cons.prems(1) hn] Cons.prems(2) hn] by (simp add: sl'_def fl'_def)
  have f2: "nr_kfree sl' = of_nat (total_free fl')"
    using total_free_upd [OF Cons.prems(2), of fl "h # fl i"] Cons.prems(3) by (simp add: sl'_def fl'_def)
  have f3: "\<forall>j' \<in> set js. \<forall>k < NCACHE. page + of_nat j' * cache_bsize i \<notin> set (fl' k)"
    using Cons.prems(4,5) by (auto simp: fl'_def h_def image_iff)
  have f4: "distinct (map (\<lambda>j. page + of_nat j * cache_bsize i) js)" using Cons.prems(4) by simp
  from Cons.IH [OF f1 Cons.prems(2) f2 f4 f3] obtain xs where xs: "set xs = (\<lambda>j. page + of_nat j * cache_bsize i) ` set js \<union> set (fl' i)"
    "freelists (klinks (refill_loop page i js sl')) (fl'(i := xs))"
    "nr_kfree (refill_loop page i js sl') = of_nat (total_free (fl'(i := xs)))"
    "h_size (refill_loop page i js sl') = h_size sl'" "h_magic (refill_loop page i js sl') = h_magic sl'"
    by (elim exE conjE) (rule that)
  have "refill_loop page i (j # js) sl = refill_loop page i js sl'"
    by (simp add: sl'_def h_def Let_def)
  moreover have "fl'(i := xs) = fl(i := xs)" by (simp add: fl'_def)
  moreover have "h_size sl' = h_size sl" "h_magic sl' = h_magic sl" "set (fl' i) = insert h (set (fl i))"
    by (simp_all add: sl'_def fl'_def)
  ultimately show ?case using xs by (intro exI [of _ xs]) (simp add: h_def del: fun_upd_apply)
qed

section \<open>The invariant of the heap\<close>

text \<open>
  \<open>pg\<close>: the pages cut into blocks, with their class; \<open>big\<close>: the blocks of whole pages handed out,
  with their order; \<open>live\<close>: the blocks handed out, with their class.
\<close>

definition heap_lists :: "slab \<Rightarrow> (u32 \<times> nat) set \<Rightarrow> (u32 \<times> nat) set \<Rightarrow> (nat \<Rightarrow> u32 list) \<Rightarrow> bool" where
  "heap_lists sl pg live fl \<longleftrightarrow> freelists (klinks sl) fl \<and> nr_kfree sl = of_nat (total_free fl)
     \<and> (\<forall>i < NCACHE. set (fl i) \<union> {h. (h, i) \<in> live} = blocks_of pg i \<and> set (fl i) \<inter> {h. (h, i) \<in> live} = {})"

definition heap_headers :: "slab \<Rightarrow> (u32 \<times> nat) set \<Rightarrow> (u32 \<times> nat) set \<Rightarrow> bool" where
  "heap_headers sl big live \<longleftrightarrow>
     (\<forall>h i. (h, i) \<in> live \<longrightarrow> i < NCACHE \<and> h_size sl h = cache_bsize i \<and> h_magic sl h = KMAGIC)
     \<and> (\<forall>h k. (h, k) \<in> big \<longrightarrow> k < MAX_ORDER \<and> h_size sl h = KFLAG_PAGE OR of_nat k \<and> h_magic sl h = KMAGIC)"

definition slab_inv :: "slab \<times> pmm \<Rightarrow> (u32 \<times> nat) set \<Rightarrow> (u32 \<times> nat) set \<Rightarrow> (u32 \<times> nat) set \<Rightarrow> bool" where
  "slab_inv st pg big live \<longleftrightarrow> slab_pages (snd st) pg big \<and> heap_headers (fst st) big live
     \<and> (\<exists>fl. heap_lists (fst st) pg live fl)"

text \<open>The bytes in use: header and payload of every block handed out.\<close>

definition kused :: "(u32 \<times> nat) set \<Rightarrow> (u32 \<times> nat) set \<Rightarrow> (u32 \<times> nat) set" where
  "kused big live = (\<lambda>(h, i). (h, unat (cache_bsize i))) ` live \<union> (\<lambda>(h, k). (h, 4096 * 2 ^ k)) ` big"

lemma live_block: "heap_lists sl pg live fl \<Longrightarrow> heap_headers sl big live \<Longrightarrow> (h, i) \<in> live \<Longrightarrow> h \<in> blocks_of pg i"
  by (auto simp: heap_lists_def heap_headers_def dest: spec [where x = i])

lemma headers_frame:
  assumes "heap_headers sl big live" and "\<And>i. (h, i) \<notin> live" and "\<And>k. (h, k) \<notin> big"
    and "\<And>x. x \<noteq> h \<Longrightarrow> h_size sl' x = h_size sl x \<and> h_magic sl' x = h_magic sl x"
  shows "heap_headers sl' big live"
proof -
  have "(x, i) \<in> live \<Longrightarrow> x \<noteq> h" "(x, i) \<in> big \<Longrightarrow> x \<noteq> h" for x i using assms(2,3) by auto
  with assms(1,4) show ?thesis by (simp add: heap_headers_def)
qed

lemma free_block_fresh:
  assumes pg: "slab_pages m pg big" and l: "heap_lists sl pg live fl" and hd: "heap_headers sl big live"
    and h: "h \<in> set (fl i)" "i < NCACHE"
  shows "(h, k) \<notin> live" and "(h, k) \<notin> big"
proof -
  have b: "h \<in> blocks_of pg i" using l h by (auto simp: heap_lists_def)
  show "(h, k) \<notin> live"
  proof
    assume k: "(h, k) \<in> live"
    then have "i = k" using block_class_unique [OF pg b live_block [OF l hd k]] by simp
    with k h l show False by (auto simp: heap_lists_def)
  qed
  show "(h, k) \<notin> big"
    using block_big_apart [OF pg b, of "(h, k)"] span_self [OF cache_bsize_pos [OF h(2)], of h] block_addrs_self [of h k]
    by blast
qed

lemma big_fresh:
  assumes pg: "slab_pages m pg big" and l: "heap_lists sl pg live fl" and hd: "heap_headers sl big live"
    and h: "(h, k) \<in> big"
  shows "(h, i) \<notin> live"
proof
  assume i: "(h, i) \<in> live"
  note b = live_block [OF l hd i]
  from block_big_apart [OF pg b h] span_self [OF cache_bsize_pos [OF slab_pages_class [OF pg b]], of h] block_addrs_self [of h k]
  show False by blast
qed


lemma slab_pages_insert:
  assumes pg: "slab_pages m pg big" and i: "i < NCACHE" and al: "alloc_pages 0 m = (Some a, m')"
  shows "slab_pages m' (insert (a, i) pg) big" and "(a, j) \<notin> pg"
proof -
  let ?B = "(\<lambda>(a, i). (a, 0 :: nat)) ` pg \<union> big"
  have "pmm_owns m ?B" using pg by (simp add: slab_pages_def)
  note o = pages.owns_alloc [OF this al]
  then show n: "(a, j) \<notin> pg" for j by force
  show "slab_pages m' (insert (a, i) pg) big"
    using o n pg i by (auto simp: slab_pages_def)
qed

lemma blocks_of_insert:
  "blocks_of (insert (a, i) pg) k =
     (if k = i then (\<lambda>j. a + of_nat j * cache_bsize i) ` {..<4096 div unat (cache_bsize i)} \<union> blocks_of pg i
      else blocks_of pg k)"
  by (auto simp: blocks_of_def)

lemma page_div_bsize: "unat (PGSIZE div cache_bsize i) = 4096 div unat (cache_bsize i)"
  by (simp add: unat_div layout_simps)

lemma cache_refill_ok:
  assumes inv: "slab_inv (sl, m) pg big live" and l: "heap_lists sl pg live fl" and i: "i < NCACHE"
    and r: "cache_refill i (sl, m) = Inr (sl', m')"
  shows "\<exists>a xs. slab_pages m' (insert (a, i) pg) big \<and> heap_headers sl' big live
    \<and> heap_lists sl' (insert (a, i) pg) live (fl(i := xs)) \<and> xs \<noteq> []"
proof -
  obtain a where al: "alloc_pages 0 m = (Some a, m')"
    and sl': "sl' = refill_loop a i [0..<4096 div unat (cache_bsize i)] sl"
    using r by (auto simp: cache_refill_def alloc_page_def page_div_bsize split: prod.splits option.splits)
  have pg: "slab_pages m pg big" and hd: "heap_headers sl big live" using inv by (auto simp: slab_inv_def)
  define n where "n = 4096 div unat (cache_bsize i)"
  define b where "b j = a + of_nat j * cache_bsize i" for j
  note pg' = slab_pages_insert [OF pg i al]
  have uniq: "b j = a' + of_nat j' * cache_bsize i' \<Longrightarrow> j < n \<Longrightarrow> (a', i') \<in> insert (a, i) pg
      \<Longrightarrow> j' < 4096 div unat (cache_bsize i') \<Longrightarrow> a = a' \<and> i = i' \<and> j = j'" for j a' i' j'
    using block_unique [OF pg'(1), of a i j a' i' j' "b j"] span_self [OF cache_bsize_pos]
      pg'(1) i by (auto simp: b_def n_def slab_pages_def)
  have fresh: "b j \<notin> blocks_of pg k" if "j < n" for j k
    using uniq [OF _ that] pg'(2) by (fastforce simp: blocks_of_def)
  have "\<exists>xs. set xs = b ` set [0..<n] \<union> set (fl i)
    \<and> freelists (klinks (refill_loop a i [0..<n] sl)) (fl(i := xs))
    \<and> nr_kfree (refill_loop a i [0..<n] sl) = of_nat (total_free (fl(i := xs)))
    \<and> h_size (refill_loop a i [0..<n] sl) = h_size sl \<and> h_magic (refill_loop a i [0..<n] sl) = h_magic sl"
    unfolding b_def
  proof (rule refill_loop_ok [OF _ i])
    show "freelists (klinks sl) fl" "nr_kfree sl = of_nat (total_free fl)" using l by (auto simp: heap_lists_def)
    show "distinct (map (\<lambda>j. a + of_nat j * cache_bsize i) [0..<n])"
      unfolding distinct_map using uniq by (fastforce simp: inj_on_def b_def n_def)
    show "\<forall>j \<in> set [0..<n]. \<forall>k < NCACHE. a + of_nat j * cache_bsize i \<notin> set (fl k)"
      using fresh l by (fastforce simp: b_def heap_lists_def)
  qed
  then obtain xs where xs: "set xs = b ` {..<n} \<union> set (fl i)"
    "freelists (klinks sl') (fl(i := xs))" "nr_kfree sl' = of_nat (total_free (fl(i := xs)))"
    "h_size sl' = h_size sl" "h_magic sl' = h_magic sl"
    unfolding sl' n_def [symmetric] by (auto simp: atLeast0LessThan)
  have nl: "b j \<notin> {h. (h, k) \<in> live}" if "j < n" for j k
    using fresh [OF that] live_block [OF l hd] by auto
  have li: "set (fl i) \<union> {h. (h, i) \<in> live} = blocks_of pg i" "set (fl i) \<inter> {h. (h, i) \<in> live} = {}"
    using l i by (auto simp: heap_lists_def)
  have "set xs \<union> {h. (h, i) \<in> live} = blocks_of (insert (a, i) pg) i"
    by (simp add: blocks_of_insert xs(1) li(1) [symmetric] Un_assoc flip: b_def n_def)
  moreover have "set xs \<inter> {h. (h, i) \<in> live} = {}" using li(2) nl by (auto simp: xs(1))
  ultimately have "heap_lists sl' (insert (a, i) pg) live (fl(i := xs))"
    using l xs(2,3) by (simp add: heap_lists_def blocks_of_insert)
  moreover have "0 < n" using i cache_bsize_pow [OF i] power_increasing [of i 6 "2::nat"]
    by (simp add: n_def div_greater_zero_iff NCACHE_def)
  then have "xs \<noteq> []" using xs(1) by auto
  moreover have "heap_headers sl' big live" using hd xs(4,5) by (simp add: heap_headers_def)
  ultimately show ?thesis using pg'(1) by blast
qed


section \<open>kmalloc and kfree keep the invariant\<close>

lemma nat_below_11: "k < MAX_ORDER \<Longrightarrow> k \<in> {0, 1, 2, 3, 4, 5, 6, 7, 8, 9, 10}"
  unfolding MAX_ORDER_def by (simp only: insert_iff empty_iff) arith

lemma page_flag:
  "k < MAX_ORDER \<Longrightarrow> (KFLAG_PAGE OR of_nat k) AND KFLAG_PAGE \<noteq> 0 \<and> unat ((KFLAG_PAGE OR of_nat k) AND NOT KFLAG_PAGE) = k"
  by (drule nat_below_11) (auto simp: KFLAG_PAGE_def)

lemma class_flag: "i < NCACHE \<Longrightarrow> cache_bsize i AND KFLAG_PAGE = 0"
proof -
  assume "i < NCACHE"
  then have "i \<in> {0, 1, 2, 3, 4, 5, 6}" by (auto simp: NCACHE_def)
  then show ?thesis by (auto simp: cache_bsize_def KFLAG_PAGE_def)
qed

lemma page_shift: "k < MAX_ORDER \<Longrightarrow> unat (push_bit k PGSIZE) = 4096 * 2 ^ k"
  by (drule nat_below_11) (auto simp: layout_simps)

lemma kmalloc_order_ok:
  "kmalloc_order bytes k = Inr k' \<Longrightarrow> k < MAX_ORDER \<Longrightarrow> k' < MAX_ORDER \<and> unat bytes \<le> 4096 * 2 ^ k'"
proof (induction bytes k rule: kmalloc_order.induct)
  case (1 bytes order)
  show ?case
  proof (cases "push_bit order PGSIZE < bytes")
    case True
    with 1 show ?thesis by (simp add: kmalloc_order.simps [of bytes order] split: if_splits)
  next
    case False
    with 1 page_shift [of order] show ?thesis
      by (simp add: kmalloc_order.simps [of bytes order] not_less word_le_nat_alt)
  qed
qed

lemma kmalloc_order_big:
  "k < MAX_ORDER \<Longrightarrow> unat bytes \<le> 4096 * 1024 \<Longrightarrow> \<exists>k'. kmalloc_order bytes k = Inr k'"
proof (induction bytes k rule: kmalloc_order.induct)
  case (1 bytes order)
  show ?case
  proof (cases "push_bit order PGSIZE < bytes")
    case True
    then have "4096 * 2 ^ order < (4096 * 1024 :: nat)"
      using 1(2,3) page_shift [of order] by (simp add: word_less_nat_alt)
    then have "(2::nat) ^ order < 2 ^ 10" by simp
    then have "order + 1 < MAX_ORDER" by (simp add: MAX_ORDER_def power_strict_increasing_iff del: power_numeral)
    with 1 True show ?thesis by (simp add: kmalloc_order.simps [of bytes order])
  qed (simp add: kmalloc_order.simps [of bytes order])
qed

lemma take_block_ok:
  assumes pg: "slab_pages m pg big" and l: "heap_lists sl pg live fl" and hd: "heap_headers sl big live"
    and i: "i < NCACHE" and h: "fl i = h # r"
    and sl': "sl' = sl\<lparr>klinks := list_del (Blk h) (klinks sl), nr_kfree := nr_kfree sl - 1,
      h_size := (h_size sl)(h := cache_bsize i), h_magic := (h_magic sl)(h := KMAGIC)\<rparr>"
  shows "slab_inv (sl', m) pg big (insert (h, i) live)" and "(h, i) \<notin> live" and "h \<in> blocks_of pg i"
proof -
  have hf: "h \<in> set (fl i)" using h by simp
  note fresh = free_block_fresh [OF pg l hd hf i]
  show "(h, i) \<notin> live" by (rule fresh(1))
  show b: "h \<in> blocks_of pg i" using l i hf by (auto simp: heap_lists_def)
  have fr: "freelists (klinks sl) fl" and nr: "nr_kfree sl = of_nat (total_free fl)"
    using l by (auto simp: heap_lists_def)
  have d: "h \<notin> set r" using freelists_dlist [OF fr i] h by (auto simp: dlist_def)
  have "total_free fl = total_free (fl(i := r)) + 1" using total_free_upd [OF i, of fl r] h by simp
  then have n: "nr_kfree sl' = of_nat (total_free (fl(i := r)))" using nr by (simp add: sl')
  have "set ((fl(i := r)) k) \<union> {x. (x, k) \<in> insert (h, i) live} = blocks_of pg k
      \<and> set ((fl(i := r)) k) \<inter> {x. (x, k) \<in> insert (h, i) live} = {}" if k: "k < NCACHE" for k
  proof (cases "k = i")
    case True
    have "set (fl i) \<union> {x. (x, i) \<in> live} = blocks_of pg i" "set (fl i) \<inter> {x. (x, i) \<in> live} = {}"
      using l i by (auto simp: heap_lists_def)
    with True h d show ?thesis by auto
  next
    case False
    then show ?thesis using l k by (simp add: heap_lists_def)
  qed
  then have "heap_lists sl' pg (insert (h, i) live) (fl(i := r))"
    using freelists_del [OF fr i h] n by (simp add: heap_lists_def sl')
  moreover have "heap_headers sl' big live"
    by (rule headers_frame [OF hd fresh]) (simp add: sl')
  then have "heap_headers sl' big (insert (h, i) live)" using i by (auto simp: heap_headers_def sl')
  ultimately show "slab_inv (sl', m) pg big (insert (h, i) live)" using pg by (auto simp: slab_inv_def)
qed

lemma kmalloc_small:
  assumes inv: "slab_inv st pg big live" and sz: "sz \<noteq> 0" "\<not> cache_bsize (NCACHE - 1) < sz + sizeof_khdr"
    and r: "kmalloc sz st = Inr (p, st')"
  shows "\<exists>pg' i h. p = Some (h + sizeof_khdr) \<and> slab_inv st' pg' big (insert (h, i) live) \<and> (h, i) \<notin> live
    \<and> h \<in> blocks_of pg' i \<and> i < NCACHE \<and> sz + sizeof_khdr \<le> cache_bsize i"
proof -
  obtain sl m where st: "st = (sl, m)" by (cases st)
  obtain fl where l: "heap_lists sl pg live fl" and pg: "slab_pages m pg big" and hd: "heap_headers sl big live"
    using inv by (auto simp: slab_inv_def st)
  obtain i where i: "cache_index (sz + sizeof_khdr) = Some i" using cache_index_total [OF sz(2)] by auto
  note ib = cache_index_Some [OF i]
  have "freelists (klinks sl) fl" using l by (simp add: heap_lists_def)
  note e = dlist_list_empty [OF freelists_dlist [OF this]]
  obtain sl1 m1 pg1 fl1 where s1: "(if list_empty (CacheHead i) (klinks sl) then cache_refill i (sl, m) else Inr (sl, m)) = Inr (sl1, m1)"
    and l1: "heap_lists sl1 pg1 live fl1" and pg1: "slab_pages m1 pg1 big" and hd1: "heap_headers sl1 big live"
    and ne: "fl1 i \<noteq> []"
  proof (cases "list_empty (CacheHead i) (klinks sl)")
    case True
    obtain sl1 m1 where c: "cache_refill i (sl, m) = Inr (sl1, m1)"
      using r sz i True by (auto simp: kmalloc_def st Let_def split: sum.splits)
    from cache_refill_ok [OF inv [unfolded st] l _ c] ib True that c show ?thesis by fastforce
  next
    case False
    with that l pg hd e [of i] ib show ?thesis by auto
  qed
  obtain h rs where h: "fl1 i = h # rs" using ne by (cases "fl1 i") auto
  have f: "list_first (CacheHead i) (klinks sl1) = Blk h"
    using dlist_list_first [OF freelists_dlist [of "klinks sl1" fl1 i]] l1 ib h by (simp add: heap_lists_def)
  define sl2 where "sl2 = sl1\<lparr>klinks := list_del (Blk h) (klinks sl1), nr_kfree := nr_kfree sl1 - 1,
      h_size := (h_size sl1)(h := cache_bsize i), h_magic := (h_magic sl1)(h := KMAGIC)\<rparr>"
  have "kmalloc sz st = Inr (Some (h + sizeof_khdr), sl2, m1)"
    using sz i s1 f by (simp add: kmalloc_def st Let_def sl2_def)
  with r have "p = Some (h + sizeof_khdr)" "st' = (sl2, m1)" by auto
  with take_block_ok [OF pg1 l1 hd1 _ h sl2_def] ib show ?thesis by blast
qed


lemma kmalloc_large:
  assumes inv: "slab_inv st pg big live" and sz: "sz \<noteq> 0" "cache_bsize (NCACHE - 1) < sz + sizeof_khdr"
    and r: "kmalloc sz st = Inr (Some p, st')"
  shows "\<exists>k h. p = h + sizeof_khdr \<and> slab_inv st' pg (insert (h, k) big) live \<and> (h, k) \<notin> big
    \<and> unat (PGROUNDUP (sz + sizeof_khdr)) \<le> 4096 * 2 ^ k"
proof -
  obtain sl m where st: "st = (sl, m)" by (cases st)
  obtain fl where l: "heap_lists sl pg live fl" and pg: "slab_pages m pg big" and hd: "heap_headers sl big live"
    using inv by (auto simp: slab_inv_def st)
  obtain k h m' where k: "kmalloc_order (PGROUNDUP (sz + sizeof_khdr)) 0 = Inr k" and al: "alloc_pages k m = (Some h, m')"
    and p: "p = h + sizeof_khdr"
    and st': "st' = (sl\<lparr>h_size := (h_size sl)(h := KFLAG_PAGE OR of_nat k), h_magic := (h_magic sl)(h := KMAGIC)\<rparr>, m')"
    using r sz by (auto simp: kmalloc_def st Let_def split: sum.splits prod.splits option.splits)
  have kb: "k < MAX_ORDER" "unat (PGROUNDUP (sz + sizeof_khdr)) \<le> 4096 * 2 ^ k"
    using kmalloc_order_ok [OF k] by (auto simp: MAX_ORDER_def)
  let ?B = "(\<lambda>(a, i). (a, 0 :: nat)) ` pg \<union> big"
  have "pmm_owns m ?B" using pg by (simp add: slab_pages_def)
  note o = pages.owns_alloc [OF this al]
  have np: "(h, 0) \<notin> (\<lambda>(a, i). (a, 0 :: nat)) ` pg" if "k = 0" using o that by auto
  have pg': "slab_pages m' pg (insert (h, k) big)"
    using pg o np by (force simp: slab_pages_def)
  have l': "heap_lists (fst st') pg live fl" using l by (simp add: heap_lists_def st')
  have nb: "(h, j) \<notin> big" for j
  proof
    assume j: "(h, j) \<in> big"
    with o have "(h, j) \<noteq> (h, k)" by auto
    then have "block_addrs (h, j) \<inter> block_addrs (h, k) = {}"
      using o j by (intro pages.owns_disjoint [of m' "insert (h, k) ?B"]) auto
    then show False using block_addrs_self by blast
  qed
  have nl: "(h, i) \<notin> live" for i
  proof
    assume i: "(h, i) \<in> live"
    note b = live_block [OF l hd i]
    have "span h (unat (cache_bsize i)) \<inter> block_addrs (h, k) = {}" by (rule block_big_apart [OF pg' b]) simp
    then show False using span_self [OF cache_bsize_pos [OF slab_pages_class [OF pg b]], of h] block_addrs_self [of h k] by blast
  qed
  have "heap_headers (fst st') big live"
    by (rule headers_frame [OF hd nl nb]) (simp add: st')
  then have "heap_headers (fst st') (insert (h, k) big) live" using kb(1) by (auto simp: heap_headers_def st')
  with pg' l' have "slab_inv st' pg (insert (h, k) big) live" by (auto simp: slab_inv_def st')
  then show ?thesis using p nb kb(2) by blast
qed

text \<open>Any two blocks in use are apart, header and payload.\<close>

lemma kused_apart:
  assumes inv: "slab_inv st pg big live" and u: "u \<in> kused big live" and v: "v \<in> kused big live" and ne: "fst u \<noteq> fst v"
  shows "span (fst u) (snd u) \<inter> span (fst v) (snd v) = {}"
proof -
  obtain fl where l: "heap_lists (fst st) pg live fl" and pg: "slab_pages (snd st) pg big" and hd: "heap_headers (fst st) big live"
    using inv by (auto simp: slab_inv_def)
  note lb = live_block [OF l hd]
  have bb: "block_addrs b \<inter> block_addrs c = {}" if "b \<in> big" "c \<in> big" "b \<noteq> c" for b c
    using pg that by (intro pages.owns_disjoint [of "snd st" "(\<lambda>(a, i). (a, 0 :: nat)) ` pg \<union> big"]) (auto simp: slab_pages_def)
  from u consider (ul) h i where "(h, i) \<in> live" "u = (h, unat (cache_bsize i))"
    | (ub) h k where "(h, k) \<in> big" "u = (h, 4096 * 2 ^ k)" by (auto simp: kused_def)
  then show ?thesis
  proof cases
    case ul
    from v consider (vl) h' i' where "(h', i') \<in> live" "v = (h', unat (cache_bsize i'))"
      | (vb) h' k where "(h', k) \<in> big" "v = (h', 4096 * 2 ^ k)" by (auto simp: kused_def)
    then show ?thesis
    proof cases
      case vl
      with ul ne show ?thesis using blocks_apart [OF pg lb lb] by simp
    next
      case vb
      with ul show ?thesis using block_big_apart [OF pg lb] by (simp add: span_block_addrs)
    qed
  next
    case ub
    from v consider (vl) h' i' where "(h', i') \<in> live" "v = (h', unat (cache_bsize i'))"
      | (vb) h' k' where "(h', k') \<in> big" "v = (h', 4096 * 2 ^ k')" by (auto simp: kused_def)
    then show ?thesis
    proof cases
      case vl
      with ub show ?thesis using block_big_apart [OF pg lb] by (simp add: span_block_addrs Int_commute)
    next
      case vb
      with ub ne show ?thesis using bb [of "(h, k)" "(h', k')"] by (simp add: span_block_addrs)
    qed
  qed
qed


lemma owned_aligned: "pmm_owns m B \<Longrightarrow> (a, k) \<in> B \<Longrightarrow> unat a mod 4096 = 0"
proof -
  assume "pmm_owns m B" and "(a, k) \<in> B"
  then obtain A i where inv: "pmm_inv m A" and i: "a = page_to_addr i m" "(i, k) \<in> A"
    by (auto simp: pmm_owns_def)
  have g: "pmm_geom m" using inv by (simp add: pmm_inv_def)
  have "i < unat (nr_pages m)" using pmm_inv_tiling [OF inv i(2)] less_le_trans [of i "i + 2 ^ k"] by (simp add: block_ok_def)
  from unat_page_to_addr [OF g this] g show ?thesis by (simp add: i(1) pmm_geom_def mod_add_eq [symmetric])
qed

lemma payload_not_null:
  assumes inv: "slab_inv st pg big live" and u: "(h, n) \<in> kused big live"
  shows "h + sizeof_khdr \<noteq> 0"
proof -
  obtain fl where l: "heap_lists (fst st) pg live fl" and pg: "slab_pages (snd st) pg big" and hd: "heap_headers (fst st) big live"
    using inv by (auto simp: slab_inv_def)
  have a: "unat a mod 4096 = 0" if "(a, i) \<in> pg \<or> (a, i) \<in> big" for a i
    using pg that by (intro owned_aligned [of "snd st" "(\<lambda>(a, i). (a, 0 :: nat)) ` pg \<union> big" a "if (a, i) \<in> pg then 0 else i"])
      (force simp: slab_pages_def)+
  have "unat h mod 32 = 0"
  proof (cases "\<exists>k. (h, k) \<in> big")
    case True
    then have "unat h mod 4096 = 0" using a by blast
    then have "(4096::nat) dvd unat h" by (simp add: dvd_eq_mod_eq_0)
    then have "32 dvd unat h" by (rule dvd_trans [rotated]) simp
    then show ?thesis by simp
  next
    case False
    then obtain i where i: "(h, i) \<in> live" using u by (auto simp: kused_def)
    note b = live_block [OF l hd i]
    then obtain a' j where j: "(a', i) \<in> pg" "h = a' + of_nat j * cache_bsize i" by (auto simp: blocks_of_def)
    have "cache_bsize i = of_nat (32 * 2 ^ i)" using arg_cong [OF cache_bsize_pow [OF slab_pages_class [OF pg b]], of "of_nat :: nat \<Rightarrow> u32"]
      by simp
    then have "h = of_nat (unat a' + 32 * (j * 2 ^ i))" using j(2) by simp
    then have "unat h = (unat a' + 32 * (j * 2 ^ i)) mod 2 ^ 32" by (simp only: unat_of_nat) simp
    then have "unat h mod 32 = (unat a' + 32 * (j * 2 ^ i)) mod 32" by (simp add: mod_mod_cancel)
    moreover have "(4096::nat) dvd unat a'" using a [of a' i] j(1) by (simp add: dvd_eq_mod_eq_0)
    then have "32 dvd unat a'" by (rule dvd_trans [rotated]) simp
    ultimately show ?thesis by (simp add: mod_eq_0_iff_dvd)
  qed
  moreover have "h + 16 = 0 \<Longrightarrow> h = 0xFFFFFFF0" by (simp add: eq_neg_iff_add_eq_0 [symmetric])
  ultimately show ?thesis by (auto simp: sizeof_khdr_def)
qed

lemma kfree_small:
  assumes inv: "slab_inv st pg big live" and h: "(h, i) \<in> live"
  shows "\<exists>st'. kfree (h + sizeof_khdr) st = Inr st' \<and> slab_inv st' pg big (live - {(h, i)}) \<and> h_magic (fst st') h = 0"
proof -
  obtain sl m where st: "st = (sl, m)" by (cases st)
  obtain fl where l: "heap_lists sl pg live fl" and pg: "slab_pages m pg big" and hd: "heap_headers sl big live"
    using inv by (auto simp: slab_inv_def st)
  have hh: "i < NCACHE" "h_size sl h = cache_bsize i" "h_magic sl h = KMAGIC" using hd h by (auto simp: heap_headers_def)
  have nz: "h + sizeof_khdr \<noteq> 0" using payload_not_null [OF inv] h by (force simp: kused_def)
  define sl' where "sl' = sl\<lparr>h_magic := (h_magic sl)(h := 0), klinks := list_add (Blk h) (CacheHead i) (klinks sl),
    nr_kfree := nr_kfree sl + 1\<rparr>"
  have k: "kfree (h + sizeof_khdr) st = Inr (sl', m)"
    using nz hh class_flag [OF hh(1)] cache_index_bsize [OF hh(1)] by (simp add: kfree_def st Let_def sl'_def)
  have fr: "freelists (klinks sl) fl" and nr: "nr_kfree sl = of_nat (total_free fl)"
    using l by (auto simp: heap_lists_def)
  have nf: "h \<notin> set (fl k)" if "k < NCACHE" for k
    using free_block_fresh(1) [OF pg l hd, of h k i] that h by auto
  have uq: "(h, k) \<in> live \<Longrightarrow> k = i" for k
    using block_class_unique [OF pg live_block [OF l hd h] live_block [OF l hd]] by blast
  have "heap_lists sl' pg (live - {(h, i)}) (fl(i := h # fl i))"
    unfolding heap_lists_def
  proof (intro conjI allI impI)
    show "freelists (klinks sl') (fl(i := h # fl i))" using freelists_add [OF fr hh(1) nf] by (simp add: sl'_def)
    show "nr_kfree sl' = of_nat (total_free (fl(i := h # fl i)))"
      using nr total_free_upd [OF hh(1), of fl "h # fl i"] by (simp add: sl'_def)
    fix k assume k: "k < NCACHE"
    have b: "set (fl k) \<union> {x. (x, k) \<in> live} = blocks_of pg k" "set (fl k) \<inter> {x. (x, k) \<in> live} = {}"
      using l k by (auto simp: heap_lists_def)
    show "set ((fl(i := h # fl i)) k) \<union> {x. (x, k) \<in> live - {(h, i)}} = blocks_of pg k"
      using b(1) h by auto
    show "set ((fl(i := h # fl i)) k) \<inter> {x. (x, k) \<in> live - {(h, i)}} = {}"
      using b(2) nf [OF k] by auto
  qed
  moreover have "heap_headers sl' big (live - {(h, i)})"
  proof (rule headers_frame [of sl _ _ h])
    show "heap_headers sl big (live - {(h, i)})" using hd by (auto simp: heap_headers_def)
    show "(h, k) \<notin> live - {(h, i)}" for k using uq by auto
    show "(h, k) \<notin> big" for k using big_fresh [OF pg l hd] h by auto
  qed (simp add: sl'_def)
  ultimately have "slab_inv (sl', m) pg big (live - {(h, i)})" using pg by (auto simp: slab_inv_def)
  with k show ?thesis by (auto simp: sl'_def)
qed

lemma kfree_large:
  assumes inv: "slab_inv st pg big live" and h: "(h, k) \<in> big"
  shows "\<exists>st'. kfree (h + sizeof_khdr) st = Inr st' \<and> slab_inv st' pg (big - {(h, k)}) live \<and> h_magic (fst st') h = 0"
proof -
  obtain sl m where st: "st = (sl, m)" by (cases st)
  obtain fl where l: "heap_lists sl pg live fl" and pg: "slab_pages m pg big" and hd: "heap_headers sl big live"
    using inv by (auto simp: slab_inv_def st)
  have hh: "k < MAX_ORDER" "h_size sl h = KFLAG_PAGE OR of_nat k" "h_magic sl h = KMAGIC" using hd h by (auto simp: heap_headers_def)
  have nz: "h + sizeof_khdr \<noteq> 0" using payload_not_null [OF inv] h by (force simp: kused_def)
  let ?B = "(\<lambda>(a, i). (a, 0 :: nat)) ` pg \<union> big"
  have ow: "pmm_owns m ?B" and hb: "(h, k) \<in> ?B" using pg h by (auto simp: slab_pages_def)
  from pages.owns_free [OF ow hb] obtain m' where m': "free_pages h k m = Inr m'" "pmm_owns m' (?B - {(h, k)})" by blast
  define sl' where "sl' = sl\<lparr>h_magic := (h_magic sl)(h := 0)\<rparr>"
  have kf: "kfree (h + sizeof_khdr) st = Inr (sl', m')"
    using nz hh page_flag [OF hh(1)] m'(1) by (simp add: kfree_def st Let_def sl'_def)
  have "(h, k) \<notin> (\<lambda>(a, i). (a, 0 :: nat)) ` pg" using pg h by (auto simp: slab_pages_def)
  then have "?B - {(h, k)} = (\<lambda>(a, i). (a, 0 :: nat)) ` pg \<union> (big - {(h, k)})" by auto
  then have pg': "slab_pages m' pg (big - {(h, k)})" using pg m'(2) by (auto simp: slab_pages_def)
  have uq: "j = k" if "(h, j) \<in> big" for j
    using pages.owns_disjoint [OF ow, of "(h, j)" "(h, k)"] that h block_addrs_self [of h] by blast
  have "heap_headers sl' (big - {(h, k)}) live"
  proof (rule headers_frame [of sl _ _ h])
    show "heap_headers sl (big - {(h, k)}) live" using hd by (auto simp: heap_headers_def)
    show "(h, j) \<notin> live" for j using big_fresh [OF pg l hd h] .
    show "(h, j) \<notin> big - {(h, k)}" for j using uq by auto
  qed (simp add: sl'_def)
  moreover have "heap_lists sl' pg live fl" using l by (simp add: heap_lists_def sl'_def)
  ultimately have "slab_inv (sl', m') pg (big - {(h, k)}) live" using pg' by (auto simp: slab_inv_def)
  with kf show ?thesis by (auto simp: sl'_def)
qed


lemma kused_insert:
  "kused big (insert (h, i) live) = insert (h, unat (cache_bsize i)) (kused big live)"
  "kused (insert (h, k) big) live = insert (h, 4096 * 2 ^ k) (kused big live)"
  by (auto simp: kused_def)

lemma kused_inj:
  assumes inv: "slab_inv st pg big live" and "(h, n) \<in> kused big live" "(h, n') \<in> kused big live"
  shows "(h, i) \<in> live \<Longrightarrow> (h, k) \<notin> big" and "(h, i) \<in> live \<Longrightarrow> (h, i') \<in> live \<Longrightarrow> i = i'"
    and "(h, k) \<in> big \<Longrightarrow> (h, k') \<in> big \<Longrightarrow> k = k'"
proof -
  obtain fl where l: "heap_lists (fst st) pg live fl" and pg: "slab_pages (snd st) pg big" and hd: "heap_headers (fst st) big live"
    using inv by (auto simp: slab_inv_def)
  show "(h, i) \<in> live \<Longrightarrow> (h, k) \<notin> big" using big_fresh [OF pg l hd] by blast
  show "(h, i) \<in> live \<Longrightarrow> (h, i') \<in> live \<Longrightarrow> i = i'"
    using block_class_unique [OF pg live_block [OF l hd] live_block [OF l hd]] by blast
  have "pmm_owns (snd st) ((\<lambda>(a, i). (a, 0 :: nat)) ` pg \<union> big)" using pg by (simp add: slab_pages_def)
  from pages.owns_disjoint [OF this, of "(h, k)" "(h, k')"] block_addrs_self [of h]
  show "(h, k) \<in> big \<Longrightarrow> (h, k') \<in> big \<Longrightarrow> k = k'" by blast
qed

lemma kmem_init_inv: "pmm_owns m {} \<Longrightarrow> slab_inv (kmem_init sl, m) {} {} {}"
  by (auto simp: slab_inv_def slab_pages_def heap_headers_def heap_lists_def freelists_def total_free_def blocks_of_def
      dlist_def kmem_init_def fold_INIT_LIST_HEAD intro!: exI [of _ "\<lambda>_. []"])

definition demo_heap :: "slab \<times> pmm" where
  "demo_heap = (kmem_init \<lparr>klinks = \<lparr>nxt = id, prv = id\<rparr>, nr_kfree = 0, h_size = \<lambda>_. 0, h_magic = \<lambda>_. 0\<rparr>, demo_pmm)"

lemma demo_heap: "slab_inv demo_heap {} {} {}"
  unfolding demo_heap_def using demo_pmm(2) by (intro kmem_init_inv) (auto simp: pmm_owns_def)

lemma kmalloc_fails:
  assumes inv: "slab_inv st pg big live" and r: "kmalloc sz st = Inl e"
  shows "(e = ''kmem: out of memory'' \<and> fst (alloc_pages 0 (snd st)) = None) \<or>
    (e = ''kmalloc: size too large'' \<and> 4096 * 1024 < unat (PGROUNDUP (sz + sizeof_khdr)))"
proof (cases "cache_bsize (NCACHE - 1) < sz + sizeof_khdr")
  case True
  have too: "kmalloc_order b k = Inl e' \<Longrightarrow> e' = ''kmalloc: size too large''" for b k e'
    by (induction b k rule: kmalloc_order.induct) (subst (asm) (2) kmalloc_order.simps, auto split: if_splits)
  have o: "kmalloc_order (PGROUNDUP (sz + sizeof_khdr)) 0 = Inl e"
    using r True by (auto simp: kmalloc_def Let_def split: if_splits sum.splits prod.splits option.splits)
  with kmalloc_order_big [of 0 "PGROUNDUP (sz + sizeof_khdr)"] too show ?thesis
    by (auto simp: MAX_ORDER_def not_le [symmetric])
next
  case False
  obtain sl m where st: "st = (sl, m)" by (cases st)
  obtain fl where l: "heap_lists sl pg live fl" using inv by (auto simp: slab_inv_def st)
  obtain i where i: "cache_index (sz + sizeof_khdr) = Some i" using cache_index_total [OF False] by auto
  have fr: "freelists (klinks sl) fl" using l by (simp add: heap_lists_def)
  show ?thesis
  proof (cases "list_empty (CacheHead i) (klinks sl)")
    case True
    show ?thesis
    proof (cases "cache_refill i (sl, m)")
      case (Inl e')
      with r False i True show ?thesis
        by (auto simp: kmalloc_def st Let_def cache_refill_def alloc_page_def split: if_splits prod.splits option.splits)
    next
      case (Inr st1)
      obtain sl1 m1 where s1: "st1 = (sl1, m1)" by (cases st1)
      from cache_refill_ok [OF inv [unfolded st] l _ Inr [unfolded s1]] cache_index_Some [OF i]
      obtain a xs where "heap_lists sl1 (insert (a, i) pg) live (fl(i := xs))" "xs \<noteq> []" by blast
      then have "list_first (CacheHead i) (klinks sl1) = Blk (hd xs)"
        using dlist_list_first [OF freelists_dlist [of "klinks sl1" "fl(i := xs)" i]] cache_index_Some [OF i]
        by (simp add: heap_lists_def hd_map)
      with r False i True Inr show ?thesis by (simp add: kmalloc_def st s1 Let_def split: if_splits)
    qed
  next
    case ne: False
    then have "fl i \<noteq> []" using dlist_list_empty [OF freelists_dlist [OF fr]] cache_index_Some [OF i] by auto
    then have "list_first (CacheHead i) (klinks sl) = Blk (hd (fl i))"
      using dlist_list_first [OF freelists_dlist [OF fr]] cache_index_Some [OF i] by (simp add: hd_map)
    with r False i ne show ?thesis by (simp add: kmalloc_def st Let_def split: if_splits)
  qed
qed


text \<open>The header of a block just allocated lets \<open>kfree\<close> take it back, whatever happened to memory since.\<close>

lemma kmalloc_kfree_small:
  assumes k: "kmalloc sz st = Inr (Some p, st')" and i: "cache_index (sz + sizeof_khdr) = Some i"
    and le: "sz + sizeof_khdr \<le> cache_bsize (NCACHE - 1)"
  shows "\<exists>st''. kfree p (fst st', m) = Inr st''"
proof -
  have sz: "sz \<noteq> 0" using k by (auto simp: kmalloc_def)
  let ?r = "if list_empty (CacheHead i) (klinks (fst st)) then cache_refill i st else Inr st"
  have k': "(case ?r of
      Inl e \<Rightarrow> Inl e
    | Inr (sl, m) \<Rightarrow>
        (case list_first (CacheHead i) (klinks sl) of
           CacheHead _ \<Rightarrow> Inl ''list_first_entry''
         | Blk h \<Rightarrow>
             Inr (Some (h + sizeof_khdr),
               sl\<lparr>klinks := list_del (Blk h) (klinks sl), nr_kfree := nr_kfree sl - 1,
                  h_size := (h_size sl)(h := cache_bsize i), h_magic := (h_magic sl)(h := KMAGIC)\<rparr>, m)))
      = Inr (Some p, st')"
    using k i le sz by (simp add: kmalloc_def not_less [symmetric])
  obtain r where r: "?r = Inr r" using k' by (cases ?r) auto
  obtain h where h: "list_first (CacheHead i) (klinks (fst r)) = Blk h"
    using k' unfolding r by (cases r; cases "list_first (CacheHead i) (klinks (fst r))") auto
  have p: "p - sizeof_khdr = h" "h_magic (fst st') h = KMAGIC" "h_size (fst st') h = cache_bsize i"
    using k' h unfolding r by (cases r, auto)+
  have "i < NCACHE" using cache_index_Some [OF i] by simp
  then show ?thesis using p class_flag [of i] cache_index_bsize [of i] by (simp add: kfree_def Let_def)
qed

lemma demo_kmalloc: "\<exists>p st'. kmalloc 100 demo_heap = Inr (Some p, st')" "\<exists>p st'. kmalloc (- 8) demo_heap = Inr (Some p, st')"
  "\<exists>p st'. kmalloc 280 demo_heap = Inr (Some p, st')"
proof -
  have c: "\<exists>p st'. kmalloc sz demo_heap = Inr (Some p, st')"
    if "sz \<noteq> 0" "\<not> cache_bsize (NCACHE - 1) < sz + sizeof_khdr" "unat (PGROUNDUP (sz + sizeof_khdr)) \<le> 4096 * 1024" for sz
  proof -
    have "\<exists>a s'. alloc_pages 0 demo_pmm = (Some a, s')"
      by (rule alloc_block_complete [OF demo_pmm(2), of _ 0]) (simp_all add: demo_pmm(3) block_ok_def MAX_ORDER_def)
    then have "kmalloc sz demo_heap \<noteq> Inl e" for e
      using kmalloc_fails [OF demo_heap, of sz e] that(3) by (auto simp: demo_heap_def)
    then obtain r where r: "kmalloc sz demo_heap = Inr r" by (cases "kmalloc sz demo_heap") auto
    then show ?thesis using kmalloc_small [OF demo_heap that(1,2), of "fst r" "snd r"] by (cases r) auto
  qed
  show "\<exists>p st'. kmalloc 100 demo_heap = Inr (Some p, st')" "\<exists>p st'. kmalloc (- 8) demo_heap = Inr (Some p, st')"
    "\<exists>p st'. kmalloc 280 demo_heap = Inr (Some p, st')"
    by (intro c; simp add: cache_bsize_def NCACHE_def sizeof_khdr_def PGROUNDUP_def layout_simps)+
qed

section \<open>Properties\<close>

lemma kmalloc_block:
  assumes "slab_inv st pg big live" and "kmalloc sz st = Inr (Some p, st')" and "unat sz + 16 + 4095 < 2 ^ 32"
  shows "\<exists>pg' big' live' h n. p = h + sizeof_khdr \<and> slab_inv st' pg' big' live'
    \<and> kused big' live' = insert (h, n) (kused big live) \<and> unat sz + 16 \<le> n
    \<and> (\<forall>u \<in> kused big live. span h n \<inter> span (fst u) (snd u) = {})"
proof -
  have sz0: "sz \<noteq> 0" using assms(2) by (auto simp: kmalloc_def)
  have need: "unat (sz + sizeof_khdr) = unat sz + 16"
    using assms(3) by (simp add: unat_word_ariths sizeof_khdr_def)
  obtain pg' big' live' h n where h: "p = h + sizeof_khdr" "slab_inv st' pg' big' live'"
    "kused big' live' = insert (h, n) (kused big live)" "unat sz + 16 \<le> n"
    "\<forall>u \<in> kused big live. fst u \<noteq> h"
  proof (cases "cache_bsize (NCACHE - 1) < sz + sizeof_khdr")
    case True
    from kmalloc_large [OF assms(1) sz0 True assms(2)] obtain k h where
      k: "p = h + sizeof_khdr" "slab_inv st' pg (insert (h, k) big) live" "(h, k) \<notin> big"
        "unat (PGROUNDUP (sz + sizeof_khdr)) \<le> 4096 * 2 ^ k" by blast
    have "unat sz + 16 \<le> unat (PGROUNDUP (sz + sizeof_khdr))"
      using need assms(3) by (simp add: unat_PGROUNDUP)
    moreover have "fst u \<noteq> h" if "u \<in> kused big live" for u
    proof
      assume "fst u = h"
      with that have "(h, snd u) \<in> kused (insert (h, k) big) live" by (auto simp: kused_insert)
      note ui = kused_inj [OF k(2) this this]
      from that \<open>fst u = h\<close> obtain b where "(h, b) \<in> live \<or> (h, b) \<in> big" by (cases u) (auto simp: kused_def)
      with ui(1) [of b k] ui(3) [of b k] k(3) show False by auto
    qed
    ultimately show ?thesis using that [OF k(1,2) kused_insert(2)] k(4) by simp
  next
    case False
    from kmalloc_small [OF assms(1) sz0 False assms(2)] obtain pg' i h where
      k: "p = h + sizeof_khdr" "slab_inv st' pg' big (insert (h, i) live)" "(h, i) \<notin> live"
        "sz + sizeof_khdr \<le> cache_bsize i" by blast
    have "fst u \<noteq> h" if "u \<in> kused big live" for u
    proof
      assume "fst u = h"
      with that have "(h, snd u) \<in> kused big (insert (h, i) live)" by (auto simp: kused_insert)
      note ui = kused_inj [OF k(2) this this]
      from that \<open>fst u = h\<close> obtain b where "(h, b) \<in> live \<or> (h, b) \<in> big" by (cases u) (auto simp: kused_def)
      with ui(1) [of i b] ui(2) [of b i] k(3) show False by auto
    qed
    then show ?thesis using that [OF k(1,2) kused_insert(1)] k(4) need by (simp add: word_le_nat_alt)
  qed
  then have "span h n \<inter> span (fst u) (snd u) = {}" if "u \<in> kused big live" for u
    using kused_apart [OF h(2), of "(h, n)" u] that h(3) by auto
  with h show ?thesis by blast
qed

text \<open>C10: a block that \<open>kmalloc\<close> returns has room for the header and the requested bytes, and neither its
  header nor its payload shares a byte with any block in use; the heap's invariant holds with the
  block added, whether it was cut from a page of its size class or is a run of whole pages. The size
  must leave room for the header and for rounding up to a page below \<open>2^32\<close>.\<close>

theorem kmalloc_ok:
  assumes "slab_inv st pg big live" and "kmalloc sz st = Inr (Some p, st')" and "unat sz + 16 + 4095 < 2 ^ 32"
  shows "\<exists>pg' big' live' h n. p = h + sizeof_khdr \<and> slab_inv st' pg' big' live'
    \<and> kused big' live' = insert (h, n) (kused big live) \<and> unat sz + 16 \<le> n
    \<and> (\<forall>u \<in> kused big live. span h n \<inter> span (fst u) (snd u) = {})"
  by (rule kmalloc_block [OF assms])

theorem kmalloc_ok_witness:
  "\<exists>p st' pg' big' live' n. kmalloc 100 demo_heap = Inr (Some p, st') \<and> slab_inv st' pg' big' live'
    \<and> kused big' live' = {(p - sizeof_khdr, n)} \<and> 116 \<le> n"
proof -
  obtain p st' where k: "kmalloc 100 demo_heap = Inr (Some p, st')" using demo_kmalloc(1) by blast
  from kmalloc_ok [OF demo_heap k] obtain pg' big' live' h n where
    "p = h + sizeof_khdr" "slab_inv st' pg' big' live'" "kused big' live' = insert (h, n) (kused {} {})" "116 \<le> n"
    by auto
  then have "kused big' live' = {(p - sizeof_khdr, n)}" by (simp add: kused_def)
  with k \<open>slab_inv st' pg' big' live'\<close> \<open>116 \<le> n\<close> show ?thesis by blast
qed

lemma kfree_block:
  assumes "slab_inv st pg big live" and "(h, n) \<in> kused big live"
  shows "\<exists>st' big' live'. kfree (h + sizeof_khdr) st = Inr st' \<and> slab_inv st' pg big' live'
    \<and> kused big' live' = kused big live - {(h, n)} \<and> kfree (h + sizeof_khdr) st' = Inl ''kfree: bad magic''"
proof -
  note ui = kused_inj [OF assms(1,2,2)]
  note nz = payload_not_null [OF assms]
  have bad: "kfree (h + sizeof_khdr) st' = Inl ''kfree: bad magic''" if "h_magic (fst st') h = 0" for st'
    using nz that by (simp add: kfree_def Let_def KMAGIC_def)
  from assms(2) consider (small) i where "(h, i) \<in> live" "n = unat (cache_bsize i)"
    | (large) k where "(h, k) \<in> big" "n = 4096 * 2 ^ k" by (auto simp: kused_def)
  then show ?thesis
  proof cases
    case small
    from kfree_small [OF assms(1) small(1)] obtain st' where
      s: "kfree (h + sizeof_khdr) st = Inr st'" "slab_inv st' pg big (live - {(h, i)})" "h_magic (fst st') h = 0" by blast
    have "kused big (live - {(h, i)}) = kused big live - {(h, n)}"
      using small ui(1,2) by (fastforce simp: kused_def)
    with s bad show ?thesis by blast
  next
    case large
    from kfree_large [OF assms(1) large(1)] obtain st' where
      s: "kfree (h + sizeof_khdr) st = Inr st'" "slab_inv st' pg (big - {(h, k)}) live" "h_magic (fst st') h = 0" by blast
    have "kused (big - {(h, k)}) live = kused big live - {(h, n)}"
      using large ui(1,3) by (fastforce simp: kused_def)
    with s bad show ?thesis by blast
  qed
qed

text \<open>C11: \<open>kfree\<close> of a block in use never panics, it takes exactly that block out of use, all others
  keep theirs, and the invariant holds; freeing the same pointer once more is caught and panics with
  a bad magic number.\<close>

theorem kfree_ok:
  assumes "slab_inv st pg big live" and "(h, n) \<in> kused big live"
  shows "\<exists>st' big' live'. kfree (h + sizeof_khdr) st = Inr st' \<and> slab_inv st' pg big' live'
    \<and> kused big' live' = kused big live - {(h, n)} \<and> kfree (h + sizeof_khdr) st' = Inl ''kfree: bad magic''"
  by (rule kfree_block [OF assms])

theorem kfree_ok_witness:
  "\<exists>p st' st''. kmalloc 100 demo_heap = Inr (Some p, st') \<and> kfree p st' = Inr st'' \<and> kfree p st'' = Inl ''kfree: bad magic''"
proof -
  obtain p st' where k: "kmalloc 100 demo_heap = Inr (Some p, st')" using demo_kmalloc(1) by blast
  have "\<exists>pg' i h. Some p = Some (h + sizeof_khdr) \<and> slab_inv st' pg' {} (insert (h, i) {}) \<and> (h, i) \<notin> {}
    \<and> h \<in> blocks_of pg' i \<and> i < NCACHE \<and> 100 + sizeof_khdr \<le> cache_bsize i"
    by (rule kmalloc_small [OF demo_heap _ _ k]) (simp_all add: cache_bsize_def NCACHE_def sizeof_khdr_def)
  then obtain pg' i h where h: "p = h + sizeof_khdr" "slab_inv st' pg' {} {(h, i)}" by auto
  from kfree_ok [OF h(2), of h "unat (cache_bsize i)"] h(1) k show ?thesis by (auto simp: kused_def)
qed

text \<open>C39: the size of a request is added to the header's without a check: a request within 16 bytes of
  \<open>2^32\<close> wraps around and is served with a block of the smallest class, 32 bytes.\<close>

theorem kmalloc_size_wraps:
  assumes "slab_inv st pg big live" and "kmalloc sz st = Inr (Some p, st')" and "2 ^ 32 - 16 < unat sz"
  shows "h_size (fst st') (p - sizeof_khdr) = 32"
proof -
  have "unat (sz + sizeof_khdr) = unat sz + 16 - 2 ^ 32"
    using assms(3) unat_u32 [of sz] by (simp add: unat_word_ariths sizeof_khdr_def mod_if)
  then have need: "sz + sizeof_khdr \<le> 32" using unat_u32 [of sz] by (simp add: word_le_nat_alt)
  have "cache_index (sz + sizeof_khdr) = Some 0"
    using need by (simp add: cache_index_def find_upt_Some cache_bsize_def NCACHE_def)
  moreover have "\<not> cache_bsize (NCACHE - 1) < sz + sizeof_khdr"
    using need by (simp add: cache_bsize_def NCACHE_def word_less_nat_alt word_le_nat_alt)
  moreover have "sz \<noteq> 0" using assms(3) by auto
  ultimately have k: "(case (if list_empty (CacheHead 0) (klinks (fst st)) then cache_refill 0 st else Inr st) of
      Inl e \<Rightarrow> Inl e
    | Inr (sl, m) \<Rightarrow>
        (case list_first (CacheHead 0) (klinks sl) of
           CacheHead _ \<Rightarrow> Inl ''list_first_entry''
         | Blk h \<Rightarrow>
             Inr (Some (h + sizeof_khdr),
               sl\<lparr>klinks := list_del (Blk h) (klinks sl), nr_kfree := nr_kfree sl - 1,
                  h_size := (h_size sl)(h := cache_bsize 0), h_magic := (h_magic sl)(h := KMAGIC)\<rparr>, m)))
      = Inr (Some p, st')"
    using assms(2) by (simp add: kmalloc_def)
  obtain r where r: "(if list_empty (CacheHead 0) (klinks (fst st)) then cache_refill 0 st else Inr st) = Inr r"
    using k by (cases "if list_empty (CacheHead 0) (klinks (fst st)) then cache_refill 0 st else Inr st") auto
  obtain h where "list_first (CacheHead 0) (klinks (fst r)) = Blk h"
    using k unfolding r by (cases r; cases "list_first (CacheHead 0) (klinks (fst r))") auto
  with k show ?thesis unfolding r by (cases r) (auto simp: cache_bsize_def)
qed

theorem kmalloc_size_wraps_witness:
  "\<exists>p st'. kmalloc (- 8) demo_heap = Inr (Some p, st') \<and> h_size (fst st') (p - sizeof_khdr) = 32"
proof -
  obtain p st' where k: "kmalloc (- 8) demo_heap = Inr (Some p, st')" using demo_kmalloc(2) by blast
  with kmalloc_size_wraps [OF demo_heap k] show ?thesis by simp
qed

end
