(* ===== verification/Proc_Types.thy ===== *)
theory Proc_Types
  imports Slab
begin

text \<open>
  The process structures of src/arch/x86/kernel/proc.h and trap.h and the state of the scheduler.

  A process is its index in \<open>proc_table\<close>; a null pointer to a process, an address space, a file or an
  inode is \<open>None\<close>. \<open>kframe\<close> is the address of a trap frame on the kernel stack with its contents, \<open>sigold\<close> that of the
  saved one on the heap. An address space belongs to one process, so it is part of it; \<open>mm_at\<close> is the
  address of its structure on the heap. The fields for the floating-point unit are in the theory \<open>Fpu\<close>. Sleep channels are
  addresses of kernel objects in the source; here each kind of object has a constructor. The record
  \<open>sched\<close> holds the global variables of proc.c and task_queue.c; the components that add state of
  their own extend it.
\<close>

section \<open>Constants\<close>

definition NPROC :: nat where "NPROC = 64"
definition NOFILE :: nat where "NOFILE = 256"
definition NVMA :: nat where "NVMA = 64"
definition NSIG :: nat where "NSIG = 32"
definition NNAME :: nat where "NNAME = 256"
definition KSTACKSIZE :: u32 where "KSTACKSIZE = PGSIZE"

section \<open>Data of a process\<close>

record vma =
  v_used :: bool
  v_start :: u32
  v_end :: u32
  v_prot :: u32
  v_flags :: u32

definition vma_shmid :: "vma \<Rightarrow> int" where
  "vma_shmid v =
     (if \<not> v_used v then - 1
      else let id = drop_bit 16 (v_flags v) AND 0xffff
           in if id \<noteq> 0 then int (unat (id - 1)) else - 1)"

definition vma_flags_with_shmid :: "u32 \<Rightarrow> int \<Rightarrow> u32" where
  "vma_flags_with_shmid flags shmid =
     (let flags = flags AND 0xffff
      in if 0 \<le> shmid then flags OR push_bit 16 (word_of_int (shmid + 1) AND 0xffff) else flags)"

record mm_struct =
  mm_at :: u32
  pgdir :: u32
  user_base :: u32
  task_size :: u32
  mmap_base :: u32
  stack_top :: u32
  brk :: u32
  brk_start :: u32
  vmas :: "nat \<Rightarrow> vma"

datatype procstate = UNUSED | USED | SLEEPING | RUNNABLE | RUNNING | ZOMBIE

record proc_context =
  c_eip :: u32
  c_esp :: u32
  c_ebx :: u32
  c_esi :: u32
  c_edi :: u32
  c_ebp :: u32

definition zero_context :: proc_context where
  "zero_context = \<lparr>c_eip = 0, c_esp = 0, c_ebx = 0, c_esi = 0, c_edi = 0, c_ebp = 0\<rparr>"

record trapframe =
  tf_edi :: u32
  tf_esi :: u32
  tf_ebp :: u32
  tf_oesp :: u32
  tf_ebx :: u32
  tf_edx :: u32
  tf_ecx :: u32
  tf_eax :: u32
  tf_ds :: u32
  tf_err :: u32
  tf_eip :: u32
  tf_cs :: u32
  tf_eflags :: u32
  tf_esp :: u32
  tf_ss :: u32

datatype chan =
    ChProc nat
  | ChKthreadList
  | ChInfo nat
  | ChPipeRead u32
  | ChPipeWrite u32
  | ChPipeReaders u32
  | ChPipeWriters u32
  | ChFutex u32
  | ChConsole
  | ChInode nat

record proc =
  state :: procstate
  pid :: int
  parent :: "nat option"
  chan :: "chan option"
  wakeup_tick :: u32
  killed :: bool
  xstate :: int
  mm :: "mm_struct option"
  kframe :: "(u32 \<times> trapframe) option"
  ctx :: proc_context
  kstack :: u32
  entry :: u32
  entry_arg :: u32
  p_name :: string
  ofile :: "nat \<Rightarrow> nat option"
  fdflags :: "nat \<Rightarrow> u8"
  cwd :: "nat option"
  sigpending :: u32
  sigmasked :: u32
  sighand :: "nat \<Rightarrow> u32"
  sigold :: "(u32 \<times> trapframe) option"
  sighandling :: bool

text \<open>A process structure after \<open>memset(p, 0, sizeof(*p))\<close>; \<open>UNUSED\<close> is the state with value 0.\<close>

definition zero_proc :: proc where
  "zero_proc = \<lparr>state = UNUSED, pid = 0, parent = None, chan = None, wakeup_tick = 0, killed = False,
     xstate = 0, mm = None, kframe = None, ctx = zero_context, kstack = 0, entry = 0, entry_arg = 0,
     p_name = [], ofile = (\<lambda>_. None), fdflags = (\<lambda>_. 0), cwd = None, sigpending = 0,
     sigmasked = 0, sighand = (\<lambda>_. 0), sigold = None, sighandling = False\<rparr>"

definition proc_pagetable :: "proc \<Rightarrow> u32" where
  "proc_pagetable p = (case mm p of Some m \<Rightarrow> pgdir m | None \<Rightarrow> 0)"

definition proc_task_size :: "proc \<Rightarrow> u32" where
  "proc_task_size p = (case mm p of Some m \<Rightarrow> task_size m | None \<Rightarrow> 0)"

definition proc_user_base :: "proc \<Rightarrow> u32" where
  "proc_user_base p = (case mm p of Some m \<Rightarrow> user_base m | None \<Rightarrow> USERLOAD)"

definition proc_brk :: "proc \<Rightarrow> u32" where
  "proc_brk p = (case mm p of Some m \<Rightarrow> brk m | None \<Rightarrow> USERLOAD)"

definition proc_brk_start :: "proc \<Rightarrow> u32" where
  "proc_brk_start p = (case mm p of Some m \<Rightarrow> brk_start m | None \<Rightarrow> USERLOAD)"

section \<open>State of the scheduler\<close>

datatype rqnode = RunHead | ProcNode nat

record cpu =
  c_proc :: "nat option"
  c_last_sched :: "nat option"
  c_need_resched :: bool
  c_noff :: int
  c_user_pgdir :: u32

record sched =
  ptab :: "nat \<Rightarrow> proc"
  rq :: "rqnode list_heads"
  nextpid :: int
  initproc :: "nat option"
  kthreadd_task :: "nat option"
  cpus :: "nat \<Rightarrow> cpu"
  ticks :: u32
  fg_pid :: int
  kmem :: pmm
  kslab :: slab

definition upd_proc :: "nat \<Rightarrow> (proc \<Rightarrow> proc) \<Rightarrow> 'z sched_scheme \<Rightarrow> 'z sched_scheme" where
  "upd_proc p f s = s\<lparr>ptab := (ptab s)(p := f (ptab s p))\<rparr>"

definition upd_cpu :: "nat \<Rightarrow> (cpu \<Rightarrow> cpu) \<Rightarrow> 'z sched_scheme \<Rightarrow> 'z sched_scheme" where
  "upd_cpu c f s = s\<lparr>cpus := (cpus s)(c := f (cpus s c))\<rparr>"

definition myproc :: "nat \<Rightarrow> 'z sched_scheme \<Rightarrow> nat option" where
  "myproc c s = c_proc (cpus s c)"

lemma upd_proc_simps [simp]:
  "ptab (upd_proc p f s) q = (if q = p then f (ptab s p) else ptab s q)"
  "rq (upd_proc p f s) = rq s" "nextpid (upd_proc p f s) = nextpid s"
  "initproc (upd_proc p f s) = initproc s" "kthreadd_task (upd_proc p f s) = kthreadd_task s"
  "cpus (upd_proc p f s) = cpus s" "ticks (upd_proc p f s) = ticks s" "fg_pid (upd_proc p f s) = fg_pid s"
  "kmem (upd_proc p f s) = kmem s" "kslab (upd_proc p f s) = kslab s"
  by (simp_all add: upd_proc_def)

lemma upd_cpu_simps [simp]:
  "cpus (upd_cpu c f s) d = (if d = c then f (cpus s c) else cpus s d)"
  "ptab (upd_cpu c f s) = ptab s" "rq (upd_cpu c f s) = rq s" "nextpid (upd_cpu c f s) = nextpid s"
  "initproc (upd_cpu c f s) = initproc s" "kthreadd_task (upd_cpu c f s) = kthreadd_task s"
  "ticks (upd_cpu c f s) = ticks s" "fg_pid (upd_cpu c f s) = fg_pid s" "kmem (upd_cpu c f s) = kmem s"
  "kslab (upd_cpu c f s) = kslab s"
  by (simp_all add: upd_cpu_def)

section \<open>The shared memory id in the flags of a VMA\<close>

lemma half_mask: "(0xffff :: u32) = mask 16"
  by (simp add: mask_eq_exp_minus_1)

lemma shmid_halves:
  fixes x w :: u32
  shows "drop_bit 16 ((x AND mask 16) OR push_bit 16 (w AND mask 16)) AND mask 16 = w AND mask 16"
    and "((x AND mask 16) OR push_bit 16 (w AND mask 16)) AND mask 16 = x AND mask 16"
    and "drop_bit 16 (x AND mask 16) AND mask 16 = 0"
  by (rule bit_eqI; auto simp: bit_simps)+

text \<open>A shared memory id stored in the flags of a VMA is read back, and the mapping flags in the low
  half are kept; an id of -1 means that the VMA is not a shared memory mapping.\<close>

theorem vma_shmid_roundtrip:
  assumes "v_used v" and "v_flags v = vma_flags_with_shmid flags shmid" and "- 1 \<le> shmid" and "shmid < 0xffff"
  shows "vma_shmid v = shmid \<and> v_flags v AND 0xffff = flags AND 0xffff"
proof (cases "0 \<le> shmid")
  case True
  let ?w = "word_of_int (shmid + 1) :: u32"
  have "?w = of_nat (nat (shmid + 1))" using True by simp
  then have u: "unat ?w = nat (shmid + 1)" using assms(4) by (simp only: unat_of_nat) simp
  have "unat (?w AND mask 16) = nat (shmid + 1) mod 2 ^ 16" by (simp only: unat_and_mask u)
  also have "\<dots> = nat (shmid + 1)" using assms(4) by simp
  finally have m: "unat (?w AND mask 16) = nat (shmid + 1)" .
  then have "unat (?w AND mask 16) \<noteq> 0" using True by simp
  then have "?w AND mask 16 \<noteq> 0" by (metis unat_eq_0)
  moreover have "unat ((?w AND mask 16) - 1) = nat shmid"
    using m \<open>?w AND mask 16 \<noteq> 0\<close> True by (simp add: unat_minus_one nat_add_distrib)
  moreover have f: "v_flags v = (flags AND mask 16) OR push_bit 16 (?w AND mask 16)"
    using assms(2) True by (simp only: vma_flags_with_shmid_def Let_def half_mask if_True)
  have "drop_bit 16 (v_flags v) AND mask 16 = ?w AND mask 16" "v_flags v AND mask 16 = flags AND mask 16"
    unfolding f by (rule shmid_halves)+
  ultimately show ?thesis
    unfolding vma_shmid_def Let_def half_mask using assms(1) True by simp
next
  case False
  then have f: "v_flags v = flags AND mask 16"
    using assms(2) by (simp only: vma_flags_with_shmid_def Let_def half_mask if_False)
  have "drop_bit 16 (v_flags v) AND mask 16 = 0" "v_flags v AND mask 16 = flags AND mask 16"
    unfolding f by (rule shmid_halves, simp)
  then show ?thesis
    unfolding vma_shmid_def Let_def half_mask using assms(1,3) False by simp
qed

theorem vma_shmid_roundtrip_witness:
  "vma_shmid \<lparr>v_used = True, v_start = 0, v_end = 0, v_prot = 3, v_flags = vma_flags_with_shmid 0x22 7\<rparr> = 7"
  using vma_shmid_roundtrip [of "\<lparr>v_used = True, v_start = 0, v_end = 0, v_prot = 3, v_flags = vma_flags_with_shmid 0x22 7\<rparr>" "0x22" 7]
  by simp

end
