(* ===== verification/Task_Queue.thy ===== *)
theory Task_Queue
  imports Proc_Types
begin

text \<open>
  The run queue, src/arch/x86/kernel/task_queue.c, at the level of its pointers.

  The nodes embedded in the processes and the sentinel \<open>runqueue\<close> share one store. \<open>rq_rep h q\<close> says
  that the store holds the queue \<open>q\<close> of process numbers and that every process not on it points to
  itself, which is what \<open>on_list\<close> tests. \<open>sched_inv\<close> is the invariant of the scheduler: exactly the
  runnable processes are queued.
\<close>

section \<open>Operations\<close>

text \<open>The two changes of the links.\<close>

definition rq_add :: "nat \<Rightarrow> rqnode list_heads \<Rightarrow> rqnode list_heads" where
  "rq_add p h = list_add_tail (ProcNode p) RunHead h"

definition rq_take :: "rqnode list_heads \<Rightarrow> nat option \<times> rqnode list_heads" where
  "rq_take h =
     (if list_empty RunHead h then (None, h)
      else case list_first RunHead h of
             RunHead \<Rightarrow> (None, h)
           | ProcNode p \<Rightarrow> (Some p, INIT_LIST_HEAD (ProcNode p) (list_del (ProcNode p) h)))"

definition on_list :: "nat \<Rightarrow> 'z sched_scheme \<Rightarrow> bool" where
  "on_list p s \<longleftrightarrow> nxt (rq s) (ProcNode p) \<noteq> ProcNode p"

definition task_queue_init :: "'z sched_scheme \<Rightarrow> 'z sched_scheme" where
  "task_queue_init s = s\<lparr>rq := INIT_LIST_HEAD RunHead (rq s)\<rparr>"

definition task_queue_unlink_locked :: "nat \<Rightarrow> 'z sched_scheme \<Rightarrow> 'z sched_scheme" where
  "task_queue_unlink_locked p s =
     (if on_list p s
      then s\<lparr>rq := INIT_LIST_HEAD (ProcNode p) (list_del (ProcNode p) (rq s))\<rparr> else s)"

definition task_queue_enqueue_locked :: "nat \<Rightarrow> 'z sched_scheme \<Rightarrow> 'z sched_scheme kres" where
  "task_queue_enqueue_locked p s =
     (if state (ptab s p) \<noteq> RUNNABLE then Inl ''enqueue: not runnable''
      else if on_list p s then Inl ''enqueue: already queued''
      else Inr (s\<lparr>rq := rq_add p (rq s)\<rparr>))"

definition task_queue_dequeue_locked :: "'z sched_scheme \<Rightarrow> nat option \<times> 'z sched_scheme" where
  "task_queue_dequeue_locked s = (case rq_take (rq s) of (r, h) \<Rightarrow> (r, s\<lparr>rq := h\<rparr>))"

definition task_queue_empty_locked :: "'z sched_scheme \<Rightarrow> bool" where
  "task_queue_empty_locked s \<longleftrightarrow> list_empty RunHead (rq s)"

section \<open>The queue the links hold\<close>

definition rq_rep :: "rqnode list_heads \<Rightarrow> nat list \<Rightarrow> bool" where
  "rq_rep h q \<longleftrightarrow> dlist h RunHead (map ProcNode q) \<and> (\<forall>p. p \<notin> set q \<longrightarrow> unlinked h (ProcNode p))"

lemma INIT_unlinked: "unlinked h x \<Longrightarrow> INIT_LIST_HEAD x h = h"
  by (simp add: unlinked_def INIT_LIST_HEAD_def link_defs fun_upd_idem)

lemma rq_rep_distinct: "rq_rep h q \<Longrightarrow> distinct q"
  by (auto simp: rq_rep_def dlist_def distinct_map)

lemma rq_rep_add:
  assumes "rq_rep h q" and "p \<notin> set q"
  shows "rq_rep (rq_add p h) (q @ [p])"
proof -
  have d: "dlist h RunHead (map ProcNode q)" using assms(1) by (simp add: rq_rep_def)
  then have "dlist (rq_add p h) RunHead (map ProcNode (q @ [p]))"
    using dlist_list_add_tail [OF d, of "ProcNode p"] assms(2) by (auto simp: rq_add_def)
  moreover have "unlinked (rq_add p h) (ProcNode r)" if "r \<notin> set (q @ [p])" for r
    using unlinked_same_outside [OF list_add_tail_outside [OF d, of "ProcNode p"], of "ProcNode r"] that assms(1)
    by (auto simp: rq_add_def rq_rep_def)
  ultimately show ?thesis by (simp add: rq_rep_def)
qed

lemma rq_rep_del:
  assumes "rq_rep h q" and "p \<in> set q"
  shows "INIT_LIST_HEAD (ProcNode p) (list_del (ProcNode p) h) = list_del (ProcNode p) h"
    and "rq_rep (list_del (ProcNode p) h) (remove1 p q)"
proof -
  have d: "dlist h RunHead (map ProcNode q)" using assms(1) by (simp add: rq_rep_def)
  have m: "map ProcNode (remove1 p q) = remove1 (ProcNode p) (map ProcNode q)" by (induction q) auto
  have r: "dlist (list_del (ProcNode p) h) RunHead (map ProcNode (remove1 p q))"
    "unlinked (list_del (ProcNode p) h) (ProcNode p)"
    using dlist_list_del [OF d, of "ProcNode p"] assms(2) by (auto simp: m)
  then show "INIT_LIST_HEAD (ProcNode p) (list_del (ProcNode p) h) = list_del (ProcNode p) h"
    by (intro INIT_unlinked)
  have "unlinked (list_del (ProcNode p) h) (ProcNode r)" if "r \<notin> set (remove1 p q)" for r
  proof (cases "r = p")
    case False
    with that have "r \<notin> set q" by (meson in_set_remove1)
    then show ?thesis
      using unlinked_same_outside [OF list_del_outside [OF d, of "ProcNode p"], of "ProcNode r"] assms
      by (auto simp: rq_rep_def)
  qed (use r in simp)
  with r show "rq_rep (list_del (ProcNode p) h) (remove1 p q)" by (simp add: rq_rep_def)
qed

lemma rq_take_Nil: "rq_rep h [] \<Longrightarrow> rq_take h = (None, h)"
  using dlist_list_empty [of h RunHead "[]"] by (simp add: rq_rep_def rq_take_def)

lemma rq_take_Cons:
  assumes "rq_rep h (p # q)"
  shows "fst (rq_take h) = Some p \<and> rq_rep (snd (rq_take h)) q"
proof -
  have d: "dlist h RunHead (ProcNode p # map ProcNode q)" using assms by (simp add: rq_rep_def)
  then have "list_first RunHead h = ProcNode p" "\<not> list_empty RunHead h"
    by (auto simp: dlist_list_first dlist_list_empty)
  then show ?thesis using rq_rep_del [OF assms, of p] by (simp add: rq_take_def)
qed

interpretation runq: fifo_queue rq_rep "\<lambda>_. True" rq_add rq_take
proof unfold_locales
  show "distinct xs" if "rq_rep h xs" for h xs using that by (rule rq_rep_distinct)
  show "rq_rep (rq_add x h) (xs @ [x])" if "rq_rep h xs" "x \<notin> set xs" for h xs x
    using that by (rule rq_rep_add)
qed (use rq_take_Nil rq_take_Cons in auto)

lemma on_list_iff: "rq_rep (rq s) q \<Longrightarrow> on_list p s \<longleftrightarrow> p \<in> set q"
  using dlist_linked [of "rq s" RunHead "map ProcNode q" "ProcNode p"]
  by (auto simp: rq_rep_def on_list_def unlinked_def)

lemma rq_rep_unique: "rq_rep h q \<Longrightarrow> rq_rep h r \<Longrightarrow> q = r"
  using dlist_unique [of h RunHead "map ProcNode q" "map ProcNode r"]
  by (auto simp: rq_rep_def inj_map_eq_map inj_def)

end
