(* ===== verification/Sched.thy ===== *)
theory Sched
  imports Task_Queue
begin

text \<open>
  Scheduling, sleeping and the life cycle of processes, src/arch/x86/kernel/proc.c.

  Each definition is the part of a function between \<open>acquire(&proc_lock)\<close> and \<open>release(&proc_lock)\<close>,
  with what surrounds it, so it is one atomic step; a function that blocks ends with the call of
  \<open>sched\<close>, and what follows runs when the process is dispatched again. The current process
  (\<open>myproc()\<close>) and CPU are arguments. The functions that also tear down address spaces or files
  are put together from these parts elsewhere. Addresses of kernel code (\<open>syms\<close>) come from the
  linker. Messages and the TSS are not modelled.
\<close>

section \<open>Sleeping and waking\<close>

definition sleep :: "nat \<Rightarrow> chan option \<Rightarrow> 'z sched_scheme \<Rightarrow> 'z sched_scheme kres" where
  "sleep p ch s =
     (case ch of
        None \<Rightarrow> Inl ''sleep: null chan''
      | Some c \<Rightarrow> Inr (upd_proc p (\<lambda>x. x\<lparr>chan := Some c, wakeup_tick := 0, state := SLEEPING\<rparr>) s))"

text \<open>The body of the loops that make a sleeping process runnable.\<close>

definition wake_one :: "nat \<Rightarrow> 'z sched_scheme \<Rightarrow> 'z sched_scheme kres" where
  "wake_one p s =
     task_queue_enqueue_locked p (upd_proc p (\<lambda>x. x\<lparr>state := RUNNABLE, chan := None, wakeup_tick := 0\<rparr>) s)"

definition wakeup :: "chan option \<Rightarrow> 'z sched_scheme \<Rightarrow> 'z sched_scheme kres" where
  "wakeup ch s =
     (if ch = None then Inr s
      else kfold (\<lambda>i s. if state (ptab s i) = SLEEPING \<and> chan (ptab s i) = ch then wake_one i s else Inr s)
             [0..<NPROC] s)"

text \<open>The boolean says whether the process blocks.\<close>

definition sleep_deadline :: "nat \<Rightarrow> u32 \<Rightarrow> 'z sched_scheme \<Rightarrow> bool \<times> 'z sched_scheme" where
  "sleep_deadline p deadline s =
     (if deadline \<le> ticks s then (False, s)
      else (True, upd_proc p (\<lambda>x. x\<lparr>wakeup_tick := deadline, chan := None, state := SLEEPING\<rparr>) s))"

definition sleep_ticks :: "nat \<Rightarrow> u32 \<Rightarrow> 'z sched_scheme \<Rightarrow> bool \<times> 'z sched_scheme" where
  "sleep_ticks p nticks s =
     (if nticks = 0 then (False, s) else sleep_deadline p (ticks s + nticks) s)"

section \<open>Preemption\<close>

definition yield :: "nat \<Rightarrow> nat \<Rightarrow> 'z sched_scheme \<Rightarrow> 'z sched_scheme kres" where
  "yield c p s =
     task_queue_enqueue_locked p
       (upd_proc p (\<lambda>x. x\<lparr>state := RUNNABLE\<rparr>) (upd_cpu c (\<lambda>x. x\<lparr>c_need_resched := False\<rparr>) s))"

definition should_preempt :: "nat \<Rightarrow> 'z sched_scheme \<Rightarrow> bool \<times> 'z sched_scheme" where
  "should_preempt c s =
     (if \<not> c_need_resched (cpus s c) \<or> c_noff (cpus s c) \<noteq> 0 then (False, s)
      else case myproc c s of
             None \<Rightarrow> (False, s)
           | Some p \<Rightarrow>
               if state (ptab s p) \<noteq> RUNNING then (False, s)
               else if task_queue_empty_locked s
                    then (False, upd_cpu c (\<lambda>x. x\<lparr>c_need_resched := False\<rparr>) s)
                    else (True, s))"

definition esp_on_kstack :: "proc \<Rightarrow> u32 \<Rightarrow> bool" where
  "esp_on_kstack x esp \<longleftrightarrow> kstack x \<noteq> 0 \<and> kstack x \<le> esp \<and> esp < kstack x + KSTACKSIZE"

text \<open>The boolean says whether the process gave up the CPU.\<close>

definition preempt_check :: "nat \<Rightarrow> u32 \<Rightarrow> 'z sched_scheme \<Rightarrow> (bool \<times> 'z sched_scheme) kres" where
  "preempt_check c esp s =
     (case myproc c s of
        None \<Rightarrow> Inr (False, s)
      | Some p \<Rightarrow>
          if \<not> esp_on_kstack (ptab s p) esp then Inr (False, s)
          else case should_preempt c s of
                 (False, s') \<Rightarrow> Inr (False, s')
               | (True, s') \<Rightarrow> (case yield c p s' of Inl e \<Rightarrow> Inl e | Inr s'' \<Rightarrow> Inr (True, s'')))"

definition sched_tick :: "nat \<Rightarrow> 'z sched_scheme \<Rightarrow> 'z sched_scheme kres" where
  "sched_tick c s =
     (case kfold (\<lambda>i s. if state (ptab s i) \<noteq> SLEEPING then Inr s
                         else if wakeup_tick (ptab s i) \<noteq> 0 \<and> wakeup_tick (ptab s i) \<le> ticks s
                              then wake_one i s else Inr s) [0..<NPROC] s of
        Inl e \<Rightarrow> Inl e
      | Inr s1 \<Rightarrow>
          (case myproc c s1 of
             None \<Rightarrow> Inr s1
           | Some p \<Rightarrow>
               if state (ptab s1 p) = RUNNING \<and> \<not> task_queue_empty_locked s1
               then Inr (upd_cpu c (\<lambda>x. x\<lparr>c_need_resched := True\<rparr>) s1) else Inr s1))"

definition timer_handler :: "nat \<Rightarrow> 'z sched_scheme \<Rightarrow> 'z sched_scheme kres" where
  "timer_handler c s = sched_tick c (s\<lparr>ticks := ticks s + 1\<rparr>)"

section \<open>Allocation and lookup of processes\<close>

definition alloc_pid :: "'z sched_scheme \<Rightarrow> int \<times> 'z sched_scheme" where
  "alloc_pid s = (nextpid s, s\<lparr>nextpid := nextpid s + 1\<rparr>)"

definition proc_alloc :: "'z sched_scheme \<Rightarrow> (nat option \<times> 'z sched_scheme) kres" where
  "proc_alloc s =
     (case find (\<lambda>i. state (ptab s i) = UNUSED) [1..<NPROC] of
        None \<Rightarrow> Inr (None, s)
      | Some p \<Rightarrow>
          if on_list p s then Inl ''proc_alloc: proc on list''
          else let s1 = upd_proc p (\<lambda>_. zero_proc) (s\<lparr>rq := INIT_LIST_HEAD (ProcNode p) (rq s)\<rparr>)
               in case alloc_pid s1 of (n, s2) \<Rightarrow>
                    Inr (Some p, upd_proc p (\<lambda>x. x\<lparr>state := USED, pid := n\<rparr>) s2))"

definition proc_find :: "int \<Rightarrow> 'z sched_scheme \<Rightarrow> nat option" where
  "proc_find n s = find (\<lambda>i. pid (ptab s i) = n \<and> state (ptab s i) \<noteq> UNUSED) [0..<NPROC]"

section \<open>Exit and wait\<close>

definition reparent :: "nat \<Rightarrow> 'z sched_scheme \<Rightarrow> 'z sched_scheme" where
  "reparent p s =
     fold (\<lambda>i s. if parent (ptab s i) = Some p \<and> state (ptab s i) \<noteq> UNUSED
                  then upd_proc i (\<lambda>x. x\<lparr>parent := initproc s\<rparr>) s else s) [0..<NPROC] s"

text \<open>The last part of \<open>exit_with_xstate\<close>: the process becomes a zombie and its parent is woken.\<close>

definition exit_zombie :: "nat \<Rightarrow> int \<Rightarrow> 'z sched_scheme \<Rightarrow> 'z sched_scheme kres" where
  "exit_zombie p xst s =
     (let par = parent (ptab s p);
          s1 = reparent p s;
          s2 = upd_proc p (\<lambda>x. x\<lparr>xstate := xst\<rparr>) s1;
          s3 = task_queue_unlink_locked p s2;
          s4 = upd_proc p (\<lambda>x. x\<lparr>ctx := zero_context, state := ZOMBIE\<rparr>) s3
      in case par of None \<Rightarrow> Inr s4 | Some q \<Rightarrow> wakeup (Some (ChProc q)) s4)"

definition kthread_reap :: "nat \<Rightarrow> 'z sched_scheme \<Rightarrow> 'z sched_scheme kres" where
  "kthread_reap p s =
     (if kstack (ptab s p) = 0 then Inr s
      else case free_page (kstack (ptab s p)) (kmem s) of
             Inl e \<Rightarrow> Inl e
           | Inr m \<Rightarrow> Inr (upd_proc p (\<lambda>x. x\<lparr>kstack := 0\<rparr>) (s\<lparr>kmem := m\<rparr>)))"

definition zombie_reap_locked :: "nat \<Rightarrow> 'z sched_scheme \<Rightarrow> 'z sched_scheme kres" where
  "zombie_reap_locked p s =
     (if state (ptab s p) \<noteq> ZOMBIE then Inr s
      else case kthread_reap p (task_queue_unlink_locked p s) of
             Inl e \<Rightarrow> Inl e
           | Inr s1 \<Rightarrow>
               Inr (upd_proc p (\<lambda>x. x\<lparr>ctx := zero_context, state := UNUSED, pid := 0, parent := None,
                      xstate := 0, kframe := None, mm := None, p_name := []\<rparr>) s1))"

datatype wait_out = WReaped int int | WNoKids | WBlock int

text \<open>
  One pass of \<open>wait_child\<close> over the table: the accumulators are \<open>havekids\<close> and \<open>fg_child\<close>.
\<close>

fun wait_scan :: "int \<Rightarrow> nat \<Rightarrow> nat list \<Rightarrow> bool \<Rightarrow> int \<Rightarrow> 'z sched_scheme \<Rightarrow> (wait_out \<times> 'z sched_scheme) kres" where
  "wait_scan n par [] havekids fg s = Inr (if havekids then WBlock fg else WNoKids, s)"
| "wait_scan n par (i # is) havekids fg s =
     (let np = ptab s i
      in if parent np \<noteq> Some par then wait_scan n par is havekids fg s
      else if state np = UNUSED then wait_scan n par is havekids fg s
      else if state np \<noteq> ZOMBIE then
        wait_scan n par is True (if fg = 0 \<and> (n = - 1 \<or> pid np = n) then pid np else fg) s
      else if n \<noteq> - 1 \<and> pid np \<noteq> n then wait_scan n par is True fg s
      else case zombie_reap_locked i s of
             Inl e \<Rightarrow> Inl e
           | Inr s' \<Rightarrow> Inr (WReaped (pid np) (xstate np), s'))"

text \<open>
  One round of \<open>wait_child\<close>, up to the point where it returns or is about to call \<open>sleep(parent)\<close>,
  with the changes of the console's foreground process.
\<close>

definition wait_child :: "int \<Rightarrow> nat \<Rightarrow> 'z sched_scheme \<Rightarrow> (wait_out \<times> 'z sched_scheme) kres" where
  "wait_child n par s =
     (case wait_scan n par [0..<NPROC] False 0 s of
        Inl e \<Rightarrow> Inl e
      | Inr (WReaped f x, s') \<Rightarrow> Inr (WReaped f x, s'\<lparr>fg_pid := pid (ptab s' par)\<rparr>)
      | Inr (WNoKids, s') \<Rightarrow> Inr (WNoKids, s'\<lparr>fg_pid := pid (ptab s' par)\<rparr>)
      | Inr (WBlock fg, s') \<Rightarrow> Inr (WBlock fg, if fg \<noteq> 0 then s'\<lparr>fg_pid := fg\<rparr> else s'))"

definition kthread_exit :: "nat \<Rightarrow> 'z sched_scheme \<Rightarrow> 'z sched_scheme kres" where
  "kthread_exit p s =
     (if initproc s = Some p then Inl ''init exiting''
      else if kthreadd_task s = Some p then Inl ''kthreadd exiting''
      else Inr (upd_proc p (\<lambda>x. x\<lparr>entry := 0, entry_arg := 0, state := UNUSED, pid := 0, p_name := []\<rparr>) s))"

section \<open>Contexts\<close>

record syms =
  kthread_trampoline :: u32
  user_start_trampoline :: u32
  trap_user_return :: u32
  kend :: u32

definition sizeof_trapframe :: u32 where "sizeof_trapframe = 60"
definition DPL_USER :: u32 where "DPL_USER = 3"

definition kthread_ctx_init :: "syms \<Rightarrow> nat \<Rightarrow> 'z sched_scheme \<Rightarrow> 'z sched_scheme" where
  "kthread_ctx_init sy p s =
     (let sp = kstack (ptab s p) + KSTACKSIZE - 4;
          s1 = s\<lparr>kmem := (kmem s)\<lparr>ram := store32 sp (kthread_trampoline sy) (ram (kmem s))\<rparr>\<rparr>
      in upd_proc p (\<lambda>x. x\<lparr>ctx := zero_context\<lparr>c_eip := kthread_trampoline sy, c_esp := sp\<rparr>\<rparr>) s1)"

definition user_ctx_init :: "syms \<Rightarrow> nat \<Rightarrow> 'z sched_scheme \<Rightarrow> 'z sched_scheme" where
  "user_ctx_init sy p s =
     (let sp = kstack (ptab s p) + KSTACKSIZE - sizeof_trapframe - 4;
          s1 = s\<lparr>kmem := (kmem s)\<lparr>ram := store32 sp (user_start_trampoline sy) (ram (kmem s))\<rparr>\<rparr>
      in upd_proc p (\<lambda>x. x\<lparr>ctx := zero_context\<lparr>c_eip := user_start_trampoline sy, c_esp := sp\<rparr>\<rparr>) s1)"

definition fork_user_ctx_init :: "syms \<Rightarrow> nat \<Rightarrow> 'z sched_scheme \<Rightarrow> 'z sched_scheme" where
  "fork_user_ctx_init sy p s =
     upd_proc p (\<lambda>x. x\<lparr>ctx := zero_context\<lparr>c_eip := trap_user_return sy,
        c_esp := (case kframe x of Some (a, _) \<Rightarrow> a | None \<Rightarrow> 0)\<rparr>\<rparr>) s"

definition on_kernel_text :: "syms \<Rightarrow> u32 \<Rightarrow> bool" where
  "on_kernel_text sy addr \<longleftrightarrow> KERNBASE \<le> addr \<and> addr < kend sy"

definition context_on_kstack :: "proc \<Rightarrow> bool" where
  "context_on_kstack x \<longleftrightarrow>
     kstack x \<noteq> 0 \<and> kstack x \<le> c_esp (ctx x) \<and> c_esp (ctx x) < kstack x + KSTACKSIZE"

definition context_sane :: "syms \<Rightarrow> proc \<Rightarrow> (u32 \<Rightarrow> u8) \<Rightarrow> bool" where
  "context_sane sy x m \<longleftrightarrow>
     (if \<not> context_on_kstack x then False
      else if c_eip (ctx x) = user_start_trampoline sy then True
      else if c_eip (ctx x) = trap_user_return sy then kframe x \<noteq> None \<and> context_on_kstack x
      else if \<not> on_kernel_text sy (c_eip (ctx x)) then False
      else load32 m (c_esp (ctx x)) = c_eip (ctx x))"

definition prepare_context :: "syms \<Rightarrow> nat \<Rightarrow> 'z sched_scheme \<Rightarrow> 'z sched_scheme kres" where
  "prepare_context sy p s =
     (let x = ptab s p
      in if kstack x = 0 then Inl ''prepare_context: no kstack''
      else if context_sane sy x (ram (kmem s)) then Inr s
      else if proc_pagetable x \<noteq> 0 then
        (case kframe x of
           Some (_, tf) \<Rightarrow> if tf_cs tf AND DPL_USER \<noteq> 0 then Inr (user_ctx_init sy p s)
                          else Inl ''prepare_context: bad user context''
         | None \<Rightarrow> Inl ''prepare_context: bad user context'')
      else if entry x \<noteq> 0 then Inr (kthread_ctx_init sy p s)
      else Inl ''prepare_context: bad context'')"

section \<open>The scheduler\<close>

definition get_user_pgdir :: "nat \<Rightarrow> 'z sched_scheme \<Rightarrow> u32" where
  "get_user_pgdir c s = (let d = c_user_pgdir (cpus s c) in if d \<noteq> 0 then P2V d else 0)"

definition set_user_pgdir :: "nat \<Rightarrow> u32 \<Rightarrow> 'z sched_scheme \<Rightarrow> 'z sched_scheme" where
  "set_user_pgdir c d s = upd_cpu c (\<lambda>x. x\<lparr>c_user_pgdir := (if d \<noteq> 0 then V2P d else 0)\<rparr>) s"

text \<open>The first half of a round of \<open>scheduler\<close>, up to the switch to the process it picked.\<close>

definition scheduler_pick :: "syms \<Rightarrow> nat \<Rightarrow> 'z sched_scheme \<Rightarrow> (nat option \<times> 'z sched_scheme) kres" where
  "scheduler_pick sy c s =
     (case task_queue_dequeue_locked s of
        (None, s1) \<Rightarrow> Inr (None, s1)
      | (Some p, s1) \<Rightarrow>
          if state (ptab s1 p) \<noteq> RUNNABLE then Inl ''scheduler: dequeued non-runnable proc''
          else let s2 = upd_cpu c (\<lambda>x. x\<lparr>c_proc := Some p\<rparr>) (upd_proc p (\<lambda>x. x\<lparr>state := RUNNING\<rparr>) s1);
                   s3 = (if proc_pagetable (ptab s2 p) \<noteq> 0 then set_user_pgdir c (proc_pagetable (ptab s2 p)) s2 else s2)
               in case prepare_context sy p s3 of Inl e \<Rightarrow> Inl e | Inr s4 \<Rightarrow> Inr (Some p, s4))"

text \<open>
  \<open>sched\<close> with the registers \<open>r\<close> that \<open>swtch\<close> stores; a process that has exited stores them in a
  scratch context instead.
\<close>

definition sched_switch :: "nat \<Rightarrow> nat \<Rightarrow> proc_context \<Rightarrow> 'z sched_scheme \<Rightarrow> 'z sched_scheme" where
  "sched_switch c p r s =
     (let s1 = upd_cpu c (\<lambda>x. x\<lparr>c_last_sched := Some p\<rparr>) s
      in if state (ptab s1 p) = ZOMBIE \<or> state (ptab s1 p) = UNUSED then s1
         else upd_proc p (\<lambda>x. x\<lparr>ctx := r\<rparr>) s1)"

text \<open>The second half of the round, after the switch back.\<close>

definition scheduler_return :: "nat \<Rightarrow> 'z sched_scheme \<Rightarrow> 'z sched_scheme kres" where
  "scheduler_return c s =
     (let s1 = upd_cpu c (\<lambda>x. x\<lparr>c_proc := None\<rparr>) s
      in case (case c_last_sched (cpus s1 c) of
                 None \<Rightarrow> Inr s1
               | Some prev \<Rightarrow> if state (ptab s1 prev) = UNUSED then kthread_reap prev s1 else Inr s1) of
           Inl e \<Rightarrow> Inl e
         | Inr s2 \<Rightarrow> Inr (upd_cpu c (\<lambda>x. x\<lparr>c_last_sched := None\<rparr>) s2))"

section \<open>The invariant\<close>

definition runnables :: "'z sched_scheme \<Rightarrow> nat set" where
  "runnables s = {p. p < NPROC \<and> state (ptab s p) = RUNNABLE}"

definition sched_inv :: "'z sched_scheme \<Rightarrow> nat list \<Rightarrow> bool" where
  "sched_inv s q \<longleftrightarrow> rq_rep (rq s) q \<and> set q = runnables s"

lemma sched_inv_unique: "sched_inv s q \<Longrightarrow> sched_inv s r \<Longrightarrow> q = r"
  by (auto simp: sched_inv_def intro: rq_rep_unique)

lemma sched_inv_cong:
  "rq s' = rq s \<Longrightarrow> runnables s' = runnables s \<Longrightarrow> sched_inv s' q \<longleftrightarrow> sched_inv s q"
  by (simp add: sched_inv_def)

lemma sched_inv_on_list: "sched_inv s q \<Longrightarrow> on_list p s \<longleftrightarrow> p \<in> runnables s"
  using on_list_iff [of s q p] by (simp add: sched_inv_def)

lemma sched_inv_empty: "sched_inv s q \<Longrightarrow> task_queue_empty_locked s \<longleftrightarrow> q = []"
  using dlist_list_empty [of "rq s" RunHead "map ProcNode q"]
  by (simp add: sched_inv_def rq_rep_def task_queue_empty_locked_def)

text \<open>Making a process runnable that was not: it goes to the end of the queue.\<close>

lemma enqueue_ok:
  assumes inv: "sched_inv s q" and p: "p < NPROC" "state (ptab s p) \<noteq> RUNNABLE"
    and s': "rq s' = rq s" "\<And>r. state (ptab s' r) = (if r = p then RUNNABLE else state (ptab s r))"
  shows "task_queue_enqueue_locked p s' = Inr (s'\<lparr>rq := rq_add p (rq s')\<rparr>)
    \<and> sched_inv (s'\<lparr>rq := rq_add p (rq s')\<rparr>) (q @ [p])"
proof -
  have n: "p \<notin> set q" using inv p by (auto simp: sched_inv_def runnables_def)
  have "\<not> on_list p s'" using inv n s'(1) on_list_iff [of s' q p] by (simp add: sched_inv_def)
  moreover have "rq_rep (rq_add p (rq s')) (q @ [p])"
    using inv n s'(1) by (simp add: sched_inv_def rq_rep_add)
  moreover have "set (q @ [p]) = runnables s'"
    using inv p(1) by (auto simp: sched_inv_def runnables_def s'(2))
  ultimately show ?thesis using s'(2) by (simp add: task_queue_enqueue_locked_def sched_inv_def runnables_def)
qed

text \<open>A process that stops being runnable or was not queued.\<close>

lemma unlink_ok:
  assumes inv: "sched_inv s q"
  shows "rq_rep (rq (task_queue_unlink_locked p s)) (remove1 p q)"
    "task_queue_unlink_locked p s = s\<lparr>rq := rq (task_queue_unlink_locked p s)\<rparr>"
  using inv rq_rep_del [of "rq s" q p] on_list_iff [of s q p]
  by (auto simp: sched_inv_def task_queue_unlink_locked_def remove1_idem)

section \<open>Loops that wake processes\<close>

abbreviation woken :: "proc \<Rightarrow> proc" where
  "woken x \<equiv> x\<lparr>state := RUNNABLE, chan := None, wakeup_tick := 0\<rparr>"

lemma wake_one_ok:
  assumes inv: "sched_inv s q" and p: "p < NPROC" "state (ptab s p) \<noteq> RUNNABLE"
  obtains h where "wake_one p s = Inr (s\<lparr>ptab := (ptab s)(p := woken (ptab s p)), rq := h\<rparr>)"
    "sched_inv (s\<lparr>ptab := (ptab s)(p := woken (ptab s p)), rq := h\<rparr>) (q @ [p])"
proof -
  let ?s = "upd_proc p (\<lambda>x. x\<lparr>state := RUNNABLE, chan := None, wakeup_tick := 0\<rparr>) s"
  have "task_queue_enqueue_locked p ?s = Inr (?s\<lparr>rq := rq_add p (rq ?s)\<rparr>) \<and> sched_inv (?s\<lparr>rq := rq_add p (rq ?s)\<rparr>) (q @ [p])"
    by (rule enqueue_ok [OF inv p]) auto
  then show thesis by (intro that [of "rq_add p (rq s)"]) (auto simp: wake_one_def upd_proc_def)
qed

definition wake_if :: "(u32 \<Rightarrow> proc \<Rightarrow> bool) \<Rightarrow> nat list \<Rightarrow> 'z sched_scheme \<Rightarrow> nat \<Rightarrow> proc" where
  "wake_if P is s p = (if p \<in> set is \<and> P (ticks s) (ptab s p) then woken (ptab s p) else ptab s p)"

lemma wake_loop:
  assumes "sched_inv s q" and "distinct is" and "set is \<subseteq> {..<NPROC}" and "\<And>t x. P t x \<Longrightarrow> state x = SLEEPING"
  shows "\<exists>h. kfold (\<lambda>i s. if P (ticks s) (ptab s i) then wake_one i s else Inr s) is s
      = Inr (s\<lparr>ptab := wake_if P is s, rq := h\<rparr>)
    \<and> sched_inv (s\<lparr>ptab := wake_if P is s, rq := h\<rparr>) (q @ filter (\<lambda>i. P (ticks s) (ptab s i)) is)"
  using assms(1-3)
proof (induction "is" arbitrary: s q)
  case Nil
  have "wake_if P [] s = ptab s" by (simp add: wake_if_def fun_eq_iff)
  with Nil show ?case by (intro exI [of _ "rq s"]) simp
next
  case (Cons i "is")
  let ?f = "\<lambda>i s. if P (ticks s) (ptab s i) then wake_one i s else Inr s"
  show ?case
  proof (cases "P (ticks s) (ptab s i)")
    case False
    then have "wake_if P (i # is) s = wake_if P is s" by (auto simp: wake_if_def)
    with False Cons.IH [OF Cons.prems(1)] Cons.prems show ?thesis by simp
  next
    case True
    have i: "i < NPROC" "state (ptab s i) \<noteq> RUNNABLE" using Cons.prems assms(4) [OF True] by auto
    obtain h where h: "wake_one i s = Inr (s\<lparr>ptab := (ptab s)(i := woken (ptab s i)), rq := h\<rparr>)"
      "sched_inv (s\<lparr>ptab := (ptab s)(i := woken (ptab s i)), rq := h\<rparr>) (q @ [i])"
      using wake_one_ok [OF Cons.prems(1) i] .
    let ?s = "s\<lparr>ptab := (ptab s)(i := woken (ptab s i)), rq := h\<rparr>"
    have "wake_if P is ?s = wake_if P (i # is) s"
      using Cons.prems(2) True by (auto simp: wake_if_def fun_eq_iff)
    moreover have "filter (\<lambda>j. P (ticks s) (((ptab s)(i := woken (ptab s i))) j)) is = filter (\<lambda>j. P (ticks s) (ptab s j)) is"
      using Cons.prems(2) by (intro filter_cong) auto
    ultimately show ?thesis using Cons.IH [OF h(2)] Cons.prems True h(1) by simp
  qed
qed

abbreviation on_chan :: "chan \<Rightarrow> u32 \<Rightarrow> proc \<Rightarrow> bool" where
  "on_chan ch \<equiv> \<lambda>_ x. state x = SLEEPING \<and> chan x = Some ch"

lemma wakeup_ok:
  assumes "sched_inv s q"
  shows "\<exists>h. wakeup (Some ch) s = Inr (s\<lparr>ptab := wake_if (on_chan ch) [0..<NPROC] s, rq := h\<rparr>)
    \<and> sched_inv (s\<lparr>ptab := wake_if (on_chan ch) [0..<NPROC] s, rq := h\<rparr>) (q @ filter (\<lambda>i. on_chan ch 0 (ptab s i)) [0..<NPROC])"
  using wake_loop [OF assms, of "[0..<NPROC]" "on_chan ch"] by (simp add: wakeup_def atLeast_upt)

abbreviation expired :: "u32 \<Rightarrow> proc \<Rightarrow> bool" where
  "expired t x \<equiv> state x = SLEEPING \<and> wakeup_tick x \<noteq> 0 \<and> wakeup_tick x \<le> t"

lemma sched_tick_eq:
  "sched_tick c s =
     (case kfold (\<lambda>i s. if expired (ticks s) (ptab s i) then wake_one i s else Inr s) [0..<NPROC] s of
        Inl e \<Rightarrow> Inl e
      | Inr s1 \<Rightarrow>
          (case myproc c s1 of
             None \<Rightarrow> Inr s1
           | Some p \<Rightarrow>
               if state (ptab s1 p) = RUNNING \<and> \<not> task_queue_empty_locked s1
               then Inr (upd_cpu c (\<lambda>x. x\<lparr>c_need_resched := True\<rparr>) s1) else Inr s1))"
proof -
  have "(\<lambda>i s. if state (ptab s i) \<noteq> SLEEPING then Inr s
           else if wakeup_tick (ptab s i) \<noteq> 0 \<and> wakeup_tick (ptab s i) \<le> ticks s then wake_one i s else Inr s)
      = (\<lambda>i s :: 'a sched_scheme. if expired (ticks s) (ptab s i) then wake_one i s else Inr s)"
    by (simp add: fun_eq_iff)
  then show ?thesis by (simp only: sched_tick_def)
qed

section \<open>What the operations do to the invariant\<close>

lemma runnables_upd: "runnables (upd_proc p f s) = (if p < NPROC \<and> state (f (ptab s p)) = RUNNABLE
    then insert p (runnables s) else runnables s - {p})"
  by (auto simp: runnables_def)

lemma sched_inv_upd_proc:
  assumes "sched_inv s q" and "state (ptab s p) = RUNNABLE \<longleftrightarrow> state (f (ptab s p)) = RUNNABLE"
  shows "sched_inv (upd_proc p f s) q"
  using assms by (auto simp: sched_inv_def runnables_def)

lemma sched_inv_upd_cpu [simp]: "sched_inv (upd_cpu c f s) q \<longleftrightarrow> sched_inv s q"
  by (simp add: sched_inv_def runnables_def)

lemma sched_inv_fields [simp]:
  "sched_inv (s\<lparr>kmem := m\<rparr>) q \<longleftrightarrow> sched_inv s q" "sched_inv (s\<lparr>ticks := t\<rparr>) q \<longleftrightarrow> sched_inv s q"
  "sched_inv (s\<lparr>nextpid := n\<rparr>) q \<longleftrightarrow> sched_inv s q" "sched_inv (s\<lparr>fg_pid := fg\<rparr>) q \<longleftrightarrow> sched_inv s q"
  by (simp_all add: sched_inv_def runnables_def)

lemma sleep_ok:
  assumes "sched_inv s q" and "state (ptab s p) \<noteq> RUNNABLE"
  shows "\<exists>s'. sleep p (Some ch) s = Inr s' \<and> sched_inv s' q \<and> state (ptab s' p) = SLEEPING \<and> chan (ptab s' p) = Some ch
    \<and> (\<forall>r. r \<noteq> p \<longrightarrow> ptab s' r = ptab s r) \<and> cpus s' = cpus s"
  using assms by (auto simp: sleep_def intro!: sched_inv_upd_proc)

lemma sleep_deadline_ok:
  assumes "sched_inv s q" and "state (ptab s p) \<noteq> RUNNABLE" and "sleep_deadline p d s = (b, s')"
  shows "sched_inv s' q \<and> (\<forall>r. r \<noteq> p \<longrightarrow> ptab s' r = ptab s r) \<and> (b \<longrightarrow> state (ptab s' p) = SLEEPING) \<and> cpus s' = cpus s"
  using assms by (auto simp: sleep_deadline_def intro!: sched_inv_upd_proc split: if_splits)

lemma yield_ok:
  assumes "sched_inv s q" and "p < NPROC" and "state (ptab s p) \<noteq> RUNNABLE"
  shows "\<exists>s'. yield c p s = Inr s' \<and> sched_inv s' (q @ [p]) \<and> state (ptab s' p) = RUNNABLE
    \<and> (\<forall>r. r \<noteq> p \<longrightarrow> ptab s' r = ptab s r) \<and> (\<forall>d. c_proc (cpus s' d) = c_proc (cpus s d))"
proof -
  let ?s = "upd_proc p (\<lambda>x. x\<lparr>state := RUNNABLE\<rparr>) (upd_cpu c (\<lambda>x. x\<lparr>c_need_resched := False\<rparr>) s)"
  have "task_queue_enqueue_locked p ?s = Inr (?s\<lparr>rq := rq_add p (rq ?s)\<rparr>) \<and> sched_inv (?s\<lparr>rq := rq_add p (rq ?s)\<rparr>) (q @ [p])"
    by (rule enqueue_ok [OF assms]) auto
  then show ?thesis by (auto simp: yield_def)
qed

lemma timer_handler_ok:
  assumes "sched_inv s q"
  shows "\<exists>s' q'. timer_handler c s = Inr s' \<and> sched_inv s' (q @ q')
    \<and> (\<forall>p. state (ptab s' p) = state (ptab s p) \<or> state (ptab s p) = SLEEPING \<and> state (ptab s' p) = RUNNABLE)
    \<and> (\<forall>d. c_proc (cpus s' d) = c_proc (cpus s d))"
proof -
  let ?s = "s\<lparr>ticks := ticks s + 1\<rparr>"
  have inv: "sched_inv ?s q" using assms by simp
  have d: "distinct [0..<NPROC]" "set [0..<NPROC] \<subseteq> {..<NPROC}" by (auto simp: atLeast_upt)
  obtain h where h: "kfold (\<lambda>i s. if expired (ticks s) (ptab s i) then wake_one i s else Inr s) [0..<NPROC] ?s
      = Inr (?s\<lparr>ptab := wake_if expired [0..<NPROC] ?s, rq := h\<rparr>)"
    "sched_inv (?s\<lparr>ptab := wake_if expired [0..<NPROC] ?s, rq := h\<rparr>) (q @ filter (\<lambda>i. expired (ticks ?s) (ptab ?s i)) [0..<NPROC])"
    using wake_loop [OF inv d, of expired] by auto
  let ?t = "?s\<lparr>ptab := wake_if expired [0..<NPROC] ?s, rq := h\<rparr>"
  have st: "\<forall>p. state (wake_if expired [0..<NPROC] ?s p) = state (ptab s p)
      \<or> state (ptab s p) = SLEEPING \<and> state (wake_if expired [0..<NPROC] ?s p) = RUNNABLE"
    by (auto simp: wake_if_def)
  have "\<exists>s'. timer_handler c s = Inr s' \<and> sched_inv s' (q @ filter (\<lambda>i. expired (ticks ?s) (ptab ?s i)) [0..<NPROC])
      \<and> ptab s' = ptab ?t \<and> (\<forall>d. c_proc (cpus s' d) = c_proc (cpus s d))"
    unfolding timer_handler_def sched_tick_eq h(1) using h(2) by (auto split: option.splits simp del: filter.simps)
  with st show ?thesis by auto
qed

lemma proc_alloc_ok:
  assumes "sched_inv s q"
  shows "\<exists>r s'. proc_alloc s = Inr (r, s') \<and> sched_inv s' q \<and> cpus s' = cpus s
    \<and> (case r of None \<Rightarrow> s' = s \<and> (\<forall>p. 1 \<le> p \<and> p < NPROC \<longrightarrow> state (ptab s p) \<noteq> UNUSED)
       | Some p \<Rightarrow> 1 \<le> p \<and> p < NPROC \<and> state (ptab s p) = UNUSED
           \<and> ptab s' = (ptab s)(p := zero_proc\<lparr>state := USED, pid := nextpid s\<rparr>) \<and> nextpid s' = nextpid s + 1)"
proof (cases "find (\<lambda>i. state (ptab s i) = UNUSED) [1..<NPROC]")
  case None
  then have "\<forall>p. 1 \<le> p \<and> p < NPROC \<longrightarrow> state (ptab s p) \<noteq> UNUSED" by (simp only: find_upt_None)
  with None assms show ?thesis by (intro exI [of _ None] exI [of _ s]) (simp add: proc_alloc_def)
next
  case (Some p)
  then have p: "1 \<le> p" "p < NPROC" "state (ptab s p) = UNUSED" by (auto simp: find_upt_Some)
  then have nl: "p \<notin> set q" "\<not> on_list p s"
    using assms sched_inv_on_list [OF assms, of p] by (auto simp: sched_inv_def runnables_def)
  then have "INIT_LIST_HEAD (ProcNode p) (rq s) = rq s"
    using assms by (intro INIT_unlinked) (simp add: sched_inv_def rq_rep_def)
  moreover have "sched_inv (s\<lparr>nextpid := n, ptab := (ptab s)(p := zero_proc\<lparr>state := USED, pid := m\<rparr>)\<rparr>) q" for n m
  proof -
    have "runnables (s\<lparr>nextpid := n, ptab := (ptab s)(p := zero_proc\<lparr>state := USED, pid := m\<rparr>)\<rparr>) = runnables s"
      using p(3) by (auto simp: runnables_def)
    with assms show ?thesis by (simp add: sched_inv_def)
  qed
  ultimately show ?thesis
    using Some p nl(2) by (auto simp: proc_alloc_def Let_def alloc_pid_def upd_proc_def)
qed

definition reparented :: "nat \<Rightarrow> nat list \<Rightarrow> 'z sched_scheme \<Rightarrow> nat \<Rightarrow> proc" where
  "reparented p is s i =
     (if i \<in> set is \<and> parent (ptab s i) = Some p \<and> state (ptab s i) \<noteq> UNUSED
      then (ptab s i)\<lparr>parent := initproc s\<rparr> else ptab s i)"

lemma reparent_loop:
  "distinct is \<Longrightarrow> fold (\<lambda>i s. if parent (ptab s i) = Some p \<and> state (ptab s i) \<noteq> UNUSED
       then upd_proc i (\<lambda>x. x\<lparr>parent := initproc s\<rparr>) s else s) is s
    = s\<lparr>ptab := reparented p is s\<rparr>"
proof (induction "is" arbitrary: s)
  case Nil
  have "reparented p [] s = ptab s" by (simp add: reparented_def fun_eq_iff)
  then show ?case by simp
next
  case (Cons i "is")
  show ?case
  proof (cases "parent (ptab s i) = Some p \<and> state (ptab s i) \<noteq> UNUSED")
    case True
    let ?s = "upd_proc i (\<lambda>x. x\<lparr>parent := initproc s\<rparr>) s"
    have e: "reparented p is ?s = reparented p (i # is) s"
      using Cons.prems True by (auto simp: reparented_def fun_eq_iff)
    have "?s\<lparr>ptab := f\<rparr> = s\<lparr>ptab := f\<rparr>" for f by (simp add: upd_proc_def)
    with Cons.IH [of ?s] Cons.prems True e show ?thesis by simp
  next
    case False
    then have "reparented p is s = reparented p (i # is) s" by (auto simp: reparented_def fun_eq_iff)
    with Cons.IH [of s] Cons.prems False show ?thesis by auto
  qed
qed

lemma reparent_eq: "reparent p s = s\<lparr>ptab := reparented p [0..<NPROC] s\<rparr>"
  unfolding reparent_def by (rule reparent_loop) simp

lemma exit_zombie_ok:
  assumes inv: "sched_inv s q"
  shows "\<exists>s' q'. exit_zombie p xst s = Inr s' \<and> sched_inv s' (remove1 p q @ q')
    \<and> state (ptab s' p) = ZOMBIE \<and> xstate (ptab s' p) = xst
    \<and> (\<forall>r. r \<noteq> p \<longrightarrow> state (ptab s' r) = state (ptab s r) \<or> state (ptab s r) = SLEEPING \<and> state (ptab s' r) = RUNNABLE)
    \<and> (\<forall>r. r < NPROC \<and> parent (ptab s r) = Some p \<and> state (ptab s r) \<noteq> UNUSED \<longrightarrow> parent (ptab s' r) = initproc s)
    \<and> cpus s' = cpus s
    \<and> (\<forall>r. parent (ptab s p) = Some r \<and> r \<noteq> p \<and> r < NPROC \<longrightarrow> \<not> (state (ptab s' r) = SLEEPING \<and> chan (ptab s' r) = Some (ChProc r)))"
proof -
  define s1 where "s1 = reparent p s"
  have r1: "rq s1 = rq s" "cpus s1 = cpus s" "initproc s1 = initproc s" "ptab s1 = reparented p [0..<NPROC] s"
    by (simp_all add: s1_def reparent_eq)
  have r2: "state (ptab s1 r) = state (ptab s r)" "chan (ptab s1 r) = chan (ptab s r)" for r
    by (simp_all add: r1 reparented_def)
  have r3: "parent (ptab s1 r) = initproc s" if "r < NPROC \<and> parent (ptab s r) = Some p \<and> state (ptab s r) \<noteq> UNUSED" for r
    using that by (simp add: r1 reparented_def)
  let ?s2 = "upd_proc p (\<lambda>x. x\<lparr>xstate := xst\<rparr>) s1"
  define s3 where "s3 = task_queue_unlink_locked p ?s2"
  define s4 where "s4 = upd_proc p (\<lambda>x. x\<lparr>ctx := zero_context, state := ZOMBIE\<rparr>) s3"
  have "runnables s1 = runnables s" by (simp add: runnables_def r2)
  then have "sched_inv s1 q" using inv by (simp add: sched_inv_def r1)
  then have i2: "sched_inv ?s2 q" by (intro sched_inv_upd_proc) auto
  have s3: "rq_rep (rq s3) (remove1 p q)" "s3 = ?s2\<lparr>rq := rq s3\<rparr>"
    using unlink_ok [OF i2, of p] by (simp_all only: s3_def)
  have p3: "ptab s3 = ptab ?s2" "cpus s3 = cpus ?s2" by (subst s3(2), simp)+
  have "set (remove1 p q) = runnables s4"
    using i2 rq_rep_distinct [of "rq ?s2" q] by (auto simp: sched_inv_def runnables_def s4_def p3)
  then have i4: "sched_inv s4 (remove1 p q)" using s3(1) by (simp add: sched_inv_def s4_def)
  have st4: "ptab s4 r = (if r = p then (ptab s1 p)\<lparr>xstate := xst, ctx := zero_context, state := ZOMBIE\<rparr> else ptab s1 r)" for r
    by (simp add: s4_def p3)
  have c4: "cpus s4 = cpus s" by (simp add: s4_def p3 r1)
  have ex: "exit_zombie p xst s = (case parent (ptab s p) of None \<Rightarrow> Inr s4 | Some r \<Rightarrow> wakeup (Some (ChProc r)) s4)"
    unfolding exit_zombie_def Let_def s1_def s3_def s4_def by (rule refl)
  show ?thesis
  proof (cases "parent (ptab s p)")
    case None
    with ex i4 st4 c4 r2 r3 show ?thesis by (intro exI [of _ s4] exI [of _ "[]"]) auto
  next
    case (Some par)
    obtain h where h: "wakeup (Some (ChProc par)) s4 = Inr (s4\<lparr>ptab := wake_if (on_chan (ChProc par)) [0..<NPROC] s4, rq := h\<rparr>)"
      "sched_inv (s4\<lparr>ptab := wake_if (on_chan (ChProc par)) [0..<NPROC] s4, rq := h\<rparr>)
        (remove1 p q @ filter (\<lambda>i. on_chan (ChProc par) 0 (ptab s4 i)) [0..<NPROC])"
      using wakeup_ok [OF i4] by blast
    define s5 where "s5 = s4\<lparr>ptab := wake_if (on_chan (ChProc par)) [0..<NPROC] s4, rq := h\<rparr>"
    have w: "ptab s5 r = (if r < NPROC \<and> state (ptab s4 r) = SLEEPING \<and> chan (ptab s4 r) = Some (ChProc par)
        then woken (ptab s4 r) else ptab s4 r)" "cpus s5 = cpus s" for r
      using c4 by (simp_all add: s5_def wake_if_def)
    have "exit_zombie p xst s = Inr s5" using Some h(1) ex by (simp add: s5_def)
    moreover have "\<exists>q'. sched_inv s5 (remove1 p q @ q')" using h(2) unfolding s5_def by blast
    ultimately show ?thesis using w st4 r2 r3 Some by (intro exI [of _ s5]) auto
  qed
qed

text \<open>What the operations on contexts and stacks leave alone.\<close>

definition same_states :: "'z sched_scheme \<Rightarrow> 'z sched_scheme \<Rightarrow> bool" where
  "same_states s s' \<longleftrightarrow> rq s' = rq s \<and> cpus s' = cpus s \<and> initproc s' = initproc s \<and> kthreadd_task s' = kthreadd_task s
     \<and> (\<forall>r. state (ptab s' r) = state (ptab s r) \<and> parent (ptab s' r) = parent (ptab s r)
          \<and> pid (ptab s' r) = pid (ptab s r) \<and> chan (ptab s' r) = chan (ptab s r))"

lemma same_states_inv: "same_states s s' \<Longrightarrow> sched_inv s' q \<longleftrightarrow> sched_inv s q"
  by (simp add: same_states_def sched_inv_def runnables_def)

lemma prepare_context_frame: "prepare_context sy p s = Inr s' \<Longrightarrow> same_states s s'"
  by (auto simp: prepare_context_def Let_def user_ctx_init_def kthread_ctx_init_def same_states_def
      split: if_splits option.splits)

lemma kthread_reap_frame: "kthread_reap p s = Inr s' \<Longrightarrow> same_states s s'"
  by (auto simp: kthread_reap_def same_states_def split: if_splits sum.splits)

definition queue_panics :: "string set" where
  "queue_panics = {''enqueue: not runnable'', ''enqueue: already queued'',
     ''scheduler: dequeued non-runnable proc'', ''proc_alloc: proc on list''}"

lemma prepare_context_panic: "prepare_context sy p s = Inl e \<Longrightarrow> e \<notin> queue_panics"
  by (auto simp: prepare_context_def Let_def queue_panics_def split: if_splits option.splits)

lemma dequeue_ok:
  assumes "sched_inv s q"
  shows "case task_queue_dequeue_locked s of
      (None, s') \<Rightarrow> q = [] \<and> s' = s
    | (Some p, s') \<Rightarrow> (\<exists>q'. q = p # q' \<and> rq_rep (rq s') q') \<and> s' = s\<lparr>rq := rq s'\<rparr>"
proof (cases q)
  case Nil
  with assms rq_take_Nil [of "rq s"] show ?thesis
    by (auto simp: sched_inv_def task_queue_dequeue_locked_def)
next
  case (Cons p q')
  with assms rq_take_Cons [of "rq s" p q'] show ?thesis
    by (cases "rq_take (rq s)") (auto simp: sched_inv_def task_queue_dequeue_locked_def)
qed

lemma scheduler_pick_ok:
  assumes inv: "sched_inv s q"
  shows "case scheduler_pick sy c s of
      Inl e \<Rightarrow> e \<notin> queue_panics
    | Inr (None, s') \<Rightarrow> q = [] \<and> s' = s
    | Inr (Some p, s') \<Rightarrow> p < NPROC \<and> state (ptab s p) = RUNNABLE \<and> (\<exists>q'. q = p # q' \<and> sched_inv s' q')
        \<and> (\<forall>r. state (ptab s' r) = (if r = p then RUNNING else state (ptab s r)))
        \<and> (\<forall>d. c_proc (cpus s' d) = (if d = c then Some p else c_proc (cpus s d)))
        \<and> initproc s' = initproc s \<and> kthreadd_task s' = kthreadd_task s"
proof (cases "task_queue_dequeue_locked s")
  case (Pair r s1)
  show ?thesis
  proof (cases r)
    case None
    with Pair dequeue_ok [OF inv] show ?thesis by (simp add: scheduler_pick_def)
  next
    case (Some p)
    obtain q' where q: "q = p # q'" and s1: "rq_rep (rq s1) q'" "s1 = s\<lparr>rq := rq s1\<rparr>"
      using dequeue_ok [OF inv] Pair Some by auto
    have f1: "ptab s1 = ptab s" "cpus s1 = cpus s" "initproc s1 = initproc s" "kthreadd_task s1 = kthreadd_task s"
      by (subst s1(2), simp)+
    have p: "p < NPROC" "state (ptab s p) = RUNNABLE" using inv q by (auto simp: sched_inv_def runnables_def)
    define s2 where "s2 = upd_cpu c (\<lambda>x. x\<lparr>c_proc := Some p\<rparr>) (upd_proc p (\<lambda>x. x\<lparr>state := RUNNING\<rparr>) s1)"
    define s3 where "s3 = (if proc_pagetable (ptab s2 p) \<noteq> 0 then set_user_pgdir c (proc_pagetable (ptab s2 p)) s2 else s2)"
    have f3: "rq s3 = rq s1" "state (ptab s3 r) = (if r = p then RUNNING else state (ptab s r))"
      "c_proc (cpus s3 d) = (if d = c then Some p else c_proc (cpus s d))" "initproc s3 = initproc s" "kthreadd_task s3 = kthreadd_task s" for r d
      by (simp_all add: s3_def s2_def set_user_pgdir_def f1)
    have "distinct q" using inv rq_rep_distinct by (auto simp: sched_inv_def)
    then have "set q' = runnables s3" using inv q by (auto simp: sched_inv_def runnables_def f3)
    then have i3: "sched_inv s3 q'" using s1(1) by (simp add: sched_inv_def f3)
    have e: "scheduler_pick sy c s = (case prepare_context sy p s3 of Inl e \<Rightarrow> Inl e | Inr s4 \<Rightarrow> Inr (Some p, s4))"
      using Pair Some p f1 unfolding scheduler_pick_def Let_def s3_def s2_def by simp
    show ?thesis
    proof (cases "prepare_context sy p s3")
      case (Inl m)
      with e prepare_context_panic show ?thesis by simp
    next
      case (Inr s4)
      note fr = prepare_context_frame [OF Inr]
      with i3 have "sched_inv s4 q'" by (simp add: same_states_inv)
      with e Inr p q fr f3 show ?thesis by (auto simp: same_states_def)
    qed
  qed
qed

lemma zombie_reap_ok:
  assumes inv: "sched_inv s q" and r: "zombie_reap_locked p s = Inr s'" and z: "state (ptab s p) = ZOMBIE"
  shows "sched_inv s' q \<and> (\<forall>r. state (ptab s' r) = (if r = p then UNUSED else state (ptab s r))) \<and> cpus s' = cpus s
    \<and> initproc s' = initproc s \<and> kthreadd_task s' = kthreadd_task s"
proof -
  have nl: "\<not> on_list p s" using sched_inv_on_list [OF inv, of p] z by (simp add: runnables_def)
  then have "task_queue_unlink_locked p s = s" by (simp add: task_queue_unlink_locked_def)
  then obtain s1 where s1: "kthread_reap p s = Inr s1" "s' = upd_proc p (\<lambda>x. x\<lparr>ctx := zero_context, state := UNUSED, pid := 0,
      parent := None, xstate := 0, kframe := None, mm := None, p_name := []\<rparr>) s1"
    using r z by (auto simp: zombie_reap_locked_def split: sum.splits)
  note fr = kthread_reap_frame [OF s1(1)]
  have "sched_inv s1 q" using inv fr by (simp add: same_states_inv)
  moreover have "state (ptab s1 p) = ZOMBIE" using fr z by (simp add: same_states_def)
  ultimately have "sched_inv s' q" unfolding s1(2) by (intro sched_inv_upd_proc) auto
  with fr show ?thesis by (auto simp: s1(2) same_states_def)
qed

lemma wait_scan_ok:
  assumes "sched_inv s q" and "wait_scan n par is hk fg s = Inr (out, s')"
  shows "sched_inv s' q \<and> cpus s' = cpus s \<and> initproc s' = initproc s \<and> kthreadd_task s' = kthreadd_task s
    \<and> (\<forall>r. state (ptab s' r) = state (ptab s r) \<or> state (ptab s r) = ZOMBIE \<and> state (ptab s' r) = UNUSED)"
  using assms
  by (induction n par "is" hk fg s rule: wait_scan.induct)
    (auto simp: Let_def split: if_splits sum.splits dest: zombie_reap_ok)

end
