(* ===== verification/Sched_Props.thy ===== *)
theory Sched_Props
  imports Sched
begin

text \<open>
  Properties of the scheduler: what \<open>wakeup\<close>, \<open>exit\<close>, \<open>wait\<close> and timed sleep do, the order in which
  processes run, and the runs of the kernel as a step relation over CPUs.

  In a configuration every CPU is in the scheduler, runs a process, or is leaving one: it has
  released \<open>proc_lock\<close> in \<open>sleep\<close>, \<open>yield\<close> or \<open>exit\<close> but has not yet switched stacks. On one CPU no
  step can panic in the run queue; with a second CPU the window before the switch is visible.
\<close>

section \<open>Waking\<close>

text \<open>C21: \<open>wakeup\<close> never panics and makes exactly the processes that sleep on the channel runnable, none
  lost and none woken by mistake; they are appended to the run queue in the order of the process
  table, after the processes that were queued before. Nothing else changes.\<close>

theorem wakeup_exact:
  assumes "sched_inv s q"
  shows "\<exists>s'. wakeup (Some ch) s = Inr s'
    \<and> sched_inv s' (q @ filter (\<lambda>i. state (ptab s i) = SLEEPING \<and> chan (ptab s i) = Some ch) [0..<NPROC])
    \<and> (\<forall>p < NPROC. \<not> (state (ptab s' p) = SLEEPING \<and> chan (ptab s' p) = Some ch))
    \<and> (\<forall>p. if p < NPROC \<and> state (ptab s p) = SLEEPING \<and> chan (ptab s p) = Some ch
           then state (ptab s' p) = RUNNABLE \<and> chan (ptab s' p) = None else ptab s' p = ptab s p)
    \<and> cpus s' = cpus s \<and> kmem s' = kmem s \<and> nextpid s' = nextpid s"
proof -
  obtain h where h: "wakeup (Some ch) s = Inr (s\<lparr>ptab := wake_if (on_chan ch) [0..<NPROC] s, rq := h\<rparr>)"
    "sched_inv (s\<lparr>ptab := wake_if (on_chan ch) [0..<NPROC] s, rq := h\<rparr>) (q @ filter (\<lambda>i. on_chan ch 0 (ptab s i)) [0..<NPROC])"
    using wakeup_ok [OF assms] by blast
  then show ?thesis
    by (intro exI [of _ "s\<lparr>ptab := wake_if (on_chan ch) [0..<NPROC] s, rq := h\<rparr>"]) (auto simp: wake_if_def)
qed

text \<open>A table with three processes: 1 runs, 2 sleeps on a pipe, 3 waits for the tick 10.\<close>

definition demo_proc :: "procstate \<Rightarrow> int \<Rightarrow> proc" where
  "demo_proc st n = zero_proc\<lparr>state := st, pid := n, kstack := 0xC0200000 + word_of_int n * 0x1000,
     ctx := zero_context\<lparr>c_eip := 0xC0100000, c_esp := 0xC0200000 + word_of_int n * 0x1000 + 0x800\<rparr>\<rparr>"

definition demo_syms :: syms where
  "demo_syms = \<lparr>kthread_trampoline = 0xC0100010, user_start_trampoline = 0xC0100000,
     trap_user_return = 0xC0100020, kend = 0xC0180000\<rparr>"

definition demo_sched :: sched where
  "demo_sched = \<lparr>ptab = (\<lambda>_. zero_proc)(1 := demo_proc RUNNING 1, 2 := (demo_proc SLEEPING 2)\<lparr>chan := Some (ChPipeRead 0)\<rparr>,
       3 := (demo_proc SLEEPING 3)\<lparr>wakeup_tick := 10\<rparr>),
     rq = \<lparr>nxt = id, prv = id\<rparr>, nextpid = 4, initproc = Some 1, kthreadd_task = None,
     cpus = (\<lambda>c. \<lparr>c_proc = (if c = 0 then Some 1 else None), c_last_sched = None, c_need_resched = False, c_noff = 0, c_user_pgdir = 0\<rparr>),
     ticks = 0, fg_pid = 1, kmem = demo_pmm, kslab = fst demo_heap\<rparr>"

lemma rq_rep_empty: "rq_rep \<lparr>nxt = id, prv = id\<rparr> []"
  by (simp add: rq_rep_def dlist_def unlinked_def)

lemma demo_states: "state (ptab demo_sched p) = (if p = 1 then RUNNING else if p = 2 \<or> p = 3 then SLEEPING else UNUSED)"
  by (simp add: demo_sched_def demo_proc_def zero_proc_def)

lemma demo_sched_inv: "sched_inv demo_sched []"
  using rq_rep_empty by (auto simp: sched_inv_def runnables_def demo_states) (simp add: demo_sched_def)

theorem wakeup_exact_witness:
  "\<exists>s'. wakeup (Some (ChPipeRead 0)) demo_sched = Inr s' \<and> state (ptab s' 2) = RUNNABLE \<and> state (ptab s' 3) = SLEEPING"
proof -
  obtain s' where s': "wakeup (Some (ChPipeRead 0)) demo_sched = Inr s'"
    "\<forall>p. if p < NPROC \<and> state (ptab demo_sched p) = SLEEPING \<and> chan (ptab demo_sched p) = Some (ChPipeRead 0)
       then state (ptab s' p) = RUNNABLE \<and> chan (ptab s' p) = None else ptab s' p = ptab demo_sched p"
    using wakeup_exact [OF demo_sched_inv, of "ChPipeRead 0"] by blast
  from s'(2) [rule_format, of 2] s'(2) [rule_format, of 3] s'(1) show ?thesis
    by (simp add: demo_sched_def demo_proc_def zero_proc_def NPROC_def)
qed

section \<open>Order\<close>

text \<open>C20: the run queue is first in, first out: after any sequence of enqueues of processes that are not
  queued and dequeues, the processes taken out, followed by those still queued, are those queued at
  the start followed by those enqueued, in that order. So a runnable process is dispatched after at
  most as many dequeues as there were processes before it.\<close>

theorem run_queue_fifo:
  assumes "rq_rep h q" and "distinct (q @ enqueued ops)"
  shows "\<exists>q'. rq_rep (snd (qrun rq_add rq_take ops h)) q' \<and> fst (qrun rq_add rq_take ops h) @ q' = q @ enqueued ops"
  using runq.qrun_fifo [OF assms] by simp

theorem run_queue_fifo_witness:
  "\<exists>q'. rq_rep (snd (qrun rq_add rq_take [Enq 3, Enq 1, Deq, Enq 2] \<lparr>nxt = id, prv = id\<rparr>)) q'
     \<and> fst (qrun rq_add rq_take [Enq 3, Enq 1, Deq, Enq 2] \<lparr>nxt = id, prv = id\<rparr>) @ q' = [3, 1, 2]"
  using run_queue_fifo [OF rq_rep_empty, of "[Enq 3, Enq 1, Deq, Enq 2]"] by simp

section \<open>Timed sleep\<close>

lemma timer_handler_proc:
  assumes "sched_inv s q" and "timer_handler c s = Inr s'" and "p < NPROC"
  shows "ptab s' p = (if expired (ticks s + 1) (ptab s p) then woken (ptab s p) else ptab s p) \<and> ticks s' = ticks s + 1
    \<and> (\<exists>q'. sched_inv s' q')"
proof -
  let ?s = "s\<lparr>ticks := ticks s + 1\<rparr>"
  have inv: "sched_inv ?s q" using assms by simp
  have d: "distinct [0..<NPROC]" "set [0..<NPROC] \<subseteq> {..<NPROC}" by auto
  obtain h where h: "kfold (\<lambda>i s. if expired (ticks s) (ptab s i) then wake_one i s else Inr s) [0..<NPROC] ?s
      = Inr (?s\<lparr>ptab := wake_if expired [0..<NPROC] ?s, rq := h\<rparr>)"
    using wake_loop [OF inv d, of expired] by auto
  have "ptab s' = wake_if expired [0..<NPROC] ?s \<and> ticks s' = ticks s + 1"
    using assms(2) unfolding timer_handler_def sched_tick_eq h
    by (auto split: option.splits if_splits)
  moreover obtain s'' q'' where "timer_handler c s = Inr s''" "sched_inv s'' q''"
    using timer_handler_ok [OF assms(1), of c] by blast
  ultimately show ?thesis using assms(2,3) by (auto simp: wake_if_def)
qed

fun timer_run :: "nat \<Rightarrow> nat \<Rightarrow> 'z sched_scheme \<Rightarrow> 'z sched_scheme kres" where
  "timer_run 0 c s = Inr s"
| "timer_run (Suc n) c s = (case timer_handler c s of Inl e \<Rightarrow> Inl e | Inr s' \<Rightarrow> timer_run n c s')"

lemma timer_run_snoc:
  "timer_run (Suc k) c s = (case timer_run k c s of Inl e \<Rightarrow> Inl e | Inr s' \<Rightarrow> timer_handler c s')"
proof (induction k arbitrary: s)
  case 0
  show ?case by (simp split: sum.split)
next
  case (Suc k)
  show ?case
  proof (cases "timer_handler c s")
    case (Inr s')
    then show ?thesis using Suc [of s'] by simp
  qed simp
qed

lemma timer_run_sleeper:
  assumes "sched_inv s q" and "p < NPROC" and "state (ptab s p) = SLEEPING" and "wakeup_tick (ptab s p) = d"
    and "unat (ticks s) + k < unat d"
  shows "\<exists>s' q'. timer_run k c s = Inr s' \<and> sched_inv s' q' \<and> ptab s' p = ptab s p \<and> unat (ticks s') = unat (ticks s) + k"
  using assms
proof (induction k arbitrary: s q)
  case (Suc k)
  obtain s1 where s1: "timer_handler c s = Inr s1" using timer_handler_ok [OF Suc.prems(1)] by blast
  have t: "unat (ticks s + 1) = unat (ticks s) + 1"
    using Suc.prems(5) unat_u32 [of d] by (simp add: unat_word_ariths)
  then have "\<not> d \<le> ticks s + 1" using Suc.prems(5) by (simp add: word_le_nat_alt)
  with timer_handler_proc [OF Suc.prems(1) s1 Suc.prems(2)] Suc.prems(4)
  obtain q1 where "ptab s1 p = ptab s p" "ticks s1 = ticks s + 1" "sched_inv s1 q1" by auto
  with Suc.IH [of s1 q1] Suc.prems s1 t show ?case by auto
qed auto

lemma sleep_ticks_state:
  assumes "n \<noteq> 0" and "unat (ticks s) + unat n < 2 ^ 32"
  shows "sleep_ticks p n s = (True, upd_proc p (\<lambda>x. x\<lparr>wakeup_tick := ticks s + n, chan := None, state := SLEEPING\<rparr>) s)"
    "unat (ticks s + n) = unat (ticks s) + unat n" "ticks s + n \<noteq> 0"
proof -
  show u: "unat (ticks s + n) = unat (ticks s) + unat n" using assms(2) by (simp add: unat_word_ariths)
  have "0 < unat n" using assms(1) by (simp add: unat_gt_0)
  then have "\<not> ticks s + n \<le> ticks s" "unat (ticks s + n) \<noteq> 0" using u by (auto simp: word_le_nat_alt)
  then show "sleep_ticks p n s = (True, upd_proc p (\<lambda>x. x\<lparr>wakeup_tick := ticks s + n, chan := None, state := SLEEPING\<rparr>) s)"
    "ticks s + n \<noteq> 0" using assms(1) by (auto simp: sleep_ticks_def sleep_deadline_def)
qed

text \<open>C23: a process that sleeps for \<open>n\<close> ticks stays asleep through the first \<open>n - 1\<close> timer interrupts and
  is runnable again after the \<open>n\<close>-th, as long as the 32-bit tick counter does not wrap meanwhile.\<close>

theorem sleep_ticks_exact:
  assumes "sched_inv s q" and "p < NPROC" and "state (ptab s p) = RUNNING" and "n \<noteq> 0"
    and "unat (ticks s) + unat n < 2 ^ 32" and "sleep_ticks p n s = (b, s1)"
  shows "b \<and> (\<forall>k < unat n. \<exists>s'. timer_run k c s1 = Inr s' \<and> state (ptab s' p) = SLEEPING)
    \<and> (\<exists>s'. timer_run (unat n) c s1 = Inr s' \<and> state (ptab s' p) = RUNNABLE)"
proof -
  note sl = sleep_ticks_state(1) [OF assms(4,5), of p] sleep_ticks_state(2,3) [OF assms(4,5)]
  have s1: "s1 = upd_proc p (\<lambda>x. x\<lparr>wakeup_tick := ticks s + n, chan := None, state := SLEEPING\<rparr>) s" and b
    using assms(6) sl(1) by auto
  have inv1: "sched_inv s1 q" unfolding s1 using assms(1,3) by (intro sched_inv_upd_proc) auto
  have p1: "state (ptab s1 p) = SLEEPING" "wakeup_tick (ptab s1 p) = ticks s + n" "ticks s1 = ticks s" by (simp_all add: s1)
  have run: "\<exists>s' q'. timer_run k c s1 = Inr s' \<and> sched_inv s' q' \<and> ptab s' p = ptab s1 p \<and> unat (ticks s') = unat (ticks s) + k"
    if "k < unat n" for k
    using timer_run_sleeper [OF inv1 assms(2) p1(1,2), of k c] that sl(2) p1(3) by simp
  have n: "unat n = (unat n - 1) + 1" using assms(4) by (simp add: unat_gt_0 Suc_leI)
  obtain s2 q2 where s2: "timer_run (unat n - 1) c s1 = Inr s2" "sched_inv s2 q2" "ptab s2 p = ptab s1 p"
    "unat (ticks s2) = unat (ticks s) + (unat n - 1)"
    using run [of "unat n - 1"] n by auto
  have "unat (ticks s2 + 1) = unat (ticks s + n)"
    using s2(4) n assms(5) sl(2) by (simp add: unat_word_ariths)
  then have t2: "ticks s2 + 1 = ticks s + n" by (rule unsigned_word_eqI)
  obtain s3 where s3: "timer_handler c s2 = Inr s3" using timer_handler_ok [OF s2(2)] by blast
  have "state (ptab s3 p) = RUNNABLE"
    using timer_handler_proc [OF s2(2) s3 assms(2)] s2(3) p1 t2 sl(3) by simp
  moreover have "timer_run (unat n) c s1 = Inr s3" using timer_run_snoc [of "unat n - 1" c s1] n s2(1) s3 by simp
  ultimately show ?thesis using \<open>b\<close> run p1(1) by fastforce
qed

theorem sleep_ticks_exact_witness:
  "\<exists>s1 s'. sleep_ticks 1 2 demo_sched = (True, s1) \<and> timer_run 2 0 s1 = Inr s' \<and> state (ptab s' 1) = RUNNABLE"
proof -
  obtain b s1 where r: "sleep_ticks 1 2 demo_sched = (b, s1)" by force
  have "b \<and> (\<forall>k < unat (2 :: u32). \<exists>s'. timer_run k 0 s1 = Inr s' \<and> state (ptab s' 1) = SLEEPING)
      \<and> (\<exists>s'. timer_run (unat (2 :: u32)) 0 s1 = Inr s' \<and> state (ptab s' 1) = RUNNABLE)"
    by (rule sleep_ticks_exact [OF demo_sched_inv _ _ _ _ r])
      (simp_all add: NPROC_def demo_states, simp add: demo_sched_def)
  with r show ?thesis by auto
qed

section \<open>Exit and wait\<close>

text \<open>Kernel stacks are pages the processes own, each its own.\<close>

definition kstack_procs :: "'z sched_scheme \<Rightarrow> nat set" where
  "kstack_procs s = {p. p < NPROC \<and> kstack (ptab s p) \<noteq> 0}"

definition kstacks_inv :: "'z sched_scheme \<Rightarrow> bool" where
  "kstacks_inv s \<longleftrightarrow>
     pmm_owns (kmem s) ((\<lambda>p. (kstack (ptab s p), 0)) ` kstack_procs s) \<and> inj_on (\<lambda>p. kstack (ptab s p)) (kstack_procs s)"

lemma free_page_free_pages: "free_page a m = free_pages a 0 m"
  by (simp add: free_page_def free_pages_def MAX_ORDER_def)

lemma kthread_reap_ok:
  assumes inv: "kstacks_inv s" and p: "p < NPROC"
  shows "\<exists>s'. kthread_reap p s = Inr s' \<and> kstacks_inv s' \<and> kstack (ptab s' p) = 0 \<and> same_states s s'
    \<and> (\<forall>r. ptab s' r = (if r = p then (ptab s p)\<lparr>kstack := 0\<rparr> else ptab s r)) \<and> fg_pid s' = fg_pid s"
proof (cases "kstack (ptab s p) = 0")
  case True
  then have "kthread_reap p s = Inr s" by (simp add: kthread_reap_def)
  moreover have "(ptab s p)\<lparr>kstack := 0\<rparr> = ptab s p" using True by simp
  ultimately show ?thesis using inv True by (auto simp: same_states_def)
next
  case False
  let ?B = "(\<lambda>r. (kstack (ptab s r), 0::nat)) ` kstack_procs s"
  have pin: "p \<in> kstack_procs s" using False p by (simp add: kstack_procs_def)
  have "pmm_owns (kmem s) ?B" "(kstack (ptab s p), 0) \<in> ?B" using inv pin by (auto simp: kstacks_inv_def)
  from pages.owns_free [OF this] obtain m where m: "free_pages (kstack (ptab s p)) 0 (kmem s) = Inr m"
    "pmm_owns m (?B - {(kstack (ptab s p), 0)})" by blast
  let ?s = "upd_proc p (\<lambda>x. x\<lparr>kstack := 0\<rparr>) (s\<lparr>kmem := m\<rparr>)"
  have r: "kthread_reap p s = Inr ?s" using False m(1) by (simp add: kthread_reap_def free_page_free_pages)
  have k: "kstack_procs ?s = kstack_procs s - {p}" using False by (auto simp: kstack_procs_def)
  have inj: "inj_on (\<lambda>r. kstack (ptab s r)) (kstack_procs s)" using inv by (simp add: kstacks_inv_def)
  have eq: "kstack (ptab ?s r) = kstack (ptab s r)" if "r \<in> kstack_procs s - {p}" for r using that by auto
  have "?B - {(kstack (ptab s p), 0)} = (\<lambda>r. (kstack (ptab ?s r), 0)) ` (kstack_procs s - {p})"
    using inj pin by (auto simp: inj_on_def image_iff)
  then have "kstacks_inv ?s"
    using m(2) inj unfolding kstacks_inv_def k by (auto simp: inj_on_def)
  with r show ?thesis by (auto simp: same_states_def)
qed

lemma kstacks_inv_cong:
  "kmem s' = kmem s \<Longrightarrow> (\<And>r. kstack (ptab s' r) = kstack (ptab s r)) \<Longrightarrow> kstacks_inv s' \<longleftrightarrow> kstacks_inv s"
  by (simp add: kstacks_inv_def kstack_procs_def)

lemma zombie_reap_kstacks:
  assumes inv: "sched_inv s q" and ks: "kstacks_inv s" and p: "p < NPROC" "state (ptab s p) = ZOMBIE"
  shows "\<exists>s'. zombie_reap_locked p s = Inr s' \<and> kstacks_inv s' \<and> sched_inv s' q
    \<and> state (ptab s' p) = UNUSED \<and> kstack (ptab s' p) = 0 \<and> (\<forall>r. r \<noteq> p \<longrightarrow> ptab s' r = ptab s r) \<and> fg_pid s' = fg_pid s"
proof -
  obtain s1 where s1: "kthread_reap p s = Inr s1" "kstacks_inv s1" "kstack (ptab s1 p) = 0"
    "\<forall>r. ptab s1 r = (if r = p then (ptab s p)\<lparr>kstack := 0\<rparr> else ptab s r)" "fg_pid s1 = fg_pid s"
    using kthread_reap_ok [OF ks p(1)] by blast
  have "\<not> on_list p s" using sched_inv_on_list [OF inv, of p] p by (simp add: runnables_def)
  then have "task_queue_unlink_locked p s = s" by (simp add: task_queue_unlink_locked_def)
  then have r: "zombie_reap_locked p s = Inr (upd_proc p (\<lambda>x. x\<lparr>ctx := zero_context, state := UNUSED, pid := 0,
      parent := None, xstate := 0, kframe := None, mm := None, p_name := []\<rparr>) s1)"
    using p(2) s1(1) by (simp add: zombie_reap_locked_def)
  then have "sched_inv (upd_proc p (\<lambda>x. x\<lparr>ctx := zero_context, state := UNUSED, pid := 0,
      parent := None, xstate := 0, kframe := None, mm := None, p_name := []\<rparr>) s1) q"
    using zombie_reap_ok [OF inv r p(2)] by blast
  moreover have "kstacks_inv (upd_proc p (\<lambda>x. x\<lparr>ctx := zero_context, state := UNUSED, pid := 0,
      parent := None, xstate := 0, kframe := None, mm := None, p_name := []\<rparr>) s1)"
    using s1(2) by (subst kstacks_inv_cong [of _ s1]) auto
  ultimately show ?thesis using r s1(3-5) by auto
qed

definition kid :: "nat \<Rightarrow> proc \<Rightarrow> bool" where
  "kid par x \<longleftrightarrow> parent x = Some par \<and> state x \<noteq> UNUSED"

definition wanted_zombie :: "int \<Rightarrow> nat \<Rightarrow> proc \<Rightarrow> bool" where
  "wanted_zombie n par x \<longleftrightarrow> parent x = Some par \<and> state x = ZOMBIE \<and> (n = - 1 \<or> pid x = n)"

lemma wait_scan_cases:
  assumes "sched_inv s q" and "kstacks_inv s" and "set is \<subseteq> {..<NPROC}"
  shows "\<exists>out s'. wait_scan n par is hk fg s = Inr (out, s')
    \<and> (case out of
         WReaped f x \<Rightarrow> \<exists>i \<in> set is. wanted_zombie n par (ptab s i) \<and> f = pid (ptab s i) \<and> x = xstate (ptab s i)
           \<and> zombie_reap_locked i s = Inr s'
       | WNoKids \<Rightarrow> \<not> hk \<and> (\<forall>i \<in> set is. \<not> kid par (ptab s i)) \<and> s' = s
       | WBlock _ \<Rightarrow> (hk \<or> (\<exists>i \<in> set is. kid par (ptab s i))) \<and> (\<forall>i \<in> set is. \<not> wanted_zombie n par (ptab s i)) \<and> s' = s)"
  using assms(3)
proof (induction "is" arbitrary: hk fg)
  case (Cons i "is")
  have sub: "set is \<subseteq> {..<NPROC}" and i: "i < NPROC" using Cons.prems by auto
  show ?case
  proof (cases "wanted_zombie n par (ptab s i)")
    case True
    then obtain s' where "zombie_reap_locked i s = Inr s'"
      using zombie_reap_kstacks [OF assms(1,2) i] by (auto simp: wanted_zombie_def)
    with True show ?thesis by (auto simp: Let_def wanted_zombie_def)
  next
    case False
    define hk' where "hk' = (hk \<or> kid par (ptab s i))"
    have "\<exists>fg'. wait_scan n par (i # is) hk fg s = wait_scan n par is hk' fg' s"
      using False by (auto simp: Let_def wanted_zombie_def kid_def hk'_def)
    then obtain fg' where e: "wait_scan n par (i # is) hk fg s = wait_scan n par is hk' fg' s" by blast
    obtain out s' where o: "wait_scan n par is hk' fg' s = Inr (out, s')"
      "case out of
         WReaped f x \<Rightarrow> \<exists>i \<in> set is. wanted_zombie n par (ptab s i) \<and> f = pid (ptab s i) \<and> x = xstate (ptab s i)
           \<and> zombie_reap_locked i s = Inr s'
       | WNoKids \<Rightarrow> \<not> hk' \<and> (\<forall>i \<in> set is. \<not> kid par (ptab s i)) \<and> s' = s
       | WBlock _ \<Rightarrow> (hk' \<or> (\<exists>i \<in> set is. kid par (ptab s i))) \<and> (\<forall>i \<in> set is. \<not> wanted_zombie n par (ptab s i)) \<and> s' = s"
      using Cons.IH [OF sub, of hk' fg'] by blast
    then show ?thesis unfolding e using False
      by (intro exI [of _ out] exI [of _ s']) (cases out; auto simp: hk'_def)
  qed
qed auto


text \<open>Process 1 with a zombie child.\<close>

definition demo_wait :: sched where
  "demo_wait = demo_sched\<lparr>ptab := (\<lambda>_. zero_proc)(1 := zero_proc\<lparr>state := RUNNING, pid := 1\<rparr>,
     2 := zero_proc\<lparr>state := ZOMBIE, pid := 2, parent := Some 1, xstate := 256\<rparr>)\<rparr>"

lemma demo_wait_inv: "sched_inv demo_wait []" "kstacks_inv demo_wait"
proof -
  have "runnables demo_wait = {}" by (auto simp: demo_wait_def runnables_def zero_proc_def)
  then show "sched_inv demo_wait []" using rq_rep_empty by (simp add: sched_inv_def demo_wait_def demo_sched_def)
  have "kstack_procs demo_wait = {}" by (auto simp: kstack_procs_def demo_wait_def zero_proc_def)
  moreover have "pmm_owns demo_pmm {}" using demo_pmm(2) by (auto simp: pmm_owns_def)
  ultimately show "kstacks_inv demo_wait" by (simp add: kstacks_inv_def demo_wait_def demo_sched_def)
qed


text \<open>The last part of \<open>exit\<close> never panics: the process is a zombie with its exit status, is not
  queued, its children belong to init, its parent no longer sleeps in \<open>wait\<close>, and every other
  process keeps its state or is woken.\<close>

theorem exit_zombie_spec:
  assumes "sched_inv s q"
  shows "\<exists>s' q'. exit_zombie p xst s = Inr s' \<and> sched_inv s' (remove1 p q @ q')
    \<and> state (ptab s' p) = ZOMBIE \<and> xstate (ptab s' p) = xst
    \<and> (\<forall>r. r \<noteq> p \<longrightarrow> state (ptab s' r) = state (ptab s r) \<or> state (ptab s r) = SLEEPING \<and> state (ptab s' r) = RUNNABLE)
    \<and> (\<forall>r < NPROC. kid p (ptab s r) \<longrightarrow> parent (ptab s' r) = initproc s)
    \<and> (\<forall>r < NPROC. parent (ptab s p) = Some r \<and> r \<noteq> p \<longrightarrow> \<not> (state (ptab s' r) = SLEEPING \<and> chan (ptab s' r) = Some (ChProc r)))"
proof -
  obtain s' q' where "exit_zombie p xst s = Inr s'" "sched_inv s' (remove1 p q @ q')"
    "state (ptab s' p) = ZOMBIE" "xstate (ptab s' p) = xst"
    "\<forall>r. r \<noteq> p \<longrightarrow> state (ptab s' r) = state (ptab s r) \<or> state (ptab s r) = SLEEPING \<and> state (ptab s' r) = RUNNABLE"
    "\<forall>r. r < NPROC \<and> parent (ptab s r) = Some p \<and> state (ptab s r) \<noteq> UNUSED \<longrightarrow> parent (ptab s' r) = initproc s"
    "\<forall>r. parent (ptab s p) = Some r \<and> r \<noteq> p \<and> r < NPROC \<longrightarrow> \<not> (state (ptab s' r) = SLEEPING \<and> chan (ptab s' r) = Some (ChProc r))"
    using exit_zombie_ok [OF assms, of p xst] by blast
  then show ?thesis unfolding kid_def by blast
qed

theorem exit_zombie_spec_witness:
  "\<exists>s'. exit_zombie 1 0 demo_wait = Inr s' \<and> state (ptab s' 1) = ZOMBIE \<and> parent (ptab s' 2) = initproc demo_wait"
proof -
  have "kid 1 (ptab demo_wait 2)" "2 < NPROC" by (simp_all add: kid_def demo_wait_def zero_proc_def NPROC_def)
  then show ?thesis using exit_zombie_spec [OF demo_wait_inv(1), of 1 0] by blast
qed

section \<open>Runs of the kernel\<close>

datatype phase = InSched | Run nat | Leave nat

record kconf =
  ks :: sched
  ph :: "nat \<Rightarrow> phase"

text \<open>
  The steps of \<open>n\<close> CPUs. A process that runs may yield, sleep, exit, wait, create a process or start
  one it has created; interrupts and running processes wake sleepers; \<open>r\<close> stands for the registers
  \<open>swtch\<close> stores.
\<close>

inductive cstep :: "nat \<Rightarrow> syms \<Rightarrow> kconf \<Rightarrow> kconf \<Rightarrow> bool" for n sy where
  pick: "c < n \<Longrightarrow> ph g c = InSched \<Longrightarrow> scheduler_pick sy c (ks g) = Inr (Some p, s')
    \<Longrightarrow> cstep n sy g (g\<lparr>ks := s', ph := (ph g)(c := Run p)\<rparr>)"
| give_up: "c < n \<Longrightarrow> ph g c = Run p \<Longrightarrow> yield c p (ks g) = Inr s'
    \<Longrightarrow> cstep n sy g (g\<lparr>ks := s', ph := (ph g)(c := Leave p)\<rparr>)"
| block: "c < n \<Longrightarrow> ph g c = Run p \<Longrightarrow> sleep p (Some ch) (ks g) = Inr s'
    \<Longrightarrow> cstep n sy g (g\<lparr>ks := s', ph := (ph g)(c := Leave p)\<rparr>)"
| nap: "c < n \<Longrightarrow> ph g c = Run p \<Longrightarrow> sleep_deadline p d (ks g) = (True, s')
    \<Longrightarrow> cstep n sy g (g\<lparr>ks := s', ph := (ph g)(c := Leave p)\<rparr>)"
| die: "c < n \<Longrightarrow> ph g c = Run p \<Longrightarrow> exit_zombie p xst (ks g) = Inr s'
    \<Longrightarrow> cstep n sy g (g\<lparr>ks := s', ph := (ph g)(c := Leave p)\<rparr>)"
| kdie: "c < n \<Longrightarrow> ph g c = Run p \<Longrightarrow> kthread_exit p (ks g) = Inr s'
    \<Longrightarrow> cstep n sy g (g\<lparr>ks := s', ph := (ph g)(c := Leave p)\<rparr>)"
| switch: "c < n \<Longrightarrow> ph g c = Leave p \<Longrightarrow> scheduler_return c (sched_switch c p r (ks g)) = Inr s'
    \<Longrightarrow> cstep n sy g (g\<lparr>ks := s', ph := (ph g)(c := InSched)\<rparr>)"
| wake: "wakeup ch (ks g) = Inr s' \<Longrightarrow> cstep n sy g (g\<lparr>ks := s'\<rparr>)"
| tick: "c < n \<Longrightarrow> timer_handler c (ks g) = Inr s' \<Longrightarrow> cstep n sy g (g\<lparr>ks := s'\<rparr>)"
| create: "c < n \<Longrightarrow> ph g c = Run p \<Longrightarrow> proc_alloc (ks g) = Inr (r, s') \<Longrightarrow> cstep n sy g (g\<lparr>ks := s'\<rparr>)"
| start: "c < n \<Longrightarrow> ph g c = Run p \<Longrightarrow> np < NPROC \<Longrightarrow> state (ptab (ks g) np) = USED
    \<Longrightarrow> task_queue_enqueue_locked np (upd_proc np (\<lambda>x. x\<lparr>state := RUNNABLE\<rparr>) (ks g)) = Inr s'
    \<Longrightarrow> cstep n sy g (g\<lparr>ks := s'\<rparr>)"
| reap: "c < n \<Longrightarrow> ph g c = Run p \<Longrightarrow> wait_child m p (ks g) = Inr (out, s') \<Longrightarrow> cstep n sy g (g\<lparr>ks := s'\<rparr>)"

definition up_inv :: "kconf \<Rightarrow> bool" where
  "up_inv g \<longleftrightarrow> (\<exists>q. sched_inv (ks g) q) \<and> (\<forall>p. ph g 0 = Run p \<longrightarrow> p < NPROC)
     \<and> (\<forall>r < NPROC. state (ptab (ks g) r) = RUNNING \<longleftrightarrow> ph g 0 = Run r)"

lemma up_inv_states:
  assumes "up_inv g" and "sched_inv s' q'"
    and "\<And>r. state (ptab s' r) = RUNNING \<longleftrightarrow> state (ptab (ks g) r) = RUNNING"
  shows "up_inv (g\<lparr>ks := s'\<rparr>)"
  using assms by (auto simp: up_inv_def)

lemma up_inv_leave:
  assumes "up_inv g" and "ph g 0 = Run p" and "sched_inv s' q'" and "state (ptab s' p) \<noteq> RUNNING"
    and "\<And>r. r \<noteq> p \<Longrightarrow> state (ptab s' r) = RUNNING \<longleftrightarrow> state (ptab (ks g) r) = RUNNING"
  shows "up_inv (g\<lparr>ks := s', ph := (ph g)(0 := Leave p)\<rparr>)"
proof -
  have "state (ptab s' r) \<noteq> RUNNING" if "r < NPROC" for r
    using assms that by (cases "r = p") (auto simp: up_inv_def)
  then show ?thesis using assms(3) by (auto simp: up_inv_def)
qed

lemma woken_running: "a = b \<or> b = SLEEPING \<and> a = RUNNABLE \<Longrightarrow> a = RUNNING \<longleftrightarrow> b = RUNNING"
  by auto

lemma scheduler_return_frame:
  assumes "scheduler_return c (sched_switch c p r s) = Inr s'"
  shows "rq s' = rq s" "state (ptab s' x) = state (ptab s x)"
proof -
  have "rq s' = rq s \<and> (\<forall>x. state (ptab s' x) = state (ptab s x))"
    using assms by (auto simp: scheduler_return_def sched_switch_def Let_def same_states_def
        split: option.splits if_splits sum.splits dest!: kthread_reap_frame)
  then show "rq s' = rq s" "state (ptab s' x) = state (ptab s x)" by auto
qed

lemma wakeup_states:
  assumes inv: "sched_inv s q" and w: "wakeup ch s = Inr s'"
  shows "(\<exists>q'. sched_inv s' (q @ q'))
    \<and> (\<forall>r. state (ptab s' r) = state (ptab s r) \<or> state (ptab s r) = SLEEPING \<and> state (ptab s' r) = RUNNABLE)"
proof (cases ch)
  case None
  with w have "s' = s" by (simp add: wakeup_def)
  with inv show ?thesis by (metis append_Nil2)
next
  case (Some c)
  obtain h where h: "wakeup (Some c) s = Inr (s\<lparr>ptab := wake_if (on_chan c) [0..<NPROC] s, rq := h\<rparr>)"
    "sched_inv (s\<lparr>ptab := wake_if (on_chan c) [0..<NPROC] s, rq := h\<rparr>) (q @ filter (\<lambda>i. on_chan c 0 (ptab s i)) [0..<NPROC])"
    using wakeup_ok [OF inv] by blast
  have "s' = s\<lparr>ptab := wake_if (on_chan c) [0..<NPROC] s, rq := h\<rparr>" using w h(1) Some by simp
  with h(2) have "\<exists>q'. sched_inv s' (q @ q')" "ptab s' = wake_if (on_chan c) [0..<NPROC] s" by auto
  then show ?thesis by (auto simp: wake_if_def)
qed

lemma wait_child_states:
  assumes "sched_inv s q" and "wait_child n par s = Inr (out, s')"
  shows "sched_inv s' q \<and> (\<forall>r. state (ptab s' r) = state (ptab s r) \<or> state (ptab s r) = ZOMBIE \<and> state (ptab s' r) = UNUSED)"
proof -
  obtain out1 s1 where w: "wait_scan n par [0..<NPROC] False 0 s = Inr (out1, s1)"
    using assms(2) by (auto simp: wait_child_def split: sum.splits)
  have "\<exists>fg. s' = s1\<lparr>fg_pid := fg\<rparr>"
    using assms(2) w by (cases out1) (auto simp: wait_child_def split: if_splits intro: exI [of _ "fg_pid s1"])
  with wait_scan_ok [OF assms(1) w] show ?thesis by auto
qed

lemma reaped_running: "a = b \<or> b = ZOMBIE \<and> a = UNUSED \<Longrightarrow> a = RUNNING \<longleftrightarrow> b = RUNNING"
  by auto

lemma up_inv_step:
  assumes "cstep 1 sy g g'" and "up_inv g"
  shows "up_inv g'"
proof -
  obtain q where inv: "sched_inv (ks g) q" using assms(2) by (auto simp: up_inv_def)
  have run: "p < NPROC \<and> state (ptab (ks g) p) = RUNNING" if "ph g 0 = Run p" for p
    using assms(2) that by (auto simp: up_inv_def)
  from assms(1) show ?thesis
  proof cases
    case (pick c p s')
    have "\<forall>r. state (ptab s' r) = (if r = p then RUNNING else state (ptab (ks g) r))" "p < NPROC" "\<exists>q. sched_inv s' q"
      using scheduler_pick_ok [where sy = sy and c = c, OF inv] pick by auto
    then show ?thesis using pick assms(2) by (auto simp: up_inv_def)
  next
    case (give_up c p s')
    with yield_ok [OF inv, of p c] run [of p] obtain q' where "sched_inv s' q'" "state (ptab s' p) = RUNNABLE"
      "\<forall>r. r \<noteq> p \<longrightarrow> ptab s' r = ptab (ks g) r" by auto
    then show ?thesis using give_up assms(2) by (auto intro: up_inv_leave)
  next
    case (block c p ch s')
    with sleep_ok [OF inv, of p ch] run [of p] have "sched_inv s' q" "state (ptab s' p) = SLEEPING"
      "\<forall>r. r \<noteq> p \<longrightarrow> ptab s' r = ptab (ks g) r" by auto
    then show ?thesis using block assms(2) by (auto intro: up_inv_leave)
  next
    case (nap c p d s')
    with sleep_deadline_ok [OF inv, of p d True s'] run [of p] have "sched_inv s' q" "state (ptab s' p) = SLEEPING"
      "\<forall>r. r \<noteq> p \<longrightarrow> ptab s' r = ptab (ks g) r" by auto
    then show ?thesis using nap assms(2) by (auto intro: up_inv_leave)
  next
    case (die c p xst s')
    with exit_zombie_ok [OF inv, of p xst] obtain q' where "sched_inv s' q'" "state (ptab s' p) = ZOMBIE"
      "\<forall>r. r \<noteq> p \<longrightarrow> state (ptab s' r) = state (ptab (ks g) r) \<or> state (ptab (ks g) r) = SLEEPING \<and> state (ptab s' r) = RUNNABLE" by auto
    then show ?thesis using die assms(2) by (auto intro!: up_inv_leave woken_running)
  next
    case (kdie c p s')
    then have s': "s' = upd_proc p (\<lambda>x. x\<lparr>entry := 0, entry_arg := 0, state := UNUSED, pid := 0, p_name := []\<rparr>) (ks g)"
      by (auto simp: kthread_exit_def split: if_splits)
    have "sched_inv s' q" unfolding s' using inv run [of p] kdie by (intro sched_inv_upd_proc) auto
    then show ?thesis using kdie assms(2) s' by (auto intro!: up_inv_leave)
  next
    case (switch c p r s')
    note fr = scheduler_return_frame [OF switch(4)]
    have "sched_inv s' q" using inv fr by (simp add: sched_inv_def runnables_def)
    then show ?thesis using switch assms(2) fr by (auto simp: up_inv_def)
  next
    case (wake ch s')
    with wakeup_states [OF inv] obtain q' where "sched_inv s' (q @ q')"
      "\<forall>r. state (ptab s' r) = state (ptab (ks g) r) \<or> state (ptab (ks g) r) = SLEEPING \<and> state (ptab s' r) = RUNNABLE" by blast
    then show ?thesis using wake assms(2) by (auto intro!: up_inv_states woken_running)
  next
    case (tick c s')
    obtain q' where "sched_inv s' q'" "\<forall>r. state (ptab s' r) = state (ptab (ks g) r) \<or> state (ptab (ks g) r) = SLEEPING \<and> state (ptab s' r) = RUNNABLE"
      using tick timer_handler_ok [OF inv, of c] by auto
    then show ?thesis using tick assms(2) by (auto intro!: up_inv_states woken_running)
  next
    case (create c p r s')
    have "sched_inv s' q" "\<forall>x. state (ptab s' x) = RUNNING \<longleftrightarrow> state (ptab (ks g) x) = RUNNING"
      using create proc_alloc_ok [OF inv] by (auto split: option.splits)
    then show ?thesis using create assms(2) by (auto intro!: up_inv_states)
  next
    case (start c p np s')
    have "task_queue_enqueue_locked np (upd_proc np (\<lambda>x. x\<lparr>state := RUNNABLE\<rparr>) (ks g)) = Inr s' \<and> sched_inv s' (q @ [np])"
      using start enqueue_ok [OF inv, of np "upd_proc np (\<lambda>x. x\<lparr>state := RUNNABLE\<rparr>) (ks g)"] by auto
    then show ?thesis using start assms(2) by (auto intro!: up_inv_states simp: task_queue_enqueue_locked_def split: if_splits)
  next
    case (reap c p m out s')
    have "sched_inv s' q" "\<forall>x. state (ptab s' x) = RUNNING \<longleftrightarrow> state (ptab (ks g) x) = RUNNING"
      using wait_child_states [OF inv reap(4)] by (blast, metis reaped_running)
    then show ?thesis using reap assms(2) by (auto intro!: up_inv_states)
  qed
qed

lemma up_inv_reachable: "(cstep 1 sy)\<^sup>*\<^sup>* g0 g \<Longrightarrow> up_inv g0 \<Longrightarrow> up_inv g"
  by (induction rule: rtranclp_induct) (auto intro: up_inv_step)

text \<open>C5: on one CPU the run queue never panics. In every configuration a run can reach, waking a channel,
  a timer interrupt and the allocation of a process return; a process that runs can yield and exit;
  and the scheduler never finds a process on the queue that is not runnable.\<close>

theorem up_no_queue_panic:
  assumes "(cstep 1 sy)\<^sup>*\<^sup>* g0 g" and "up_inv g0"
  shows "(\<exists>s'. wakeup ch (ks g) = Inr s') \<and> (\<exists>s'. timer_handler 0 (ks g) = Inr s') \<and> (\<exists>r. proc_alloc (ks g) = Inr r)
    \<and> (\<forall>e. scheduler_pick sy 0 (ks g) = Inl e \<longrightarrow> e \<notin> queue_panics)
    \<and> (\<forall>p. ph g 0 = Run p \<longrightarrow> (\<exists>s'. yield 0 p (ks g) = Inr s') \<and> (\<exists>s'. exit_zombie p xst (ks g) = Inr s'))"
proof -
  have up: "up_inv g" using assms by (rule up_inv_reachable)
  then obtain q where inv: "sched_inv (ks g) q" by (auto simp: up_inv_def)
  have "\<exists>s'. wakeup ch (ks g) = Inr s'" using wakeup_ok [OF inv] by (cases ch) (auto simp: wakeup_def [of None])
  moreover have "\<exists>s'. timer_handler 0 (ks g) = Inr s'" using timer_handler_ok [OF inv] by blast
  moreover have "\<exists>r. proc_alloc (ks g) = Inr r" using proc_alloc_ok [OF inv] by blast
  moreover have "\<forall>e. scheduler_pick sy 0 (ks g) = Inl e \<longrightarrow> e \<notin> queue_panics"
    using scheduler_pick_ok [OF inv, where sy = sy and c = 0] by auto
  moreover have "(\<exists>s'. yield 0 p (ks g) = Inr s') \<and> (\<exists>s'. exit_zombie p xst (ks g) = Inr s')" if "ph g 0 = Run p" for p
  proof -
    have "p < NPROC" "state (ptab (ks g) p) = RUNNING" using up that by (auto simp: up_inv_def)
    then show ?thesis using yield_ok [OF inv, of p 0] exit_zombie_ok [OF inv, of p xst] by auto
  qed
  ultimately show ?thesis by blast
qed

definition demo_conf :: kconf where
  "demo_conf = \<lparr>ks = demo_sched, ph = (\<lambda>_. InSched)(0 := Run 1)\<rparr>"

lemma demo_conf_up: "up_inv demo_conf"
  using demo_sched_inv by (auto simp: up_inv_def demo_conf_def demo_states NPROC_def)

theorem up_no_queue_panic_witness:
  "ph demo_conf 0 = Run 1 \<and> (\<exists>s'. yield 0 1 (ks demo_conf) = Inr s') \<and> (\<exists>s'. timer_handler 0 (ks demo_conf) = Inr s')"
  using up_no_queue_panic [OF rtranclp.rtrancl_refl demo_conf_up] by (simp add: demo_conf_def)

definition on_stack :: "kconf \<Rightarrow> nat \<Rightarrow> nat \<Rightarrow> bool" where
  "on_stack g c p \<longleftrightarrow> ph g c = Run p \<or> ph g c = Leave p"

text \<open>C31: with two CPUs the scheduler is not safe. \<open>yield\<close> puts the process on the queue and releases
  \<open>proc_lock\<close> before it switches away from its kernel stack: there is a run in which the other CPU
  dispatches the process, with the registers of its last switch, while the first CPU still runs on
  that stack.\<close>

theorem smp_two_cpus_one_stack:
  "\<exists>g. (cstep 2 demo_syms)\<^sup>*\<^sup>* demo_conf g \<and> on_stack g 0 1 \<and> on_stack g 1 1 \<and> kstack (ptab (ks g) 1) \<noteq> 0"
proof -
  obtain s1 where s1: "yield 0 1 demo_sched = Inr s1" "sched_inv s1 [1]" "state (ptab s1 1) = RUNNABLE"
    using yield_ok [OF demo_sched_inv, of 1 0] by (auto simp: NPROC_def demo_states)
  let ?g1 = "demo_conf\<lparr>ks := s1, ph := (ph demo_conf)(0 := Leave 1)\<rparr>"
  have st1: "cstep 2 demo_syms demo_conf ?g1"
    by (rule cstep.give_up) (use s1(1) in \<open>simp_all add: demo_conf_def\<close>)
  have p1: "kstack (ptab s1 1) = 0xC0201000" "ctx (ptab s1 1) = zero_context\<lparr>c_eip := 0xC0100000, c_esp := 0xC0201800\<rparr>"
    "mm (ptab s1 1) = None"
    using s1(1) by (auto simp: yield_def task_queue_enqueue_locked_def demo_sched_def demo_proc_def zero_proc_def split: if_splits)
  have sane: "prepare_context demo_syms 1 s = Inr s" if "kstack (ptab s 1) = 0xC0201000"
    "ctx (ptab s 1) = zero_context\<lparr>c_eip := 0xC0100000, c_esp := 0xC0201800\<rparr>" for s :: sched
    using that by (simp add: prepare_context_def context_sane_def context_on_kstack_def demo_syms_def KSTACKSIZE_def PGSIZE_def Let_def)
  obtain s2 where d: "task_queue_dequeue_locked s1 = (Some 1, s2)" "s2 = s1\<lparr>rq := rq s2\<rparr>"
    using dequeue_ok [OF s1(2)] by (auto split: prod.splits option.splits)
  have s2: "ptab s2 = ptab s1" by (subst d(2)) simp
  let ?s3 = "upd_cpu 1 (\<lambda>x. x\<lparr>c_proc := Some 1\<rparr>) (upd_proc 1 (\<lambda>x. x\<lparr>state := RUNNING\<rparr>) s2)"
  have "scheduler_pick demo_syms 1 s1 = Inr (Some 1, ?s3)"
    using d(1) s1(3) p1 sane [of ?s3] by (simp add: scheduler_pick_def Let_def s2 proc_pagetable_def)
  then have "cstep 2 demo_syms ?g1 (?g1\<lparr>ks := ?s3, ph := (ph ?g1)(1 := Run 1)\<rparr>)"
    by (intro cstep.pick) (simp_all add: demo_conf_def)
  with st1 have "(cstep 2 demo_syms)\<^sup>*\<^sup>* demo_conf (?g1\<lparr>ks := ?s3, ph := (ph ?g1)(1 := Run 1)\<rparr>)" by auto
  moreover have "kstack (ptab ?s3 1) \<noteq> 0" using p1 s2 by simp
  ultimately show ?thesis by (intro exI conjI) (auto simp: on_stack_def)
qed

text \<open>A parent on the first CPU and its child on the second.\<close>

definition demo_family :: kconf where
  "demo_family = \<lparr>ks = demo_sched\<lparr>ptab := (\<lambda>_. zero_proc)(1 := zero_proc\<lparr>state := RUNNING, pid := 1\<rparr>,
       2 := zero_proc\<lparr>state := RUNNING, pid := 2, parent := Some 1\<rparr>)\<rparr>, ph = (\<lambda>_. InSched)(0 := Run 1, 1 := Run 2)\<rparr>"

lemma demo_family_inv: "sched_inv (ks demo_family) []" "kstacks_inv (ks demo_family)"
proof -
  have "runnables (ks demo_family) = {}" by (auto simp: demo_family_def runnables_def zero_proc_def)
  then show "sched_inv (ks demo_family) []"
    using rq_rep_empty by (simp add: sched_inv_def demo_family_def demo_sched_def)
  have "kstack_procs (ks demo_family) = {}" by (auto simp: kstack_procs_def demo_family_def zero_proc_def)
  moreover have "pmm_owns demo_pmm {}" using demo_pmm(2) by (auto simp: pmm_owns_def)
  ultimately show "kstacks_inv (ks demo_family)" by (simp add: kstacks_inv_def demo_family_def demo_sched_def)
qed


end
