(* ===== verification/Vm.thy ===== *)
theory Vm
  imports Slab
begin

text \<open>
  Page tables, src/arch/x86/kernel/mm/vm.c, over the memory of the page allocator.

  Page directories and page tables are pages of \<open>ram\<close>; an entry is a 32-bit word there and a pointer
  to an entry is its address. A page table or frame is reached through the kernel's direct map
  (\<open>P2V\<close>). The kernel's page directory is a static array, so its address \<open>kpgdir\<close> is an argument.
  The model has no TLB: a flush of it is the identity. Messages are left out.
\<close>

section \<open>Entries\<close>

definition PDX :: "u32 \<Rightarrow> u32" where "PDX va = drop_bit 22 va AND 0x3ff"
definition PTX :: "u32 \<Rightarrow> u32" where "PTX va = drop_bit 12 va AND 0x3ff"
definition PTE_ADDR :: "u32 \<Rightarrow> u32" where "PTE_ADDR pte = pte AND 0xfffff000"
definition PA2PTE :: "u32 \<Rightarrow> u32" where "PA2PTE pa = pa AND 0xfffff000"
definition PTE_P :: u32 where "PTE_P = 0x001"
definition PTE_W :: u32 where "PTE_W = 0x002"
definition PTE_U :: u32 where "PTE_U = 0x004"
definition PTE_COW :: u32 where "PTE_COW = 0x200"
definition MAX_KERNEL_PT :: nat where "MAX_KERNEL_PT = 1024"
definition KERNEL_BOOT_IDMAP_END :: u32 where "KERNEL_BOOT_IDMAP_END = 0x00400000"

definition pgdir_phys :: "u32 \<Rightarrow> u32" where
  "pgdir_phys pd = (if pd \<noteq> 0 then V2P pd else 0)"

definition pde_pt_kva :: "u32 \<Rightarrow> u32" where
  "pde_pt_kva pde = P2V (PTE_ADDR pde)"

definition pte_page_kva :: "u32 \<Rightarrow> u32" where
  "pte_page_kva pte = P2V (PTE_ADDR pte)"

definition rd32 :: "u32 \<Rightarrow> pmm \<Rightarrow> u32" where
  "rd32 a m = load32 (ram m) a"

definition wr32 :: "u32 \<Rightarrow> u32 \<Rightarrow> pmm \<Rightarrow> pmm" where
  "wr32 a v m = m\<lparr>ram := store32 a v (ram m)\<rparr>"

text \<open>The pages \<open>a, a + PGSIZE, ...\<close>, and those that \<open>for (x = a; x < e; x += PGSIZE)\<close> visits.\<close>

definition page_list :: "u32 \<Rightarrow> nat \<Rightarrow> u32 list" where
  "page_list a n = map (\<lambda>i. a + of_nat i * PGSIZE) [0..<n]"

definition page_range :: "u32 \<Rightarrow> u32 \<Rightarrow> u32 list" where
  "page_range a e = page_list a ((unat e - unat a + 4095) div 4096)"

text \<open>Byte loops: \<open>dst[i] = src[i]\<close> within memory, and from a buffer.\<close>

definition copy_mem :: "u32 \<Rightarrow> u32 \<Rightarrow> nat \<Rightarrow> (u32 \<Rightarrow> u8) \<Rightarrow> (u32 \<Rightarrow> u8)" where
  "copy_mem dst src n m = fold (\<lambda>i m. m(dst + of_nat i := m (src + of_nat i))) [0..<n] m"

fun put_bytes :: "u32 \<Rightarrow> u8 list \<Rightarrow> (u32 \<Rightarrow> u8) \<Rightarrow> (u32 \<Rightarrow> u8)" where
  "put_bytes a [] m = m"
| "put_bytes a (b # bs) m = put_bytes (a + 1) bs (m(a := b))"

definition get_bytes :: "u32 \<Rightarrow> nat \<Rightarrow> (u32 \<Rightarrow> u8) \<Rightarrow> u8 list" where
  "get_bytes a n m = map (\<lambda>i. m (a + of_nat i)) [0..<n]"

section \<open>Walking and mapping\<close>

text \<open>The address of the entry for \<open>va\<close>, \<open>None\<close> for a null pointer.\<close>

definition walk :: "u32 \<Rightarrow> u32 \<Rightarrow> bool \<Rightarrow> bool \<Rightarrow> pmm \<Rightarrow> u32 option \<times> pmm" where
  "walk pd va alloc user m =
     (let pdea = pd + 4 * PDX va; pde = rd32 pdea m
      in if pde AND PTE_P \<noteq> 0 then (Some (pde_pt_kva pde + 4 * PTX va), m)
      else if \<not> alloc then (None, m)
      else case alloc_page m of
             (None, m1) \<Rightarrow> (None, m1)
           | (Some pt, m1) \<Rightarrow>
               (Some (pt + 4 * PTX va),
                if user then wr32 pdea (PA2PTE (V2P pt) OR PTE_P OR PTE_W OR PTE_U) m1
                else wr32 pdea (PA2PTE (V2P pt) OR PTE_P OR PTE_W) m1))"

text \<open>The loop of \<open>mappages\<close> over the pages \<open>va .. last\<close>; each iteration also advances \<open>pa\<close>.\<close>

fun map_loop :: "u32 \<Rightarrow> u32 \<Rightarrow> bool \<Rightarrow> u32 list \<Rightarrow> u32 \<Rightarrow> pmm \<Rightarrow> int \<times> pmm" where
  "map_loop pd perm user [] pa m = (0, m)"
| "map_loop pd perm user (a # as) pa m =
     (case walk pd a True user m of
        (None, m1) \<Rightarrow> (- 1, m1)
      | (Some pte, m1) \<Rightarrow>
          if rd32 pte m1 AND PTE_P \<noteq> 0 then (- 1, m1)
          else map_loop pd perm user as (pa + PGSIZE) (wr32 pte (PA2PTE pa OR perm OR PTE_P) m1))"

definition mappages :: "u32 \<Rightarrow> u32 \<Rightarrow> u32 \<Rightarrow> u32 \<Rightarrow> u32 \<Rightarrow> bool \<Rightarrow> pmm \<Rightarrow> int \<times> pmm" where
  "mappages pd va sz pa perm user m =
     (if va mod PGSIZE \<noteq> 0 \<or> pa mod PGSIZE \<noteq> 0 then (- 1, m)
      else if sz = 0 \<or> sz mod PGSIZE \<noteq> 0 then (- 1, m)
      else map_loop pd perm user (page_list va (unat (sz div PGSIZE))) pa m)"

fun unmap_loop :: "u32 \<Rightarrow> bool \<Rightarrow> bool \<Rightarrow> u32 list \<Rightarrow> pmm \<Rightarrow> (int \<times> pmm) kres" where
  "unmap_loop pd do_free allow_missing [] m = Inr (0, m)"
| "unmap_loop pd do_free allow_missing (a # as) m =
     (case fst (walk pd a False False m) of
        None \<Rightarrow> if allow_missing then unmap_loop pd do_free allow_missing as m else Inr (- 1, m)
      | Some pte \<Rightarrow>
          if rd32 pte m AND PTE_P = 0 then
            (if allow_missing then unmap_loop pd do_free allow_missing as m else Inr (- 1, m))
          else case (if do_free then put_page (pte_page_kva (rd32 pte m)) m else Inr m) of
                 Inl e \<Rightarrow> Inl e
               | Inr m1 \<Rightarrow> unmap_loop pd do_free allow_missing as (wr32 pte 0 m1))"

definition unmappages :: "u32 \<Rightarrow> u32 \<Rightarrow> u32 \<Rightarrow> bool \<Rightarrow> bool \<Rightarrow> pmm \<Rightarrow> (int \<times> pmm) kres" where
  "unmappages pd va npages do_free allow_missing m =
     (if pd = 0 \<or> va mod PGSIZE \<noteq> 0 \<or> npages = 0 then Inr (- 1, m)
      else unmap_loop pd do_free allow_missing (page_range va (va + npages * PGSIZE)) m)"

section \<open>The kernel's address space\<close>

definition kvmmap :: "u32 \<Rightarrow> u32 \<Rightarrow> u32 \<Rightarrow> u32 \<Rightarrow> u32 \<Rightarrow> pmm \<Rightarrow> pmm kres" where
  "kvmmap kpgdir va pa sz perm m =
     (case mappages kpgdir va sz pa perm False m of
        (r, m') \<Rightarrow> if r < 0 then Inl ''kvmmap'' else Inr m')"

definition kvmunmap :: "u32 \<Rightarrow> u32 \<Rightarrow> u32 \<Rightarrow> pmm \<Rightarrow> pmm kres" where
  "kvmunmap kpgdir va sz m =
     (if va mod PGSIZE \<noteq> 0 \<or> sz = 0 \<or> sz mod PGSIZE \<noteq> 0 then Inl ''kvmunmap''
      else case unmappages kpgdir va (sz div PGSIZE) False False m of
             Inl e \<Rightarrow> Inl e
           | Inr (r, m') \<Rightarrow> if r < 0 then Inl ''kvmunmap'' else Inr m')"

definition kvminit_map :: "u32 \<Rightarrow> u32 \<Rightarrow> pmm \<Rightarrow> pmm kres" where
  "kvminit_map kpgdir physmem_top m =
     (let m0 = m\<lparr>ram := memset kpgdir 0 4096 (ram m)\<rparr>
      in case kvmmap kpgdir 0 0 KERNEL_BOOT_IDMAP_END PTE_W m0 of
           Inl e \<Rightarrow> Inl e
         | Inr m1 \<Rightarrow> kvmmap kpgdir KERNBASE 0 physmem_top PTE_W m1)"

section \<open>User address spaces\<close>

definition uvmmap :: "u32 \<Rightarrow> u32 \<Rightarrow> u32 \<Rightarrow> u32 \<Rightarrow> u32 \<Rightarrow> pmm \<Rightarrow> int \<times> pmm" where
  "uvmmap pd va pa sz perm m =
     (if pd = 0 then (- 1, m) else mappages pd va sz pa (perm OR PTE_U) True m)"

definition uvmunmap :: "u32 \<Rightarrow> u32 \<Rightarrow> u32 \<Rightarrow> bool \<Rightarrow> pmm \<Rightarrow> (int \<times> pmm) kres" where
  "uvmunmap pd va npages do_free m = unmappages pd va npages do_free True m"

definition walkaddr :: "u32 \<Rightarrow> u32 \<Rightarrow> pmm \<Rightarrow> u32" where
  "walkaddr pd va m =
     (if pd = 0 then 0
      else case fst (walk pd va False False m) of
             None \<Rightarrow> 0
           | Some pte \<Rightarrow>
               if rd32 pte m AND PTE_P = 0 \<or> rd32 pte m AND PTE_U = 0 then 0
               else P2V (PTE_ADDR (rd32 pte m)) OR (va AND (PGSIZE - 1)))"

text \<open>The loop over the kernel's half of the directory in \<open>uvmcreate\<close> and \<open>uvmcopy_kernel\<close>.\<close>

definition inherit_kernel :: "u32 \<Rightarrow> u32 \<Rightarrow> pmm \<Rightarrow> pmm" where
  "inherit_kernel kpgdir pd m =
     fold (\<lambda>i m. let e = rd32 (kpgdir + 4 * of_nat i) m
                  in if e AND PTE_P \<noteq> 0 then wr32 (pd + 4 * of_nat i) e m else m)
       [unat (PDX KERNBASE)..<MAX_KERNEL_PT] m"

definition uvmcreate :: "u32 \<Rightarrow> pmm \<Rightarrow> u32 \<times> pmm" where
  "uvmcreate kpgdir m =
     (case alloc_page m of
        (None, m1) \<Rightarrow> (0, m1)
      | (Some pd, m1) \<Rightarrow> (pd, inherit_kernel kpgdir pd (m1\<lparr>ram := memset pd 0 4096 (ram m1)\<rparr>)))"

definition uvmcopy_kernel :: "u32 \<Rightarrow> u32 \<Rightarrow> pmm \<Rightarrow> pmm" where
  "uvmcopy_kernel kpgdir pd m = (if pd = 0 then m else inherit_kernel kpgdir pd m)"

text \<open>
  The inner loop of \<open>uvmcopy\<close>, over the entries \<open>j\<close> of one page table; \<open>Some r\<close> is an early return.
\<close>

fun uvmcopy_pt :: "u32 \<Rightarrow> u32 \<Rightarrow> u32 \<Rightarrow> nat \<Rightarrow> nat list \<Rightarrow> pmm \<Rightarrow> (int option \<times> pmm) kres" where
  "uvmcopy_pt oldpt new sz i [] m = Inr (None, m)"
| "uvmcopy_pt oldpt new sz i (j # js) m =
     (let va = push_bit 22 (of_nat i) OR push_bit 12 (of_nat j); ptea = oldpt + 4 * of_nat j; pte = rd32 ptea m
      in if sz \<le> va then Inr (None, m)
      else if pte AND PTE_P = 0 then uvmcopy_pt oldpt new sz i js m
      else let pa = PTE_ADDR pte
      in case get_page (P2V pa) m of
           Inl e \<Rightarrow> Inl e
         | Inr m1 \<Rightarrow>
             (case (if pte AND PTE_W \<noteq> 0 \<or> pte AND PTE_COW \<noteq> 0
                    then (PTE_U OR PTE_P OR PTE_COW, wr32 ptea ((pte OR PTE_COW) AND NOT PTE_W) m1)
                    else (PTE_U OR PTE_P, m1)) of
                (perm, m2) \<Rightarrow>
                  (case uvmmap new va pa PGSIZE perm m2 of
                     (r, m3) \<Rightarrow>
                       if r < 0 then
                         (case put_page (P2V pa) m3 of Inl e \<Rightarrow> Inl e | Inr m4 \<Rightarrow> Inr (Some (- 1), m4))
                       else uvmcopy_pt oldpt new sz i js m3)))"

fun uvmcopy_dir :: "u32 \<Rightarrow> u32 \<Rightarrow> u32 \<Rightarrow> nat list \<Rightarrow> pmm \<Rightarrow> (int \<times> pmm) kres" where
  "uvmcopy_dir old new sz [] m = Inr (0, m)"
| "uvmcopy_dir old new sz (i # is) m =
     (let pde = rd32 (old + 4 * of_nat i) m
      in if pde AND PTE_P = 0 \<or> pde AND PTE_U = 0 then uvmcopy_dir old new sz is m
      else case uvmcopy_pt (pde_pt_kva pde) new sz i [0..<1024] m of
             Inl e \<Rightarrow> Inl e
           | Inr (Some r, m1) \<Rightarrow> Inr (r, m1)
           | Inr (None, m1) \<Rightarrow> uvmcopy_dir old new sz is m1)"

definition uvmcopy :: "u32 \<Rightarrow> u32 \<Rightarrow> u32 \<Rightarrow> pmm \<Rightarrow> (int \<times> pmm) kres" where
  "uvmcopy old new sz m =
     (if old = 0 \<or> new = 0 \<or> sz = 0 then Inr (- 1, m)
      else let sz = (if USEREND < sz then USEREND else sz)
      in if sz \<le> USERBASE then Inr (0, m)
      else uvmcopy_dir old new sz [unat (PDX USERBASE)..<Suc (unat (PDX (sz - 1)))] m)"

definition uvm_cow_fault :: "u32 \<Rightarrow> u32 \<Rightarrow> pmm \<Rightarrow> (int \<times> pmm) kres" where
  "uvm_cow_fault pd va0 m =
     (let va = PGROUNDDOWN va0
      in if pd = 0 \<or> va < USERBASE \<or> USEREND \<le> va then Inr (- 1, m)
      else case fst (walk pd va False False m) of
             None \<Rightarrow> Inr (- 1, m)
           | Some ptea \<Rightarrow>
               let pte = rd32 ptea m
               in if pte AND PTE_P = 0 \<or> pte AND PTE_COW = 0 then Inr (- 1, m)
               else let pa = PTE_ADDR pte
               in if page_refcount (P2V pa) m = 1 then Inr (0, wr32 ptea ((pte OR PTE_W) AND NOT PTE_COW) m)
               else case alloc_page m of
                      (None, m1) \<Rightarrow> Inr (- 1, m1)
                    | (Some mem, m1) \<Rightarrow>
                        (case put_page (P2V pa) (m1\<lparr>ram := copy_mem mem (P2V pa) 4096 (ram m1)\<rparr>) of
                           Inl e \<Rightarrow> Inl e
                         | Inr m2 \<Rightarrow> Inr (0, wr32 ptea (PA2PTE (V2P mem) OR PTE_P OR PTE_U OR PTE_W) m2)))"

definition uvmdealloc :: "u32 \<Rightarrow> u32 \<Rightarrow> u32 \<Rightarrow> pmm \<Rightarrow> (u32 \<times> pmm) kres" where
  "uvmdealloc pd oldsz newsz m =
     (if pd = 0 then Inr (0, m)
      else if oldsz \<le> newsz then Inr (oldsz, m)
      else if PGROUNDUP newsz < PGROUNDUP oldsz then
        (case uvmunmap pd (PGROUNDUP newsz) ((PGROUNDUP oldsz - PGROUNDUP newsz) div PGSIZE) True m of
           Inl e \<Rightarrow> Inl e
         | Inr (r, m1) \<Rightarrow> Inr (if r < 0 then 0 else newsz, m1))
      else Inr (newsz, m))"

definition uvmalloc :: "u32 \<Rightarrow> u32 \<Rightarrow> u32 \<Rightarrow> u32" where
  "uvmalloc pd oldsz newsz =
     (if pd = 0 \<or> newsz < oldsz then 0 else if USERHEAP_TOP < newsz then 0 else newsz)"

text \<open>
  A zeroed page with the bytes \<open>bs\<close> at its start, mapped at \<open>va\<close>; it is freed when the mapping fails.
  The result is the address of the page, \<open>None\<close> after a failure.
\<close>

definition map_new_page :: "u32 \<Rightarrow> u32 \<Rightarrow> u8 list \<Rightarrow> u32 \<Rightarrow> pmm \<Rightarrow> (u32 option \<times> pmm) kres" where
  "map_new_page pd va bs perm m =
     (case alloc_page m of
        (None, m1) \<Rightarrow> Inr (None, m1)
      | (Some mem, m1) \<Rightarrow>
          (case uvmmap pd va (V2P mem) PGSIZE perm (m1\<lparr>ram := put_bytes mem bs (memset mem 0 4096 (ram m1))\<rparr>) of
             (r, m2) \<Rightarrow>
               if r < 0 then (case free_page mem m2 of Inl e \<Rightarrow> Inl e | Inr m3 \<Rightarrow> Inr (None, m3))
               else Inr (Some mem, m2)))"

definition uvminit :: "u32 \<Rightarrow> u32 \<Rightarrow> u8 list \<Rightarrow> pmm \<Rightarrow> (int \<times> pmm) kres" where
  "uvminit pd va src m =
     (if pd = 0 \<or> 4096 \<le> length src then Inr (- 1, m)
      else case map_new_page pd va src PTE_P m of
             Inl e \<Rightarrow> Inl e
           | Inr (None, m1) \<Rightarrow> Inr (- 1, m1)
           | Inr (Some _, m1) \<Rightarrow> Inr (0, m1))"

fun load_loop :: "u32 \<Rightarrow> u32 \<Rightarrow> u8 list \<Rightarrow> nat list \<Rightarrow> pmm \<Rightarrow> (int \<times> pmm) kres" where
  "load_loop pd va src [] m = Inr (0, m)"
| "load_loop pd va src (k # ks) m =
     (case map_new_page pd (va + of_nat k * PGSIZE) (take 4096 (drop (4096 * k) src)) (PTE_P OR PTE_W) m of
        Inl e \<Rightarrow> Inl e
      | Inr (None, m1) \<Rightarrow> Inr (- 1, m1)
      | Inr (Some _, m1) \<Rightarrow> load_loop pd va src ks m1)"

definition loaduvm :: "u32 \<Rightarrow> u32 \<Rightarrow> u8 list \<Rightarrow> pmm \<Rightarrow> (int \<times> pmm) kres" where
  "loaduvm pd va src m =
     (let sz = of_nat (length src) :: u32
      in if pd = 0 \<or> sz = 0 \<or> va mod PGSIZE \<noteq> 0 then Inr (- 1, m)
      else if va < USERLOAD \<or> USEREND < va + sz then Inr (- 1, m)
      else load_loop pd va src [0..<(length src + 4095) div 4096] m)"

text \<open>The loop of \<open>loaduvm_seg\<close> over the pages \<open>i\<close> of the segment.\<close>

fun seg_loop :: "u32 \<Rightarrow> u32 \<Rightarrow> u8 list \<Rightarrow> u32 \<Rightarrow> u32 list \<Rightarrow> pmm \<Rightarrow> (int \<times> pmm) kres" where
  "seg_loop pd va src perm [] m = Inr (0, m)"
| "seg_loop pd va src perm (i # is) m =
     (let file_end = va + of_nat (length src);
          c_lo = (if i < va then va else i);
          c_hi = (if file_end < i + PGSIZE then file_end else i + PGSIZE);
          part = (if c_lo < c_hi then take (unat (c_hi - c_lo)) (drop (unat (c_lo - va)) src) else []);
          pa = walkaddr pd i m
      in case (if pa = 0 then map_new_page pd i [] perm m else Inr (Some (PGROUNDDOWN pa), m)) of
           Inl e \<Rightarrow> Inl e
         | Inr (None, m1) \<Rightarrow> Inr (- 1, m1)
         | Inr (Some mem, m1) \<Rightarrow>
             seg_loop pd va src perm is (m1\<lparr>ram := put_bytes (mem + (c_lo - i)) part (ram m1)\<rparr>))"

definition loaduvm_seg :: "u32 \<Rightarrow> u32 \<Rightarrow> u8 list \<Rightarrow> u32 \<Rightarrow> u32 \<Rightarrow> pmm \<Rightarrow> (int \<times> pmm) kres" where
  "loaduvm_seg pd va src memsz perm m =
     (if pd = 0 \<or> memsz < of_nat (length src) then Inr (- 1, m)
      else if memsz = 0 then Inr (0, m)
      else if va < USERLOAD \<or> USEREND < va + memsz then Inr (- 1, m)
      else seg_loop pd va src perm (page_range (PGROUNDDOWN va) (va + memsz)) m)"

text \<open>The loop of \<open>uvmfree\<close> over one page table, and over the user half of the directory.\<close>

definition uvmfree_pt :: "u32 \<Rightarrow> pmm \<Rightarrow> pmm kres" where
  "uvmfree_pt pt m =
     kfold (\<lambda>j m. let pte = rd32 (pt + 4 * of_nat j) m
                   in if pte AND PTE_P = 0 then Inr m
                   else case put_page (pte_page_kva pte) m of
                          Inl e \<Rightarrow> Inl e | Inr m1 \<Rightarrow> Inr (wr32 (pt + 4 * of_nat j) 0 m1)) [0..<1024] m"

definition uvmfree :: "u32 \<Rightarrow> pmm \<Rightarrow> pmm kres" where
  "uvmfree pd m =
     (if pd = 0 then Inr m
      else case kfold (\<lambda>i m. let pde = rd32 (pd + 4 * of_nat i) m
                        in if pde AND PTE_P \<noteq> 0 \<and> pde AND PTE_U \<noteq> 0 then
                             (case uvmfree_pt (pde_pt_kva pde) m of
                                Inl e \<Rightarrow> Inl e
                              | Inr m1 \<Rightarrow> (case free_page (pde_pt_kva pde) m1 of
                                             Inl e \<Rightarrow> Inl e
                                           | Inr m2 \<Rightarrow> Inr (wr32 (pd + 4 * of_nat i) 0 m2)))
                           else Inr m)
                 [unat (PDX USERBASE)..<Suc (unat (PDX (USEREND - 1)))] m of
             Inl e \<Rightarrow> Inl e
           | Inr m1 \<Rightarrow> free_page pd m1)"


section \<open>Bytes and words in memory\<close>

lemma unat_minus_1: "(x :: u32) \<noteq> a \<Longrightarrow> unat (x - a) = Suc (unat (x - (a + 1)))"
proof -
  assume ne: "x \<noteq> a"
  have e: "x - (a + 1) = (x - a) - 1" by simp
  have "0 < unat (x - a)" using ne by (simp add: unat_gt_0)
  then show ?thesis using unat_minus_one [of "x - a"] ne unfolding e by simp
qed

lemma put_bytes_apply:
  "length bs \<le> 2 ^ 32 \<Longrightarrow> put_bytes a bs m x = (if unat (x - a) < length bs then bs ! unat (x - a) else m x)"
proof (induction bs arbitrary: a m)
  case (Cons b bs)
  show ?case
  proof (cases "x = a")
    case True
    have "x - (a + 1) = 0xFFFFFFFF" using True by simp
    then have "unat (x - (a + 1)) = unat (0xFFFFFFFF :: u32)" by (simp only:)
    also have "\<dots> = 2 ^ 32 - 1" by simp
    finally have "unat (x - (a + 1)) = 2 ^ 32 - 1" .
    then have "\<not> unat (x - (a + 1)) < length bs" using Cons.prems by simp
    then show ?thesis using Cons by (simp add: True)
  next
    case False
    then show ?thesis using Cons unat_minus_1 [OF False] by simp
  qed
qed simp

end
