(* ===== verification/Mmap.thy ===== *)
theory Mmap
  imports Vm Proc_Types
begin

text \<open>
  Address spaces and their memory areas: \<open>mm_create\<close> and \<open>mm_destroy\<close> of src/arch/x86/kernel/mm/vm.c and
  the anonymous mappings of src/arch/x86/kernel/mm/mmap.c.

  A pointer to a VMA is its index in the table of the address space. The operations on one process
  take its structure and the memory, those that change the table return the new structure.
\<close>

section \<open>Address spaces\<close>

definition zero_vma :: vma where
  "zero_vma = \<lparr>v_used = False, v_start = 0, v_end = 0, v_prot = 0, v_flags = 0\<rparr>"

definition sizeof_mm_struct :: u32 where "sizeof_mm_struct = 1320"

definition mm_create :: "u32 \<Rightarrow> slab \<times> pmm \<Rightarrow> (mm_struct option \<times> slab \<times> pmm) kres" where
  "mm_create kpgdir st =
     (case kcalloc 1 sizeof_mm_struct st of
        Inl e \<Rightarrow> Inl e
      | Inr (None, st1) \<Rightarrow> Inr (None, st1)
      | Inr (Some a, sl, m) \<Rightarrow>
          (case uvmcreate kpgdir m of
             (d, m1) \<Rightarrow>
               if d = 0 then (case kfree a (sl, m1) of Inl e \<Rightarrow> Inl e | Inr st2 \<Rightarrow> Inr (None, st2))
               else Inr (Some \<lparr>mm_at = a, pgdir = d, user_base = USERLOAD, task_size = USEREND,
                     mmap_base = USERHEAP_TOP, stack_top = USERSTACK, brk = USERLOAD, brk_start = USERLOAD,
                     vmas = (\<lambda>_. zero_vma)\<rparr>, sl, m1)))"

definition mm_destroy :: "mm_struct option \<Rightarrow> slab \<times> pmm \<Rightarrow> (slab \<times> pmm) kres" where
  "mm_destroy mo st =
     (case mo of
        None \<Rightarrow> Inr st
      | Some x \<Rightarrow>
          (case (if pgdir x \<noteq> 0 then uvmfree (pgdir x) (snd st) else Inr (snd st)) of
             Inl e \<Rightarrow> Inl e
           | Inr m \<Rightarrow> kfree (mm_at x) (fst st, m)))"

section \<open>Memory areas\<close>

definition PROT_READ :: u32 where "PROT_READ = 1"
definition PROT_WRITE :: u32 where "PROT_WRITE = 2"
definition PROT_EXEC :: u32 where "PROT_EXEC = 4"
definition MAP_SHARED :: u32 where "MAP_SHARED = 0x01"
definition MAP_PRIVATE :: u32 where "MAP_PRIVATE = 0x02"
definition MAP_FIXED :: u32 where "MAP_FIXED = 0x10"
definition MAP_ANONYMOUS :: u32 where "MAP_ANONYMOUS = 0x20"

definition proc_vmas :: "proc \<Rightarrow> (nat \<Rightarrow> vma) option" where
  "proc_vmas x = map_option vmas (mm x)"

definition set_vma :: "nat \<Rightarrow> vma \<Rightarrow> proc \<Rightarrow> proc" where
  "set_vma i v x = x\<lparr>mm := map_option (\<lambda>a. a\<lparr>vmas := (vmas a)(i := v)\<rparr>) (mm x)\<rparr>"

definition vma_overlap_range :: "proc \<Rightarrow> u32 \<Rightarrow> u32 \<Rightarrow> bool" where
  "vma_overlap_range x start e =
     (case proc_vmas x of
        None \<Rightarrow> False
      | Some vs \<Rightarrow> list_ex (\<lambda>i. v_used (vs i) \<and> start < v_end (vs i) \<and> v_start (vs i) < e) [0..<NVMA])"

definition region_available :: "proc \<Rightarrow> u32 \<Rightarrow> u32 \<Rightarrow> pmm \<Rightarrow> bool" where
  "region_available x start e m =
     (if start < proc_user_base x \<or> USERHEAP_TOP < e \<or> e \<le> start then False
      else if start < PGROUNDUP (proc_brk x) then False
      else if vma_overlap_range x start e then False
      else list_all (\<lambda>va. walkaddr (proc_pagetable x) va m = 0) (page_range start e))"

lemma minus_PGSIZE:
  fixes start low :: u32
  assumes "\<not> start < low" and "\<not> start < low + PGSIZE"
  shows "unat (start - PGSIZE) = unat start - 4096" and "4096 \<le> unat start"
proof -
  have l: "unat low \<le> unat start" "unat (low + PGSIZE) \<le> unat start"
    using assms by (simp_all add: not_less word_le_nat_alt)
  have "unat (low + PGSIZE) = (unat low + 4096) mod 2 ^ 32" by (simp add: unat_word_ariths PGSIZE_def)
  then show g: "4096 \<le> unat start"
    using l unat_u32 [of low] by (cases "unat low + 4096 < 2 ^ 32") auto
  then show "unat (start - PGSIZE) = unat start - 4096"
    by (simp add: unat_sub word_le_nat_alt PGSIZE_def)
qed

lemma minus_PGSIZE_less: "\<not> start < low \<Longrightarrow> \<not> start < low + PGSIZE \<Longrightarrow> unat (start - PGSIZE) < unat start"
  using minus_PGSIZE [of start low] by linarith

text \<open>The loop of \<open>find_mmap_addr\<close>: downwards page by page; 0 when the bound \<open>low\<close> is reached.\<close>

function mmap_search :: "proc \<Rightarrow> pmm \<Rightarrow> u32 \<Rightarrow> u32 \<Rightarrow> u32 \<Rightarrow> u32" where
  "mmap_search x m len low start =
     (if start < low then 0
      else if region_available x start (start + len) m then start
      else if start < low + PGSIZE then 0
      else mmap_search x m len low (start - PGSIZE))"
  by pat_completeness auto

termination
  by (relation "measure (\<lambda>(x, m, len, low, start). unat start)") (auto simp: minus_PGSIZE_less)

declare mmap_search.simps [simp del]

definition find_mmap_addr :: "proc \<Rightarrow> u32 \<Rightarrow> pmm \<Rightarrow> u32" where
  "find_mmap_addr x len m =
     (let low = PGROUNDUP (proc_brk x);
          high = (case mm x of Some a \<Rightarrow> mmap_base a | None \<Rightarrow> USERHEAP_TOP)
      in if len = 0 \<or> high \<le> low \<or> high - low < len then 0
      else mmap_search x m len low (PGROUNDDOWN (high - len)))"

definition prot_ok :: "u32 \<Rightarrow> bool" where
  "prot_ok prot \<longleftrightarrow> prot AND (PROT_READ OR PROT_WRITE OR PROT_EXEC) \<noteq> 0"

definition vma_alloc_slot :: "proc \<Rightarrow> nat option" where
  "vma_alloc_slot x =
     (case proc_vmas x of None \<Rightarrow> None | Some vs \<Rightarrow> find (\<lambda>i. \<not> v_used (vs i)) [0..<NVMA])"

definition vma_find :: "proc \<Rightarrow> u32 \<Rightarrow> u32 \<Rightarrow> nat option" where
  "vma_find x start e =
     (case proc_vmas x of
        None \<Rightarrow> None
      | Some vs \<Rightarrow> find (\<lambda>i. v_used (vs i) \<and> v_start (vs i) = start \<and> v_end (vs i) = e) [0..<NVMA])"

definition vma_lookup :: "proc \<Rightarrow> u32 \<Rightarrow> nat option" where
  "vma_lookup x va =
     (case proc_vmas x of
        None \<Rightarrow> None
      | Some vs \<Rightarrow> find (\<lambda>i. v_used (vs i) \<and> v_start (vs i) \<le> va \<and> va < v_end (vs i)) [0..<NVMA])"

definition vma_clear :: "proc \<Rightarrow> proc" where
  "vma_clear x =
     x\<lparr>mm := map_option (\<lambda>a. a\<lparr>vmas := (\<lambda>i. if i < NVMA then (vmas a i)\<lparr>v_used := False\<rparr> else vmas a i)\<rparr>) (mm x)\<rparr>"

definition vma_copy :: "proc \<Rightarrow> proc \<Rightarrow> proc" where
  "vma_copy dst src =
     (case proc_vmas src of
        None \<Rightarrow> dst
      | Some svs \<Rightarrow> dst\<lparr>mm := map_option (\<lambda>a. a\<lparr>vmas := (\<lambda>i. if i < NVMA then svs i else vmas a i)\<rparr>) (mm dst)\<rparr>)"

definition mmap_find_addr :: "proc \<Rightarrow> u32 \<Rightarrow> pmm \<Rightarrow> u32" where
  "mmap_find_addr x len m = find_mmap_addr x len m"

definition mmap_region_ok :: "proc \<Rightarrow> u32 \<Rightarrow> u32 \<Rightarrow> pmm \<Rightarrow> bool" where
  "mmap_region_ok x start e m = region_available x start e m"

definition vma_create :: "proc \<Rightarrow> u32 \<Rightarrow> u32 \<Rightarrow> u32 \<Rightarrow> u32 \<Rightarrow> int \<Rightarrow> pmm \<Rightarrow> nat option \<times> proc" where
  "vma_create x start e prot flags shmid m =
     (if e \<le> start then (None, x)
      else if \<not> region_available x start e m then (None, x)
      else case vma_alloc_slot x of
             None \<Rightarrow> (None, x)
           | Some i \<Rightarrow>
               (Some i, set_vma i \<lparr>v_used = True, v_start = start, v_end = e, v_prot = prot,
                           v_flags = vma_flags_with_shmid flags shmid\<rparr> x))"

definition vma_overlaps_brk :: "proc \<Rightarrow> u32 \<Rightarrow> u32 \<Rightarrow> bool" where
  "vma_overlaps_brk x old_brk new_brk =
     (if new_brk \<le> old_brk then False else vma_overlap_range x old_brk new_brk)"

definition mmap_unmap_pages :: "proc \<Rightarrow> u32 \<Rightarrow> u32 \<Rightarrow> pmm \<Rightarrow> pmm kres" where
  "mmap_unmap_pages x start e m =
     (if proc_pagetable x = 0 then Inr m
      else kfold (\<lambda>va m. case uvmunmap (proc_pagetable x) va 1 True m of Inl e \<Rightarrow> Inl e | Inr (_, m') \<Rightarrow> Inr m')
             (page_range start e) m)"

definition do_mmap :: "proc \<Rightarrow> u32 \<Rightarrow> u32 \<Rightarrow> u32 \<Rightarrow> u32 \<Rightarrow> u32 \<Rightarrow> pmm \<Rightarrow> u32 \<times> proc" where
  "do_mmap x addr len0 prot flags0 fd m =
     (if proc_pagetable x = 0 \<or> len0 = 0 then (- 1, x)
      else let len = PGROUNDUP len0
      in if len = 0 \<or> USERHEAP_TOP - proc_user_base x < len then (- 1, x)
      else let flags = flags0 AND 0xffff
      in if flags AND MAP_ANONYMOUS = 0 \<or> flags AND MAP_PRIVATE = 0 then (- 1, x)
      else if flags AND MAP_SHARED \<noteq> 0 then (- 1, x)
      else if fd \<noteq> - 1 then (- 1, x)
      else if \<not> prot_ok prot then (- 1, x)
      else case (if flags AND MAP_FIXED \<noteq> 0 then
                   (if addr AND (PGSIZE - 1) \<noteq> 0 then None
                    else if \<not> region_available x addr (addr + len) m then None else Some addr)
                 else (let start = find_mmap_addr x len m in if start = 0 then None else Some start)) of
             None \<Rightarrow> (- 1, x)
           | Some start \<Rightarrow>
               (case vma_alloc_slot x of
                  None \<Rightarrow> (- 1, x)
                | Some i \<Rightarrow>
                    (start, set_vma i \<lparr>v_used = True, v_start = start, v_end = start + len, v_prot = prot, v_flags = flags\<rparr> x)))"


section \<open>The invariant of the table of areas\<close>

definition vma_ok :: "mm_struct \<Rightarrow> vma \<Rightarrow> bool" where
  "vma_ok a v \<longleftrightarrow> v_start v < v_end v \<and> unat (v_start v) mod 4096 = 0 \<and> unat (v_end v) mod 4096 = 0
     \<and> user_base a \<le> v_start v \<and> PGROUNDUP (brk a) \<le> v_start v \<and> v_end v \<le> USERHEAP_TOP"

definition vma_apart :: "vma \<Rightarrow> vma \<Rightarrow> bool" where
  "vma_apart v w \<longleftrightarrow> v_end v \<le> v_start w \<or> v_end w \<le> v_start v"

definition vma_inv :: "mm_struct \<Rightarrow> bool" where
  "vma_inv a \<longleftrightarrow> (\<forall>i < NVMA. v_used (vmas a i) \<longrightarrow> vma_ok a (vmas a i))
     \<and> (\<forall>i < NVMA. \<forall>j < NVMA. i \<noteq> j \<longrightarrow> v_used (vmas a i) \<longrightarrow> v_used (vmas a j) \<longrightarrow> vma_apart (vmas a i) (vmas a j))"

lemma vma_inv_add:
  assumes "vma_inv a" and "i < NVMA" and "vma_ok a v"
    and "\<forall>j < NVMA. v_used (vmas a j) \<longrightarrow> vma_apart v (vmas a j)"
  shows "vma_inv (a\<lparr>vmas := (vmas a)(i := v)\<rparr>)"
  using assms unfolding vma_inv_def vma_ok_def by (auto simp: vma_apart_def)

lemma region_availableD:
  assumes "region_available x start e m" and "mm x = Some a"
  shows "user_base a \<le> start" "e \<le> USERHEAP_TOP" "start < e" "PGROUNDUP (brk a) \<le> start"
    "\<forall>j < NVMA. v_used (vmas a j) \<longrightarrow> e \<le> v_start (vmas a j) \<or> v_end (vmas a j) \<le> start"
    "\<forall>va \<in> set (page_range start e). walkaddr (pgdir a) va m = 0"
  using assms
  by (auto simp: region_available_def proc_user_base_def proc_brk_def vma_overlap_range_def proc_vmas_def
      proc_pagetable_def list_ex_iff list_all_iff not_less split: if_splits)

text \<open>
  The search returns the first address, going down page by page, where the region is available.
\<close>

lemma mmap_search_found:
  assumes "mmap_search x m len low start = r" and "r \<noteq> 0"
  shows "\<exists>k. 4096 * k \<le> unat start \<and> r = start - of_nat k * PGSIZE \<and> unat r = unat start - 4096 * k \<and> low \<le> r
    \<and> region_available x r (r + len) m
    \<and> (\<forall>j < k. \<not> region_available x (start - of_nat j * PGSIZE) (start - of_nat j * PGSIZE + len) m)"
  using assms
proof (induction x m len low start rule: mmap_search.induct)
  case (1 x m len low start)
  consider (here) "\<not> start < low" "region_available x start (start + len) m"
    | (down) "\<not> start < low" "\<not> region_available x start (start + len) m" "\<not> start < low + PGSIZE"
    using 1(2,3) by (subst (asm) mmap_search.simps) (auto split: if_splits)
  then show ?case
  proof cases
    case here
    then have "r = start" using 1(2) by (simp add: mmap_search.simps [of x m len low start])
    then show ?thesis using here by (intro exI [of _ 0]) (simp add: not_less)
  next
    case down
    have "mmap_search x m len low (start - PGSIZE) = r"
      using 1(2) down by (simp add: mmap_search.simps [of x m len low start])
    from 1(1) [OF down this 1(3)] obtain k where k: "4096 * k \<le> unat (start - PGSIZE)"
      "r = start - PGSIZE - of_nat k * PGSIZE" "unat r = unat (start - PGSIZE) - 4096 * k" "low \<le> r"
      "region_available x r (r + len) m"
      "\<forall>j < k. \<not> region_available x (start - PGSIZE - of_nat j * PGSIZE) (start - PGSIZE - of_nat j * PGSIZE + len) m"
      by blast
    have "\<not> region_available x (start - of_nat j * PGSIZE) (start - of_nat j * PGSIZE + len) m" if "j < Suc k" for j
      using k(6) down(2) that by (cases j) (simp_all add: algebra_simps)
    then show ?thesis using k minus_PGSIZE [OF down(1,3)]
      by (intro exI [of _ "Suc k"]) (simp add: algebra_simps)
  qed
qed

lemma mmap_search_none:
  assumes "mmap_search x m len low start = 0" and "0 < proc_user_base x"
    and "4096 * k \<le> unat start" and "unat low \<le> unat start - 4096 * k"
  shows "\<not> region_available x (start - of_nat k * PGSIZE) (start - of_nat k * PGSIZE + len) m"
  using assms
proof (induction x m len low start arbitrary: k rule: mmap_search.induct)
  case (1 x m len low start)
  have sl: "\<not> start < low" using 1(4,5) by (simp add: word_less_nat_alt)
  have z: "\<not> region_available x 0 e m" for e using 1(3) by (simp add: region_available_def word_neq_0_conv)
  have na: "\<not> region_available x start (start + len) m"
    using 1(2) sl z by (subst (asm) mmap_search.simps) (auto split: if_splits)
  show ?case
  proof (cases k)
    case 0
    with na show ?thesis by simp
  next
    case (Suc k')
    have "4096 \<le> unat start - unat low" using 1(4,5) Suc by simp
    then have lo: "\<not> start < low + PGSIZE"
      using unat_u32 [of start] by (simp add: not_less word_le_nat_alt unat_word_ariths PGSIZE_def)
    note u = minus_PGSIZE [OF sl lo]
    have "mmap_search x m len low (start - PGSIZE) = 0"
      using 1(2) sl na lo by (simp add: mmap_search.simps [of x m len low start])
    from 1(1) [OF sl na lo this 1(3), of k'] 1(4,5) u Suc show ?thesis
      by (simp add: algebra_simps)
  qed
qed


lemma find_mmap_addr_found:
  assumes "find_mmap_addr x len m = r" and "r \<noteq> 0"
  shows "region_available x r (r + len) m \<and> unat r mod 4096 = 0"
proof -
  obtain low high where s: "mmap_search x m len low (PGROUNDDOWN (high - len)) = r"
    using assms by (auto simp: find_mmap_addr_def Let_def split: if_splits)
  from mmap_search_found [OF s assms(2)] obtain k where
    k: "4096 * k \<le> unat (PGROUNDDOWN (high - len))" "unat r = unat (PGROUNDDOWN (high - len)) - 4096 * k"
      "region_available x r (r + len) m" by blast
  have "unat (PGROUNDDOWN (high - len)) mod 4096 = 0" by (simp add: unat_PGROUNDDOWN)
  with k(1,2) have "unat r mod 4096 = 0"
    by (simp add: mod_eq_0_iff_dvd dvd_diff_nat)
  with k(3) show ?thesis by simp
qed

lemma no_wrap_add: "(r :: u32) < r + len \<Longrightarrow> unat (r + len) = unat r + unat len"
proof -
  assume a: "r < r + len"
  show ?thesis
  proof (cases "unat r + unat len < 2 ^ 32")
    case True
    then show ?thesis by (simp add: unat_word_ariths)
  next
    case False
    then have "unat (r + len) = unat r + unat len - 2 ^ 32"
      using unat_u32 [of r] unat_u32 [of len] by (simp add: unat_word_ariths mod_if)
    with a unat_u32 [of len] False show ?thesis by (simp add: word_less_nat_alt)
  qed
qed

lemma PGROUNDUP_ge: "PGROUNDUP len \<noteq> 0 \<Longrightarrow> unat len \<le> unat (PGROUNDUP len)"
proof -
  assume nz: "PGROUNDUP len \<noteq> 0"
  then have "unat len + 4095 < 2 ^ 32"
    using PGROUNDUP_wraps [of len] unat_u32 [of len] by fastforce
  then show ?thesis by (simp add: unat_PGROUNDUP)
qed

lemma set_vma_mm: "mm x = Some a \<Longrightarrow> mm (set_vma i v x) = Some (a\<lparr>vmas := (vmas a)(i := v)\<rparr>)"
  by (simp add: set_vma_def)

text \<open>What a successful call has checked.\<close>

lemma do_mmap_cases:
  assumes "do_mmap x addr len prot flags fd m = (r, x')" and "mm x = Some a"
  shows "(r = - 1 \<and> x' = x) \<or>
    (\<exists>i. vma_alloc_slot x = Some i \<and> PGROUNDUP len \<noteq> 0 \<and> region_available x r (r + PGROUNDUP len) m \<and> unat r mod 4096 = 0
      \<and> x' = set_vma i \<lparr>v_used = True, v_start = r, v_end = r + PGROUNDUP len, v_prot = prot, v_flags = flags AND 0xffff\<rparr> x)"
proof -
  have al: "unat addr mod 4096 = 0" if "addr AND (PGSIZE - 1) = 0"
    using unat_and_pgmask [of addr] that by simp
  show ?thesis
    using assms al find_mmap_addr_found [of x "PGROUNDUP len" m]
    by (auto simp: do_mmap_def Let_def split: if_splits option.splits)
qed

section \<open>Properties\<close>

text \<open>An address space with nothing mapped, as after \<open>mm_create\<close>.\<close>

definition demo_mm :: mm_struct where
  "demo_mm = \<lparr>mm_at = 0xC0300000, pgdir = 0xC0200000, user_base = USERLOAD, task_size = USEREND, mmap_base = USERHEAP_TOP,
     stack_top = USERSTACK, brk = USERLOAD, brk_start = USERLOAD, vmas = (\<lambda>_. zero_vma)\<rparr>"

lemma demo_space:
  "proc_user_base (zero_proc\<lparr>mm := Some demo_mm\<rparr>) = 0x400000" "proc_brk (zero_proc\<lparr>mm := Some demo_mm\<rparr>) = 0x400000"
  "proc_pagetable (zero_proc\<lparr>mm := Some demo_mm\<rparr>) = 0xC0200000" "mmap_base demo_mm = 0xBFFE0000"
  by (simp_all add: proc_user_base_def proc_brk_def proc_pagetable_def demo_mm_def layout_simps)

lemma demo_region:
  "region_available (zero_proc\<lparr>mm := Some demo_mm\<rparr>) 0xBFFDE000 0xBFFE0000 (demo_pmm\<lparr>ram := \<lambda>_. 0\<rparr>)"
proof -
  let ?x = "zero_proc\<lparr>mm := Some demo_mm\<rparr>"
  have w: "walkaddr d va (demo_pmm\<lparr>ram := \<lambda>_. 0\<rparr>) = 0" for d va
    by (simp add: walkaddr_def walk_def rd32_def load32_def Let_def)
  have "\<not> vma_overlap_range ?x s e" for s e
    by (simp add: vma_overlap_range_def proc_vmas_def demo_mm_def zero_vma_def list_ex_iff)
  then show ?thesis
    by (simp add: region_available_def w demo_space list_all_iff layout_simps PGROUNDUP_def)
qed

text \<open>C16: an anonymous mapping that succeeds enters one free slot of the table with a page-aligned area that
  holds at least the requested bytes, lies above the heap and below the stack guard, overlaps no other area and has no
  page mapped; the table's invariant is kept. A call that fails changes nothing.\<close>

theorem do_mmap_ok:
  assumes "mm x = Some a" and "vma_inv a" and "do_mmap x addr len prot flags fd m = (r, x')"
  shows "if r = - 1 then x' = x
    else \<exists>i v a'. i < NVMA \<and> \<not> v_used (vmas a i) \<and> x' = set_vma i v x \<and> mm x' = Some a' \<and> vma_inv a'
      \<and> v_used v \<and> v_start v = r \<and> unat len \<le> unat (v_end v) - unat r \<and> vma_ok a v
      \<and> (\<forall>j < NVMA. v_used (vmas a j) \<longrightarrow> vma_apart v (vmas a j))
      \<and> (\<forall>va \<in> set (page_range r (v_end v)). walkaddr (pgdir a) va m = 0)"
proof (cases "r = - 1")
  case True
  then have "r = 0xFFFFFFFF" by simp
  then have "unat r mod 4096 \<noteq> 0" by simp
  then show ?thesis using do_mmap_cases [OF assms(3,1)] True by auto
next
  case False
  then obtain i where i: "vma_alloc_slot x = Some i" "PGROUNDUP len \<noteq> 0" "region_available x r (r + PGROUNDUP len) m"
    "unat r mod 4096 = 0"
    and x': "x' = set_vma i \<lparr>v_used = True, v_start = r, v_end = r + PGROUNDUP len, v_prot = prot, v_flags = flags AND 0xffff\<rparr> x"
    using do_mmap_cases [OF assms(3,1)] by auto
  define v where "v = \<lparr>v_used = True, v_start = r, v_end = r + PGROUNDUP len, v_prot = prot, v_flags = flags AND 0xffff\<rparr>"
  note ra = region_availableD [OF i(3) assms(1)]
  have slot: "i < NVMA" "\<not> v_used (vmas a i)"
    using i(1) assms(1) by (auto simp: vma_alloc_slot_def proc_vmas_def find_upt_Some)
  have e: "unat (r + PGROUNDUP len) = unat r + unat (PGROUNDUP len)" by (rule no_wrap_add [OF ra(3)])
  have ok: "vma_ok a v"
    using ra i(4) e by (simp add: vma_ok_def v_def mod_add_eq [symmetric] PGROUNDUP_aligned)
  have ap: "\<forall>j < NVMA. v_used (vmas a j) \<longrightarrow> vma_apart v (vmas a j)"
    using ra(5) by (auto simp: vma_apart_def v_def)
  have "unat len \<le> unat (v_end v) - unat r" using e PGROUNDUP_ge [OF i(2)] by (simp add: v_def)
  moreover have "vma_inv (a\<lparr>vmas := (vmas a)(i := v)\<rparr>)" by (rule vma_inv_add [OF assms(2) slot(1) ok ap])
  moreover have "x' = set_vma i v x" "v_used v" "v_start v = r" "v_end v = r + PGROUNDUP len" by (simp_all add: x' v_def)
  ultimately show ?thesis
    using False slot ok ap ra(6) set_vma_mm [OF assms(1), of i v]
    by (simp del: fun_upd_apply) (rule exI [of _ i], simp del: fun_upd_apply, rule exI [of _ v], simp)
qed

theorem do_mmap_ok_witness:
  "\<exists>x'. do_mmap (zero_proc\<lparr>mm := Some demo_mm\<rparr>) 0 5000 3 0x22 (- 1) (demo_pmm\<lparr>ram := \<lambda>_. 0\<rparr>) = (0xBFFDE000, x')
     \<and> (\<exists>a'. mm x' = Some a' \<and> vma_inv a')"
proof -
  let ?x = "zero_proc\<lparr>mm := Some demo_mm\<rparr>" and ?m = "demo_pmm\<lparr>ram := \<lambda>_. 0\<rparr>"
  have f: "find_mmap_addr ?x 0x2000 ?m = 0xBFFDE000"
    using demo_region by (simp add: find_mmap_addr_def mmap_search.simps demo_space layout_simps PGROUNDUP_def PGROUNDDOWN_def)
  have s: "vma_alloc_slot ?x = Some 0"
    by (simp add: vma_alloc_slot_def proc_vmas_def demo_mm_def zero_vma_def find_upt_Some NVMA_def)
  have "\<exists>x'. do_mmap ?x 0 5000 3 0x22 (- 1) ?m = (0xBFFDE000, x')"
    by (simp add: do_mmap_def Let_def f s demo_space prot_ok_def layout_simps PGROUNDUP_def
        PROT_READ_def PROT_WRITE_def PROT_EXEC_def MAP_ANONYMOUS_def MAP_PRIVATE_def MAP_SHARED_def MAP_FIXED_def)
  then obtain x' where d: "do_mmap ?x 0 5000 3 0x22 (- 1) ?m = (0xBFFDE000, x')" by blast
  have "vma_inv demo_mm" by (simp add: vma_inv_def demo_mm_def zero_vma_def)
  from do_mmap_ok [OF _ this d] have "\<exists>a'. mm x' = Some a' \<and> vma_inv a'" by auto
  with d show ?thesis by blast
qed


text \<open>C17: the search for a mapping address ends for every state and returns the highest suitable one:
  with a positive base of the user space, the result is 0 only when the request does not fit between the heap
  and the start of the mapping area or none of the page-aligned addresses down to the heap is available.\<close>

theorem find_mmap_addr_highest:
  assumes "mm x = Some a" and "0 < user_base a" and "len \<noteq> 0" and "PGROUNDUP (brk a) < mmap_base a"
    and "len \<le> mmap_base a - PGROUNDUP (brk a)"
  defines "hi \<equiv> PGROUNDDOWN (mmap_base a - len)"
  shows "if find_mmap_addr x len m = 0
    then (\<forall>k. 4096 * k \<le> unat hi \<longrightarrow> unat (PGROUNDUP (brk a)) \<le> unat hi - 4096 * k \<longrightarrow>
            \<not> region_available x (hi - of_nat k * PGSIZE) (hi - of_nat k * PGSIZE + len) m)
    else (\<exists>k. find_mmap_addr x len m = hi - of_nat k * PGSIZE \<and> 4096 * k \<le> unat hi
            \<and> region_available x (hi - of_nat k * PGSIZE) (hi - of_nat k * PGSIZE + len) m
            \<and> (\<forall>j < k. \<not> region_available x (hi - of_nat j * PGSIZE) (hi - of_nat j * PGSIZE + len) m))"
proof -
  have b: "proc_brk x = brk a" "proc_user_base x = user_base a" using assms(1) by (simp_all add: proc_brk_def proc_user_base_def)
  have f: "find_mmap_addr x len m = mmap_search x m len (PGROUNDUP (brk a)) hi"
    using assms(1,3-5) by (auto simp: find_mmap_addr_def Let_def b hi_def not_le not_less)
  show ?thesis
  proof (cases "find_mmap_addr x len m = 0")
    case True
    then show ?thesis using mmap_search_none [of x m len "PGROUNDUP (brk a)" hi] assms(2) f b(2) by simp
  next
    case False
    with mmap_search_found [OF f [symmetric]] show ?thesis by auto
  qed
qed

theorem find_mmap_addr_highest_witness:
  "find_mmap_addr (zero_proc\<lparr>mm := Some demo_mm\<rparr>) 0x2000 (demo_pmm\<lparr>ram := \<lambda>_. 0\<rparr>) = 0xBFFDE000"
proof -
  let ?x = "zero_proc\<lparr>mm := Some demo_mm\<rparr>" and ?m = "demo_pmm\<lparr>ram := \<lambda>_. 0\<rparr>"
  have b: "user_base demo_mm = 0x400000" "PGROUNDUP (brk demo_mm) = 0x400000" "mmap_base demo_mm = 0xBFFE0000"
    by (simp_all add: demo_mm_def layout_simps PGROUNDUP_def)
  have t: "PGROUNDDOWN (mmap_base demo_mm - 0x2000) = 0xBFFDE000" by (simp add: b PGROUNDDOWN_def layout_simps)
  note h = find_mmap_addr_highest [where x = ?x and a = demo_mm and len = "0x2000" and m = ?m, unfolded t]
  show ?thesis
  proof (cases "find_mmap_addr ?x 0x2000 ?m = 0")
    case True
    with h demo_region have False by (auto simp: b dest: spec [where x = 0])
    then show ?thesis ..
  next
    case False
    with h obtain k where k: "find_mmap_addr ?x 0x2000 ?m = 0xBFFDE000 - of_nat k * PGSIZE"
      "\<forall>j < k. \<not> region_available ?x (0xBFFDE000 - of_nat j * PGSIZE) (0xBFFDE000 - of_nat j * PGSIZE + 0x2000) ?m"
      by (auto simp: b)
    from k(2) demo_region have "k = 0" by (auto dest: spec [where x = 0])
    with k(1) show ?thesis by simp
  qed
qed

end
