(* ===== verification/Shm.thy ===== *)
theory Shm
  imports Mmap
begin

text \<open>
  System V shared memory, src/arch/x86/kernel/ipc/shm.c.

  The table of segments extends the state of the scheduler. A function that drops \<open>shm_lock\<close> and takes
  it again (\<open>do_shmat\<close>) is split into its locked parts. A pointer to a VMA is the index \<open>i\<close> in the table
  of process \<open>p\<close>. \<open>shm_init\<close> only initialises the lock.
\<close>

section \<open>State\<close>

definition NSHM :: nat where "NSHM = 32"
definition SHM_MAX_PAGES :: u32 where "SHM_MAX_PAGES = 256"
definition IPC_PRIVATE :: int where "IPC_PRIVATE = 0"
definition IPC_CREAT :: u32 where "IPC_CREAT = 0x200"
definition IPC_EXCL :: u32 where "IPC_EXCL = 0x400"
definition IPC_RMID :: int where "IPC_RMID = 0"
definition SHM_RDONLY :: u32 where "SHM_RDONLY = 0x1000"

record shm_seg =
  inuse :: bool
  key :: int
  s_size :: u32
  npages :: u32
  seg_pages :: "nat \<Rightarrow> u32"
  nattch :: int
  dest :: bool

definition zero_seg :: shm_seg where
  "zero_seg = \<lparr>inuse = False, key = 0, s_size = 0, npages = 0, seg_pages = (\<lambda>_. 0), nattch = 0, dest = False\<rparr>"

record ipc = sched +
  shm_table :: "nat \<Rightarrow> shm_seg"

definition set_seg :: "nat \<Rightarrow> shm_seg \<Rightarrow> 'z ipc_scheme \<Rightarrow> 'z ipc_scheme" where
  "set_seg i g s = s\<lparr>shm_table := (shm_table s)(i := g)\<rparr>"

definition proc_vma :: "nat \<Rightarrow> nat \<Rightarrow> 'z sched_scheme \<Rightarrow> vma" where
  "proc_vma p i s = (case proc_vmas (ptab s p) of Some vs \<Rightarrow> vs i | None \<Rightarrow> zero_vma)"

section \<open>Segments\<close>

definition shm_get :: "int \<Rightarrow> 'z ipc_scheme \<Rightarrow> nat option" where
  "shm_get shmid s =
     (if shmid < 0 \<or> int NSHM \<le> shmid then None
      else if \<not> inuse (shm_table s (nat shmid)) then None else Some (nat shmid))"

definition shm_free_pages :: "shm_seg \<Rightarrow> pmm \<Rightarrow> (shm_seg \<times> pmm) kres" where
  "shm_free_pages g m =
     (case kfold (\<lambda>i (g, m). if seg_pages g i \<noteq> 0 then
                      (case put_page (seg_pages g i) m of
                         Inl e \<Rightarrow> Inl e | Inr m' \<Rightarrow> Inr (g\<lparr>seg_pages := (seg_pages g)(i := 0)\<rparr>, m'))
                    else Inr (g, m)) [0..<unat (npages g)] (g, m) of
        Inl e \<Rightarrow> Inl e
      | Inr (g', m') \<Rightarrow> Inr (g'\<lparr>npages := 0, s_size := 0\<rparr>, m'))"

definition shm_try_destroy_locked :: "nat \<Rightarrow> 'z ipc_scheme \<Rightarrow> 'z ipc_scheme kres" where
  "shm_try_destroy_locked i s =
     (let g = shm_table s i
      in if \<not> inuse g \<or> \<not> dest g \<or> nattch g \<noteq> 0 then Inr s
      else case shm_free_pages g (kmem s) of
             Inl e \<Rightarrow> Inl e
           | Inr (g', m) \<Rightarrow> Inr (set_seg i (g'\<lparr>inuse := False, key := 0, dest := False\<rparr>) (s\<lparr>kmem := m\<rparr>)))"

definition vma_perm :: "vma \<Rightarrow> u32" where
  "vma_perm v = (if v_prot v AND PROT_WRITE \<noteq> 0 then PTE_P OR PTE_W else PTE_P)"

text \<open>The loop of \<open>shm_map_range\<close> over the pages of the segment.\<close>

fun shm_map_loop :: "u32 \<Rightarrow> vma \<Rightarrow> shm_seg \<Rightarrow> nat list \<Rightarrow> pmm \<Rightarrow> (int \<times> pmm) kres" where
  "shm_map_loop pd v g [] m = Inr (0, m)"
| "shm_map_loop pd v g (i # is) m =
     (let va = v_start v + of_nat i * PGSIZE
      in case (if walkaddr pd va m \<noteq> 0 then uvmunmap pd va 1 True m else Inr (0, m)) of
           Inl e \<Rightarrow> Inl e
         | Inr (_, m1) \<Rightarrow>
             (case get_page (seg_pages g i) m1 of
                Inl e \<Rightarrow> Inl e
              | Inr m2 \<Rightarrow>
                  (case uvmmap pd va (V2P (seg_pages g i)) PGSIZE (vma_perm v) m2 of
                     (r, m3) \<Rightarrow>
                       if r < 0 then
                         (case put_page (seg_pages g i) m3 of Inl e \<Rightarrow> Inl e | Inr m4 \<Rightarrow> Inr (- 1, m4))
                       else shm_map_loop pd v g is m3)))"

definition shm_map_range :: "proc \<Rightarrow> vma \<Rightarrow> shm_seg \<Rightarrow> pmm \<Rightarrow> (int \<times> pmm) kres" where
  "shm_map_range x v g m =
     (if proc_pagetable x = 0 then Inr (- 1, m)
      else shm_map_loop (proc_pagetable x) v g [0..<unat (npages g)] m)"

definition shm_unmap_range :: "proc \<Rightarrow> vma \<Rightarrow> pmm \<Rightarrow> pmm kres" where
  "shm_unmap_range x v m =
     (if proc_pagetable x = 0 then Inr m
      else kfold (\<lambda>va m. case uvmunmap (proc_pagetable x) va 1 True m of Inl e \<Rightarrow> Inl e | Inr (_, m') \<Rightarrow> Inr m')
             (page_range (v_start v) (v_end v)) m)"

section \<open>shmget\<close>

text \<open>The loop that allocates the pages of a new segment; the boolean says whether all were allocated.\<close>

fun shmget_alloc :: "nat list \<Rightarrow> shm_seg \<Rightarrow> pmm \<Rightarrow> (bool \<times> shm_seg \<times> pmm) kres" where
  "shmget_alloc [] g m = Inr (True, g, m)"
| "shmget_alloc (j # js) g m =
     (case alloc_page m of
        (None, m1) \<Rightarrow>
          (case shm_free_pages (g\<lparr>npages := of_nat j\<rparr>) m1 of
             Inl e \<Rightarrow> Inl e
           | Inr (g', m2) \<Rightarrow> Inr (False, g'\<lparr>inuse := False\<rparr>, m2))
      | (Some mem, m1) \<Rightarrow>
          shmget_alloc js (g\<lparr>seg_pages := (seg_pages g)(j := mem)\<rparr>) (m1\<lparr>ram := memset mem 0 4096 (ram m1)\<rparr>))"

definition shmget_create :: "int \<Rightarrow> u32 \<Rightarrow> 'z ipc_scheme \<Rightarrow> (int \<times> 'z ipc_scheme) kres" where
  "shmget_create k sz0 s =
     (if sz0 = 0 then Inr (- 1, s)
      else let sz = PGROUNDUP sz0; n = sz div PGSIZE
      in if n = 0 \<or> SHM_MAX_PAGES < n then Inr (- 1, s)
      else case find (\<lambda>i. \<not> inuse (shm_table s i)) [0..<NSHM] of
             None \<Rightarrow> Inr (- 1, s)
           | Some slot \<Rightarrow>
               (case shmget_alloc [0..<unat n] (zero_seg\<lparr>inuse := True, key := k, s_size := sz, npages := n\<rparr>) (kmem s) of
                  Inl e \<Rightarrow> Inl e
                | Inr (ok, g, m) \<Rightarrow> Inr (if ok then int slot else - 1, set_seg slot g (s\<lparr>kmem := m\<rparr>))))"

definition do_shmget :: "int \<Rightarrow> u32 \<Rightarrow> u32 \<Rightarrow> 'z ipc_scheme \<Rightarrow> (int \<times> 'z ipc_scheme) kres" where
  "do_shmget k sz shmflg s =
     (if k \<noteq> IPC_PRIVATE then
        (case find (\<lambda>i. inuse (shm_table s i) \<and> \<not> dest (shm_table s i) \<and> key (shm_table s i) = k) [0..<NSHM] of
           Some i \<Rightarrow>
             if s_size (shm_table s i) < sz then Inr (- 1, s)
             else if shmflg AND IPC_CREAT \<noteq> 0 \<and> shmflg AND IPC_EXCL \<noteq> 0 then Inr (- 1, s)
             else Inr (int i, s)
         | None \<Rightarrow> if shmflg AND IPC_CREAT = 0 then Inr (- 1, s) else shmget_create k sz s)
      else shmget_create k sz s)"

section \<open>shmat and shmdt\<close>

text \<open>The first locked part of \<open>do_shmat\<close> gives the length, the rest of the code chooses the address.\<close>

definition shmat_lookup :: "int \<Rightarrow> 'z ipc_scheme \<Rightarrow> u32 option" where
  "shmat_lookup shmid s =
     (case shm_get shmid s of
        None \<Rightarrow> None
      | Some i \<Rightarrow> if dest (shm_table s i) then None else Some (s_size (shm_table s i)))"

definition shmat_place :: "nat \<Rightarrow> u32 \<Rightarrow> u32 \<Rightarrow> 'z ipc_scheme \<Rightarrow> u32 option" where
  "shmat_place p len shmaddr s =
     (if shmaddr \<noteq> 0 then
        (if shmaddr AND (PGSIZE - 1) \<noteq> 0 then None
         else if \<not> mmap_region_ok (ptab s p) shmaddr (shmaddr + len) (kmem s) then None else Some shmaddr)
      else (let start = mmap_find_addr (ptab s p) len (kmem s) in if start = 0 then None else Some start))"

text \<open>The second locked part: check the segment again, map it and count the attachment.\<close>

definition shmat_attach :: "nat \<Rightarrow> nat \<Rightarrow> int \<Rightarrow> 'z ipc_scheme \<Rightarrow> (bool \<times> 'z ipc_scheme) kres" where
  "shmat_attach p vi shmid s =
     (let drop = (\<lambda>s. upd_proc p (\<lambda>x. set_vma vi ((proc_vma p vi s)\<lparr>v_used := False\<rparr>) x) s)
      in case shm_get shmid s of
           None \<Rightarrow> Inr (False, drop s)
         | Some i \<Rightarrow>
             if dest (shm_table s i) then Inr (False, drop s)
             else (case shm_map_range (ptab s p) (proc_vma p vi s) (shm_table s i) (kmem s) of
                     Inl e \<Rightarrow> Inl e
                   | Inr (r, m) \<Rightarrow>
                       if r < 0 then Inr (False, drop (s\<lparr>kmem := m\<rparr>))
                       else Inr (True, set_seg i ((shm_table s i)\<lparr>nattch := nattch (shm_table s i) + 1\<rparr>) (s\<lparr>kmem := m\<rparr>))))"

definition do_shmat :: "nat \<Rightarrow> int \<Rightarrow> u32 \<Rightarrow> u32 \<Rightarrow> 'z ipc_scheme \<Rightarrow> (u32 \<times> 'z ipc_scheme) kres" where
  "do_shmat p shmid shmaddr shmflg s =
     (if proc_pagetable (ptab s p) = 0 then Inr (- 1, s)
      else case shmat_lookup shmid s of
             None \<Rightarrow> Inr (- 1, s)
           | Some len \<Rightarrow>
               (let prot = (if shmflg AND SHM_RDONLY = 0 then PROT_READ OR PROT_WRITE else PROT_READ)
                in case shmat_place p len shmaddr s of
                     None \<Rightarrow> Inr (- 1, s)
                   | Some start \<Rightarrow>
                       (case vma_create (ptab s p) start (start + len) prot MAP_SHARED shmid (kmem s) of
                          (None, _) \<Rightarrow> Inr (- 1, s)
                        | (Some vi, x) \<Rightarrow>
                            (case shmat_attach p vi shmid (upd_proc p (\<lambda>_. x) s) of
                               Inl e \<Rightarrow> Inl e
                             | Inr (ok, s') \<Rightarrow> Inr (if ok then start else - 1, s')))))"

definition shm_munmap_vma :: "nat \<Rightarrow> nat \<Rightarrow> 'z ipc_scheme \<Rightarrow> (int \<times> 'z ipc_scheme) kres" where
  "shm_munmap_vma p vi s =
     (let v = proc_vma p vi s; shmid = vma_shmid v
      in if \<not> v_used v \<or> shmid < 0 then Inr (- 1, s)
      else case shm_unmap_range (ptab s p) v (kmem s) of
             Inl e \<Rightarrow> Inl e
           | Inr m \<Rightarrow>
               (let s1 = upd_proc p (set_vma vi (v\<lparr>v_used := False, v_flags := 0\<rparr>)) (s\<lparr>kmem := m\<rparr>)
                in case shm_get shmid s1 of
                     None \<Rightarrow> Inr (0, s1)
                   | Some i \<Rightarrow>
                       (let g = shm_table s1 i;
                            s2 = set_seg i (if 0 < nattch g then g\<lparr>nattch := nattch g - 1\<rparr> else g) s1
                        in case shm_try_destroy_locked i s2 of Inl e \<Rightarrow> Inl e | Inr s3 \<Rightarrow> Inr (0, s3))))"

definition do_shmdt :: "nat \<Rightarrow> u32 \<Rightarrow> 'z ipc_scheme \<Rightarrow> (int \<times> 'z ipc_scheme) kres" where
  "do_shmdt p shmaddr s =
     (if proc_pagetable (ptab s p) = 0 \<or> shmaddr AND (PGSIZE - 1) \<noteq> 0 then Inr (- 1, s)
      else case find (\<lambda>i. v_used (proc_vma p i s) \<and> \<not> vma_shmid (proc_vma p i s) < 0 \<and> v_start (proc_vma p i s) = shmaddr) [0..<NVMA] of
             None \<Rightarrow> Inr (- 1, s)
           | Some i \<Rightarrow> shm_munmap_vma p i s)"

definition do_shmctl :: "int \<Rightarrow> int \<Rightarrow> 'z ipc_scheme \<Rightarrow> (int \<times> 'z ipc_scheme) kres" where
  "do_shmctl shmid cmd s =
     (if cmd \<noteq> IPC_RMID then Inr (- 1, s)
      else case shm_get shmid s of
             None \<Rightarrow> Inr (- 1, s)
           | Some i \<Rightarrow>
               (case shm_try_destroy_locked i (set_seg i ((shm_table s i)\<lparr>dest := True\<rparr>) s) of
                  Inl e \<Rightarrow> Inl e | Inr s' \<Rightarrow> Inr (0, s')))"

section \<open>fork, exit and page faults\<close>

text \<open>One round of the loop of \<open>shm_fork_fix\<close>, for the VMA \<open>i\<close> of the child.\<close>

definition shm_fork_one :: "nat \<Rightarrow> nat \<Rightarrow> nat \<Rightarrow> 'z ipc_scheme \<Rightarrow> 'z ipc_scheme kres" where
  "shm_fork_one child par i s =
     (let v = proc_vma child i s; shmid = vma_shmid v
      in if \<not> v_used v \<or> shmid < 0 then Inr s
      else case shm_get shmid s of
             Some k \<Rightarrow>
               if dest (shm_table s k) then
                 (case shm_unmap_range (ptab s child) v (kmem s) of
                    Inl e \<Rightarrow> Inl e
                  | Inr m \<Rightarrow> Inr (upd_proc child (set_vma i (v\<lparr>v_used := False, v_flags := 0\<rparr>)) (s\<lparr>kmem := m\<rparr>)))
               else (case shm_map_range (ptab s par) (proc_vma par i s) (shm_table s k) (kmem s) of
                       Inl e \<Rightarrow> Inl e
                     | Inr (r, m1) \<Rightarrow>
                         if r < 0 then Inr (s\<lparr>kmem := m1\<rparr>)
                         else (case shm_map_range (ptab s child) v (shm_table s k) m1 of
                                 Inl e \<Rightarrow> Inl e
                               | Inr (r2, m2) \<Rightarrow>
                                   if r2 < 0 then Inr (s\<lparr>kmem := m2\<rparr>)
                                   else Inr (set_seg k ((shm_table s k)\<lparr>nattch := nattch (shm_table s k) + 1\<rparr>) (s\<lparr>kmem := m2\<rparr>))))
           | None \<Rightarrow>
               (case shm_unmap_range (ptab s child) v (kmem s) of
                  Inl e \<Rightarrow> Inl e
                | Inr m \<Rightarrow> Inr (upd_proc child (set_vma i (v\<lparr>v_used := False, v_flags := 0\<rparr>)) (s\<lparr>kmem := m\<rparr>))))"

definition shm_fork_fix :: "nat \<Rightarrow> nat \<Rightarrow> 'z ipc_scheme \<Rightarrow> 'z ipc_scheme kres" where
  "shm_fork_fix child par s =
     (if mm (ptab s child) = None \<or> mm (ptab s par) = None then Inr s
      else kfold (shm_fork_one child par) [0..<NVMA] s)"

definition shm_detach_all :: "nat \<Rightarrow> 'z ipc_scheme \<Rightarrow> 'z ipc_scheme kres" where
  "shm_detach_all p s =
     (if mm (ptab s p) = None then Inr s
      else kfold (\<lambda>i s. if \<not> v_used (proc_vma p i s) \<or> vma_shmid (proc_vma p i s) < 0 then Inr s
                    else (case shm_munmap_vma p i s of Inl e \<Rightarrow> Inl e | Inr (_, s') \<Rightarrow> Inr s')) [0..<NVMA] s)"

definition shm_demand_fault :: "nat \<Rightarrow> vma \<Rightarrow> u32 \<Rightarrow> bool \<Rightarrow> 'z ipc_scheme \<Rightarrow> (int \<times> 'z ipc_scheme) kres" where
  "shm_demand_fault p v pg write s =
     (let shmid = vma_shmid v
      in if shmid < 0 then Inr (- 1, s)
      else if write \<and> v_prot v AND PROT_WRITE = 0 then Inr (- 1, s)
      else if pg < v_start v \<or> v_end v \<le> pg then Inr (- 1, s)
      else let idx = unat ((pg - v_start v) div PGSIZE)
      in case shm_get shmid s of
           None \<Rightarrow> Inr (- 1, s)
         | Some i \<Rightarrow>
             (let g = shm_table s i
              in if unat (npages g) \<le> idx \<or> seg_pages g idx = 0 then Inr (- 1, s)
              else case get_page (seg_pages g idx) (kmem s) of
                     Inl e \<Rightarrow> Inl e
                   | Inr m1 \<Rightarrow>
                       (case uvmmap (proc_pagetable (ptab s p)) pg (V2P (seg_pages g idx)) PGSIZE (vma_perm v) m1 of
                          (r, m2) \<Rightarrow>
                            if r < 0 then
                              (case put_page (seg_pages g idx) m2 of Inl e \<Rightarrow> Inl e | Inr m3 \<Rightarrow> Inr (- 1, s\<lparr>kmem := m3\<rparr>))
                            else Inr (0, s\<lparr>kmem := m2\<rparr>))))"

end
