(* ===== verification/User_Mem.thy ===== *)
theory User_Mem
  imports Shm
begin

text \<open>
  Page faults and the kernel's access to user memory: \<open>uvm_demand_fault\<close>, \<open>ensure_user_page\<close>, \<open>copyin\<close>,
  \<open>copyout\<close> and \<open>copyinstr\<close> of src/arch/x86/kernel/mm/vm.c and \<open>do_munmap\<close> of mm/mmap.c, which need the
  shared memory segments.

  A kernel buffer is a list of bytes: \<open>copyin\<close> returns the bytes read, \<open>None\<close> for its result -1.
\<close>

section \<open>Demand paging\<close>

definition uvm_demand_fault :: "nat \<Rightarrow> u32 \<Rightarrow> bool \<Rightarrow> 'z ipc_scheme \<Rightarrow> (int \<times> 'z ipc_scheme) kres" where
  "uvm_demand_fault p va write s =
     (let x = ptab s p; pd = proc_pagetable x; pg = PGROUNDDOWN va;
          fill = (\<lambda>perm. case map_new_page pd pg [] perm (kmem s) of
                            Inl e \<Rightarrow> Inl e
                          | Inr (None, m) \<Rightarrow> Inr (- 1, s\<lparr>kmem := m\<rparr>)
                          | Inr (Some _, m) \<Rightarrow> Inr (0, s\<lparr>kmem := m\<rparr>))
      in if pd = 0 then Inr (- 1, s)
      else if pg < proc_user_base x \<or> USEREND \<le> pg then Inr (- 1, s)
      else if walkaddr pd pg (kmem s) \<noteq> 0 then Inr (0, s)
      else if pg < proc_brk x \<and> proc_brk_start x < pg + PGSIZE then fill (PTE_P OR PTE_W)
      else case vma_lookup x pg of
             None \<Rightarrow> Inr (- 1, s)
           | Some i \<Rightarrow>
               (let v = proc_vma p i s
                in if 0 \<le> vma_shmid v then shm_demand_fault p v pg write s
                else if v_prot v AND (PROT_READ OR PROT_WRITE OR PROT_EXEC) = 0 then Inr (- 1, s)
                else if write \<and> v_prot v AND PROT_WRITE = 0 then Inr (- 1, s)
                else fill (vma_perm v)))"

definition ensure_user_page :: "nat \<Rightarrow> u32 \<Rightarrow> u32 \<Rightarrow> bool \<Rightarrow> 'z ipc_scheme \<Rightarrow> (int \<times> 'z ipc_scheme) kres" where
  "ensure_user_page c pd va0 write s =
     (let va = PGROUNDDOWN va0;
          demand = (case myproc c s of
                      None \<Rightarrow> Inr (- 1, s)
                    | Some p \<Rightarrow> if proc_pagetable (ptab s p) \<noteq> pd then Inr (- 1, s) else uvm_demand_fault p va write s)
      in case fst (walk pd va False False (kmem s)) of
           None \<Rightarrow> demand
         | Some pte \<Rightarrow>
             if rd32 pte (kmem s) AND PTE_P \<noteq> 0 then
               (if write \<and> rd32 pte (kmem s) AND PTE_COW \<noteq> 0 then
                  (case uvm_cow_fault pd va (kmem s) of
                     Inl e \<Rightarrow> Inl e
                   | Inr (r, m) \<Rightarrow> Inr (if r < 0 then - 1 else 0, s\<lparr>kmem := m\<rparr>))
                else Inr (0, s))
             else demand)"

section \<open>Copying\<close>

text \<open>The bytes of the page of \<open>va\<close> that a copy of \<open>n\<close> bytes takes in one round.\<close>

definition copy_chunk :: "u32 \<Rightarrow> u32 \<Rightarrow> u32" where
  "copy_chunk va n = (let chunk = PGSIZE - (va - PGROUNDDOWN va) in if n < chunk then n else chunk)"

lemma unat_page_off: "unat (va - PGROUNDDOWN va) = unat va mod 4096"
proof -
  have "unat (PGROUNDDOWN va) = unat va div 4096 * 4096" by (rule unat_PGROUNDDOWN)
  moreover from this have "PGROUNDDOWN va \<le> va" by (simp add: word_le_nat_alt)
  ultimately show ?thesis by (simp add: unat_sub minus_div_mult_eq_mod)
qed

lemma unat_copy_chunk: "unat (copy_chunk va n) = min (4096 - unat va mod 4096) (unat n)"
proof -
  have "unat va mod 4096 < 4096" by simp
  then have o: "va - PGROUNDDOWN va \<le> PGSIZE" by (simp add: word_le_nat_alt unat_page_off PGSIZE_def)
  have "unat (PGSIZE - (va - PGROUNDDOWN va)) = 4096 - unat va mod 4096"
    using unat_sub [OF o] by (simp add: unat_page_off PGSIZE_def)
  then show ?thesis by (simp add: copy_chunk_def Let_def word_less_nat_alt)
qed

lemma copy_chunk_less: "n \<noteq> 0 \<Longrightarrow> unat (n - copy_chunk va n) < unat n"
proof -
  assume n: "n \<noteq> 0"
  then have "0 < unat n" by (simp add: unat_gt_0)
  moreover have "0 < unat (copy_chunk va n)" "unat (copy_chunk va n) \<le> unat n"
    using calculation by (simp_all add: unat_copy_chunk)
  moreover from this(2) have "copy_chunk va n \<le> n" by (simp add: word_le_nat_alt)
  ultimately show ?thesis by (simp add: unat_sub)
qed

function copyin_loop :: "nat \<Rightarrow> u32 \<Rightarrow> u32 \<Rightarrow> u32 \<Rightarrow> 'z ipc_scheme \<Rightarrow> (u8 list option \<times> 'z ipc_scheme) kres" where
  "copyin_loop c pd srcva n s =
     (if n = 0 then Inr (Some [], s)
      else let va = PGROUNDDOWN srcva
      in case ensure_user_page c pd va False s of
           Inl e \<Rightarrow> Inl e
         | Inr (r, s1) \<Rightarrow>
             if r < 0 then Inr (None, s1)
             else let pa = walkaddr pd va (kmem s1)
             in if pa = 0 then Inr (None, s1)
             else let chunk = copy_chunk srcva n;
                      bytes = get_bytes (pa + (srcva - va)) (unat chunk) (ram (kmem s1))
             in case copyin_loop c pd (srcva + chunk) (n - chunk) s1 of
                  Inl e \<Rightarrow> Inl e
                | Inr (None, s2) \<Rightarrow> Inr (None, s2)
                | Inr (Some rest, s2) \<Rightarrow> Inr (Some (bytes @ rest), s2))"
  by pat_completeness auto
termination
  by (relation "measure (\<lambda>(c, pd, srcva, n, s). unat n)") (auto simp: copy_chunk_less)

declare copyin_loop.simps [simp del]

definition copyin :: "nat \<Rightarrow> u32 \<Rightarrow> u32 \<Rightarrow> u32 \<Rightarrow> 'z ipc_scheme \<Rightarrow> (u8 list option \<times> 'z ipc_scheme) kres" where
  "copyin c pd srcva n s = (if pd = 0 then Inr (None, s) else copyin_loop c pd srcva n s)"

function copyout_loop :: "nat \<Rightarrow> u32 \<Rightarrow> u32 \<Rightarrow> u8 list \<Rightarrow> u32 \<Rightarrow> 'z ipc_scheme \<Rightarrow> (int \<times> 'z ipc_scheme) kres" where
  "copyout_loop c pd dstva src n s =
     (if n = 0 then Inr (0, s)
      else let va = PGROUNDDOWN dstva
      in case ensure_user_page c pd va True s of
           Inl e \<Rightarrow> Inl e
         | Inr (r, s1) \<Rightarrow>
             if r < 0 then Inr (- 1, s1)
             else let pa = walkaddr pd va (kmem s1)
             in if pa = 0 then Inr (- 1, s1)
             else let chunk = copy_chunk dstva n;
                      m = (kmem s1)\<lparr>ram := put_bytes (pa + (dstva - va)) (take (unat chunk) src) (ram (kmem s1))\<rparr>
             in copyout_loop c pd (dstva + chunk) (drop (unat chunk) src) (n - chunk) (s1\<lparr>kmem := m\<rparr>))"
  by pat_completeness auto
termination
  by (relation "measure (\<lambda>(c, pd, dstva, src, n, s). unat n)") (auto simp: copy_chunk_less)

declare copyout_loop.simps [simp del]

text \<open>The buffer holds the \<open>n\<close> bytes to copy, so \<open>n\<close> is its length.\<close>

definition copyout :: "nat \<Rightarrow> u32 \<Rightarrow> u32 \<Rightarrow> u8 list \<Rightarrow> 'z ipc_scheme \<Rightarrow> (int \<times> 'z ipc_scheme) kres" where
  "copyout c pd dstva src s =
     (if pd = 0 then Inr (- 1, s) else copyout_loop c pd dstva src (of_nat (length src)) s)"

text \<open>\<open>copyinstr\<close>: \<open>k\<close> is \<open>max - 1 - i\<close>, the number of rounds left.\<close>

fun copyinstr_loop :: "nat \<Rightarrow> u32 \<Rightarrow> u32 \<Rightarrow> nat \<Rightarrow> 'z ipc_scheme \<Rightarrow> (u8 list option \<times> 'z ipc_scheme) kres" where
  "copyinstr_loop c pd srcva 0 s = Inr (None, s)"
| "copyinstr_loop c pd srcva (Suc k) s =
     (case copyin c pd srcva 1 s of
        Inl e \<Rightarrow> Inl e
      | Inr (None, s1) \<Rightarrow> Inr (None, s1)
      | Inr (Some bs, s1) \<Rightarrow>
          if hd bs = 0 then Inr (Some [], s1)
          else (case copyinstr_loop c pd (srcva + 1) k s1 of
                  Inl e \<Rightarrow> Inl e
                | Inr (None, s2) \<Rightarrow> Inr (None, s2)
                | Inr (Some rest, s2) \<Rightarrow> Inr (Some (hd bs # rest), s2)))"

definition copyinstr :: "nat \<Rightarrow> u32 \<Rightarrow> u32 \<Rightarrow> u32 \<Rightarrow> 'z ipc_scheme \<Rightarrow> (u8 list option \<times> 'z ipc_scheme) kres" where
  "copyinstr c pd srcva mx s =
     (if pd = 0 \<or> mx = 0 then Inr (None, s) else copyinstr_loop c pd srcva (unat mx - 1) s)"

section \<open>Unmapping\<close>

definition do_munmap :: "nat \<Rightarrow> u32 \<Rightarrow> u32 \<Rightarrow> 'z ipc_scheme \<Rightarrow> (int \<times> 'z ipc_scheme) kres" where
  "do_munmap p addr len0 s =
     (if proc_pagetable (ptab s p) = 0 \<or> len0 = 0 then Inr (- 1, s)
      else if addr AND (PGSIZE - 1) \<noteq> 0 then Inr (- 1, s)
      else let len = PGROUNDUP len0; e = addr + len
      in if e < addr then Inr (- 1, s)
      else case vma_find (ptab s p) addr e of
             None \<Rightarrow> Inr (- 1, s)
           | Some i \<Rightarrow>
               (let v = proc_vma p i s
                in if 0 \<le> vma_shmid v then shm_munmap_vma p i s
                else case mmap_unmap_pages (ptab s p) (v_start v) (v_end v) (kmem s) of
                       Inl e \<Rightarrow> Inl e
                     | Inr m \<Rightarrow> Inr (0, upd_proc p (set_vma i (v\<lparr>v_used := False\<rparr>)) (s\<lparr>kmem := m\<rparr>))))"


section \<open>Faults and copies change memory only\<close>

definition mem_only :: "'z ipc_scheme \<Rightarrow> 'z ipc_scheme \<Rightarrow> bool" where
  "mem_only s s' \<longleftrightarrow> (\<exists>m. s' = s\<lparr>kmem := m\<rparr>)"

lemma mem_only_refl [simp]: "mem_only s s"
  unfolding mem_only_def by (rule exI [of _ "kmem s"]) simp

lemma mem_only_upd [simp]: "mem_only s (s\<lparr>kmem := m\<rparr>)"
  by (auto simp: mem_only_def)

lemma mem_only_trans: "mem_only s s' \<Longrightarrow> mem_only s' s'' \<Longrightarrow> mem_only s s''"
  by (auto simp: mem_only_def)

lemma mem_onlyD:
  "mem_only s s' \<Longrightarrow> ptab s' = ptab s" "mem_only s s' \<Longrightarrow> cpus s' = cpus s" "mem_only s s' \<Longrightarrow> kslab s' = kslab s"
  "mem_only s s' \<Longrightarrow> shm_table s' = shm_table s" "mem_only s s' \<Longrightarrow> rq s' = rq s" "mem_only s s' \<Longrightarrow> ticks s' = ticks s"
  by (auto simp: mem_only_def)

lemma shm_demand_fault_frame: "shm_demand_fault p v pg write s = Inr (r, s') \<Longrightarrow> mem_only s s'"
  by (auto simp: shm_demand_fault_def Let_def split: if_splits option.splits sum.splits prod.splits)

lemma uvm_demand_fault_frame:
  assumes "uvm_demand_fault p va write s = Inr (r, s')" shows "mem_only s s'"
proof -
  have f: "mem_only s s'" if "(case map_new_page pd pg [] perm (kmem s) of
      Inl e \<Rightarrow> Inl e | Inr (None, m) \<Rightarrow> Inr (- 1, s\<lparr>kmem := m\<rparr>) | Inr (Some _, m) \<Rightarrow> Inr (0, s\<lparr>kmem := m\<rparr>)) = Inr (r, s')"
    for pd pg perm
    using that by (auto split: sum.splits prod.splits option.splits)
  from assms show ?thesis
    unfolding uvm_demand_fault_def Let_def
    by (auto split: if_splits option.splits dest: f shm_demand_fault_frame)
qed

lemma ensure_user_page_frame:
  assumes "ensure_user_page c pd va write s = Inr (r, s')" shows "mem_only s s'"
  using assms unfolding ensure_user_page_def Let_def
  by (auto split: if_splits option.splits sum.splits prod.splits dest: uvm_demand_fault_frame)

lemma copyout_loop_frame: "copyout_loop c pd va src n s = Inr (r, s') \<Longrightarrow> mem_only s s'"
proof (induction c pd va src n s rule: copyout_loop.induct)
  case (1 c pd dstva src n s)
  show ?case
  proof (cases "n = 0")
    case True
    then show ?thesis using 1(2) by (simp add: copyout_loop.simps [of c pd dstva src 0 s])
  next
    case False
    obtain r1 s1 where e: "ensure_user_page c pd (PGROUNDDOWN dstva) True s = Inr (r1, s1)"
      using 1(2) False by (cases "ensure_user_page c pd (PGROUNDDOWN dstva) True s")
        (auto simp: copyout_loop.simps [of c pd dstva src n s])
    note f = ensure_user_page_frame [OF e]
    show ?thesis
    proof (cases "r1 < 0 \<or> walkaddr pd (PGROUNDDOWN dstva) (kmem s1) = 0")
      case True
      then show ?thesis using 1(2) False e f by (auto simp: copyout_loop.simps [of c pd dstva src n s] Let_def split: if_splits)
    next
      case go: False
      define m where "m = (kmem s1)\<lparr>ram := put_bytes (walkaddr pd (PGROUNDDOWN dstva) (kmem s1) + (dstva - PGROUNDDOWN dstva))
        (take (unat (copy_chunk dstva n)) src) (ram (kmem s1))\<rparr>"
      have "copyout_loop c pd (dstva + copy_chunk dstva n) (drop (unat (copy_chunk dstva n)) src) (n - copy_chunk dstva n)
          (s1\<lparr>kmem := m\<rparr>) = Inr (r, s')"
        using 1(2) False e go by (simp add: copyout_loop.simps [of c pd dstva src n s] Let_def m_def)
      then have "mem_only (s1\<lparr>kmem := m\<rparr>) s'"
        using 1(1) [OF False refl e refl _ refl _ refl refl] go by (simp add: m_def)
      then show ?thesis by (rule mem_only_trans [OF mem_only_trans [OF f mem_only_upd]])
    qed
  qed
qed

lemma copyout_frame: "copyout c pd va src s = Inr (r, s') \<Longrightarrow> mem_only s s'"
  by (auto simp: copyout_def split: if_splits dest: copyout_loop_frame)

lemma copyin_loop_frame: "copyin_loop c pd va n s = Inr (r, s') \<Longrightarrow> mem_only s s'"
proof (induction c pd va n s arbitrary: r rule: copyin_loop.induct)
  case (1 c pd srcva n s)
  show ?case
  proof (cases "n = 0")
    case True
    then show ?thesis using 1(2) by (simp add: copyin_loop.simps [of c pd srcva 0 s])
  next
    case False
    obtain r1 s1 where e: "ensure_user_page c pd (PGROUNDDOWN srcva) False s = Inr (r1, s1)"
      using 1(2) False by (cases "ensure_user_page c pd (PGROUNDDOWN srcva) False s")
        (auto simp: copyin_loop.simps [of c pd srcva n s])
    note f = ensure_user_page_frame [OF e]
    show ?thesis
    proof (cases "r1 < 0 \<or> walkaddr pd (PGROUNDDOWN srcva) (kmem s1) = 0")
      case True
      then show ?thesis using 1(2) False e f by (auto simp: copyin_loop.simps [of c pd srcva n s] Let_def split: if_splits)
    next
      case go: False
      obtain r2 where "copyin_loop c pd (srcva + copy_chunk srcva n) (n - copy_chunk srcva n) s1 = Inr (r2, s')"
        using 1(2) False e go
        by (cases "copyin_loop c pd (srcva + copy_chunk srcva n) (n - copy_chunk srcva n) s1")
          (auto simp: copyin_loop.simps [of c pd srcva n s] Let_def split: option.splits)
      then have "mem_only s1 s'"
        using 1(1) [OF False refl e refl _ refl _ refl refl] go by simp
      then show ?thesis using f by (auto intro: mem_only_trans)
    qed
  qed
qed

lemma copyin_frame: "copyin c pd va n s = Inr (r, s') \<Longrightarrow> mem_only s s'"
  by (auto simp: copyin_def split: if_splits dest: copyin_loop_frame)


section \<open>A copy within one mapped page\<close>

lemma ensure_mapped:
  assumes "fst (walk pd va False False (kmem s)) = Some pte" and "PGROUNDDOWN va = va"
    and "rd32 pte (kmem s) AND PTE_P \<noteq> 0" and "write \<longrightarrow> rd32 pte (kmem s) AND PTE_COW = 0"
  shows "ensure_user_page c pd va write s = Inr (0, s)"
  using assms by (auto simp: ensure_user_page_def)

lemma PGROUNDDOWN_idem: "PGROUNDDOWN (PGROUNDDOWN va) = PGROUNDDOWN va"
  by (simp add: PGROUNDDOWN_def and.assoc)

text \<open>
  The copy to a page that is present, for users and not copy-on-write goes straight to the frame;
  whether the entry allows writing plays no role.
\<close>

lemma copyout_page:
  assumes pd: "pd \<noteq> 0" and w: "fst (walk pd (PGROUNDDOWN va) False False (kmem s)) = Some pte"
    and f: "rd32 pte (kmem s) AND PTE_P \<noteq> 0" "rd32 pte (kmem s) AND PTE_COW = 0"
    and pa: "walkaddr pd (PGROUNDDOWN va) (kmem s) = pa" "pa \<noteq> 0"
    and fit: "unat va mod 4096 + length bs \<le> 4096" and ne: "bs \<noteq> []"
  shows "copyout c pd va bs s = Inr (0, s\<lparr>kmem := (kmem s)\<lparr>ram := put_bytes (pa + (va - PGROUNDDOWN va)) bs (ram (kmem s))\<rparr>\<rparr>)"
proof -
  define n where "n = (of_nat (length bs) :: u32)"
  have l: "unat n = length bs" using fit by (simp add: n_def unat_of_nat)
  have n0: "n \<noteq> 0" using l ne by auto
  have "unat (copy_chunk va n) = unat n" using fit by (simp add: unat_copy_chunk l)
  then have ch: "copy_chunk va n = n" by (rule unsigned_word_eqI)
  have e: "ensure_user_page c pd (PGROUNDDOWN va) True s = Inr (0, s)"
    by (rule ensure_mapped [OF w PGROUNDDOWN_idem f(1)]) (simp add: f(2))
  show ?thesis
    unfolding copyout_def using pd n0 e pa
    by (simp add: n_def [symmetric] copyout_loop.simps [of c pd va bs n] copyout_loop.simps [of _ _ _ _ 0] Let_def ch l)
qed


lemma copyin_page:
  assumes pd: "pd \<noteq> 0" and w: "fst (walk pd (PGROUNDDOWN va) False False (kmem s)) = Some pte"
    and f: "rd32 pte (kmem s) AND PTE_P \<noteq> 0" and pa: "walkaddr pd (PGROUNDDOWN va) (kmem s) = pa" "pa \<noteq> 0"
    and fit: "unat va mod 4096 + unat n \<le> 4096" and ne: "n \<noteq> 0"
  shows "copyin c pd va n s = Inr (Some (get_bytes (pa + (va - PGROUNDDOWN va)) (unat n) (ram (kmem s))), s)"
proof -
  have "unat (copy_chunk va n) = unat n" using fit by (simp add: unat_copy_chunk)
  then have ch: "copy_chunk va n = n" by (rule unsigned_word_eqI)
  have e: "ensure_user_page c pd (PGROUNDDOWN va) False s = Inr (0, s)"
    by (rule ensure_mapped [OF w PGROUNDDOWN_idem f]) simp
  show ?thesis
    unfolding copyin_def using pd ne e pa
    by (simp add: copyin_loop.simps [of c pd va n] copyin_loop.simps [of _ _ _ 0] Let_def ch)
qed

section \<open>Properties\<close>

text \<open>A machine whose page directory at 3 GiB + 2 MiB maps the page below the top of user space with the entry \<open>v\<close>.\<close>

definition demo_map :: "u32 \<Rightarrow> ipc" where
  "demo_map v = \<lparr>ptab = (\<lambda>_. zero_proc), rq = \<lparr>nxt = id, prv = id\<rparr>, nextpid = 1, initproc = None, kthreadd_task = None,
     cpus = (\<lambda>_. \<lparr>c_proc = None, c_last_sched = None, c_need_resched = False, c_noff = 0, c_user_pgdir = 0\<rparr>),
     ticks = 0, fg_pid = 0, kmem = demo_pmm\<lparr>ram := store32 0xC0200BFC 0x00201007 (store32 0xC0201FFC v (\<lambda>_. 0))\<rparr>,
     kslab = fst demo_heap, shm_table = (\<lambda>_. zero_seg)\<rparr>"

lemma demo_map_walk:
  "walk 0xC0200000 0xBFFFF000 False False (kmem (demo_map v)) = (Some 0xC0201FFC, kmem (demo_map v))"
  "rd32 0xC0201FFC (kmem (demo_map v)) = v"
proof -
  have pde: "rd32 0xC0200BFC (kmem (demo_map v)) = 0x00201007" by (simp add: demo_map_def rd32_def)
  show "walk 0xC0200000 0xBFFFF000 False False (kmem (demo_map v)) = (Some 0xC0201FFC, kmem (demo_map v))"
    by (simp add: walk_def pde PDX_def PTX_def PTE_P_def pde_pt_kva_def PTE_ADDR_def P2V_def KERNBASE_def)
  show "rd32 0xC0201FFC (kmem (demo_map v)) = v"
    by (simp add: demo_map_def rd32_def load32_store32_other word_at_def)
qed



text \<open>C38: \<open>copyout\<close> does not look at the write permission: a copy to a page that is mapped for users, read-only and not
  copy-on-write succeeds and puts the bytes into the frame, which other address spaces may share.\<close>

theorem copyout_ignores_read_only:
  assumes "pd \<noteq> 0" and "fst (walk pd (PGROUNDDOWN va) False False (kmem s)) = Some pte"
    and "rd32 pte (kmem s) AND PTE_P \<noteq> 0" and "rd32 pte (kmem s) AND PTE_W = 0" and "rd32 pte (kmem s) AND PTE_COW = 0"
    and "walkaddr pd (PGROUNDDOWN va) (kmem s) \<noteq> 0" and "unat va mod 4096 + length bs \<le> 4096" and "i < length bs"
  shows "\<exists>s'. copyout c pd va bs s = Inr (0, s')
    \<and> ram (kmem s') (walkaddr pd (PGROUNDDOWN va) (kmem s) + (va - PGROUNDDOWN va) + of_nat i) = bs ! i"
proof -
  let ?a = "walkaddr pd (PGROUNDDOWN va) (kmem s) + (va - PGROUNDDOWN va)"
  have ne: "bs \<noteq> []" using assms(8) by auto
  have "i < 2 ^ 32" using assms(7,8) by simp
  then have "unat (?a + of_nat i - ?a) = i" by (simp add: unat_of_nat)
  then show ?thesis
    using copyout_page [OF assms(1-3,5) refl assms(6,7) ne, of c] assms(7,8) by (simp add: put_bytes_apply)
qed

theorem copyout_ignores_read_only_witness:
  "\<exists>s'. copyout 0 0xC0200000 0xBFFFF010 [1, 2] (demo_map 0x00202005) = Inr (0, s') \<and> ram (kmem s') 0xC0202011 = 2"
proof -
  have w: "walkaddr 0xC0200000 0xBFFFF000 (kmem (demo_map 0x00202005)) = 0xC0202000"
    by (simp add: walkaddr_def demo_map_walk PTE_P_def PTE_U_def PTE_ADDR_def P2V_def KERNBASE_def PGSIZE_def)
  show ?thesis
    using copyout_ignores_read_only [where pd = "0xC0200000" and va = "0xBFFFF010" and s = "demo_map 0x00202005" and pte = "0xC0201FFC"
        and bs = "[1, 2]" and c = 0 and i = 1]
    by (simp add: demo_map_walk w PGROUNDDOWN_def PGSIZE_def PTE_P_def PTE_W_def PTE_COW_def)
qed

end
