(* ===== verification/Signal.thy ===== *)
theory Signal
  imports User_Mem Sched
begin

text \<open>
  Signals, src/arch/x86/kernel/ipc/signal.c, and the arguments of system calls, src/arch/x86/kernel/syscall.c.

  A trap frame is a value; an operation that changes it returns the new one. \<open>exit_signal\<close> does not
  return, so \<open>signal_notify\<close> says whether the process goes back to user mode or exits. The heap of the
  kernel is the pair of \<open>kslab\<close> and \<open>kmem\<close>.
\<close>

section \<open>System call arguments\<close>

definition argraw :: "trapframe \<Rightarrow> nat \<Rightarrow> u32 kres" where
  "argraw tf n =
     (if n = 0 then Inr (tf_ebx tf) else if n = 1 then Inr (tf_ecx tf) else if n = 2 then Inr (tf_edx tf)
      else if n = 3 then Inr (tf_esi tf) else if n = 4 then Inr (tf_edi tf) else if n = 5 then Inr (tf_ebp tf)
      else Inl ''argraw'')"

definition argint :: "trapframe \<Rightarrow> nat \<Rightarrow> int kres" where
  "argint tf n = (case argraw tf n of Inl e \<Rightarrow> Inl e | Inr w \<Rightarrow> Inr (sint w))"

definition argaddr :: "trapframe \<Rightarrow> nat \<Rightarrow> u32 kres" where
  "argaddr tf n = argraw tf n"

definition heap_of :: "'z sched_scheme \<Rightarrow> slab \<times> pmm" where
  "heap_of s = (kslab s, kmem s)"

definition set_heap :: "slab \<times> pmm \<Rightarrow> 'z sched_scheme \<Rightarrow> 'z sched_scheme" where
  "set_heap h s = s\<lparr>kslab := fst h, kmem := snd h\<rparr>"

section \<open>Signal numbers and actions\<close>

definition SIGKILL :: int where "SIGKILL = 9"
definition SIGPIPE :: int where "SIGPIPE = 13"
definition SIGCHLD :: int where "SIGCHLD = 17"
definition SIGCONT :: int where "SIGCONT = 18"
definition SIGSTOP :: int where "SIGSTOP = 19"
definition SIG_DFL :: u32 where "SIG_DFL = 0"
definition SIG_IGN :: u32 where "SIG_IGN = 1"
definition SYS_sigreturn :: u32 where "SYS_sigreturn = 119"

definition SIGBIT :: "nat \<Rightarrow> u32" where "SIGBIT sig = push_bit (sig - 1) 1"

definition valid_sig :: "int \<Rightarrow> bool" where "valid_sig sig \<longleftrightarrow> 1 \<le> sig \<and> sig < int NSIG"

definition sig_fatal_default :: "int \<Rightarrow> bool" where
  "sig_fatal_default sig \<longleftrightarrow> \<not> (sig = SIGCHLD \<or> sig = SIGCONT)"

definition signal_free_old :: "nat \<Rightarrow> 'z sched_scheme \<Rightarrow> 'z sched_scheme kres" where
  "signal_free_old p s =
     (case sigold (ptab s p) of
        None \<Rightarrow> Inr s
      | Some (a, _) \<Rightarrow>
          (case kfree a (heap_of s) of
             Inl e \<Rightarrow> Inl e | Inr h \<Rightarrow> Inr (upd_proc p (\<lambda>x. x\<lparr>sigold := None\<rparr>) (set_heap h s))))"

section \<open>Sending\<close>

definition signal_wake_locked :: "nat \<Rightarrow> 'z sched_scheme \<Rightarrow> 'z sched_scheme kres" where
  "signal_wake_locked p s = (if state (ptab s p) = SLEEPING then wake_one p s else Inr s)"

definition signal_send :: "int \<Rightarrow> int \<Rightarrow> 'z sched_scheme \<Rightarrow> (int \<times> 'z sched_scheme) kres" where
  "signal_send n sig s =
     (if \<not> valid_sig sig then Inr (- 1, s)
      else case find (\<lambda>i. pid (ptab s i) = n \<and> state (ptab s i) \<noteq> UNUSED \<and> state (ptab s i) \<noteq> ZOMBIE) [0..<NPROC] of
             None \<Rightarrow> Inr (- 1, s)
           | Some p \<Rightarrow>
               if proc_pagetable (ptab s p) = 0 then Inr (- 1, s)
               else let s1 = (if sig = SIGKILL
                              then upd_proc p (\<lambda>x. x\<lparr>sighand := (sighand x)(nat sig := SIG_DFL),
                                     sigmasked := sigmasked x AND NOT (SIGBIT (nat sig))\<rparr>) s
                              else s);
                        s2 = upd_proc p (\<lambda>x. x\<lparr>sigpending := sigpending x OR SIGBIT (nat sig)\<rparr>) s1
               in case signal_wake_locked p s2 of Inl e \<Rightarrow> Inl e | Inr s3 \<Rightarrow> Inr (0, s3))"

definition signal_can_interrupt :: "proc \<Rightarrow> bool" where
  "signal_can_interrupt x =
     (let bits = sigpending x AND NOT (sigmasked x)
      in if bits = 0 then False
      else find (\<lambda>sig. bits AND SIGBIT sig \<noteq> 0 \<and> sighand x sig \<noteq> SIG_IGN) [1..<NSIG] \<noteq> None)"

definition signal_parent_child_exit :: "nat \<Rightarrow> 'z sched_scheme \<Rightarrow> 'z sched_scheme" where
  "signal_parent_child_exit child s =
     (case parent (ptab s child) of
        None \<Rightarrow> s
      | Some q \<Rightarrow>
          if q = child \<or> proc_pagetable (ptab s q) = 0 then s
          else upd_proc q (\<lambda>x. x\<lparr>sigpending := sigpending x OR SIGBIT (nat SIGCHLD)\<rparr>) s)"

definition signal_fork :: "nat \<Rightarrow> nat \<Rightarrow> 'z sched_scheme \<Rightarrow> 'z sched_scheme" where
  "signal_fork np p s =
     upd_proc np (\<lambda>x. x\<lparr>sighand := (\<lambda>i. if i < NSIG then sighand (ptab s p) i else sighand x i),
       sigpending := 0, sigmasked := 0, sighandling := False, sigold := None\<rparr>) s"

definition signal_exec_reset :: "nat \<Rightarrow> 'z sched_scheme \<Rightarrow> 'z sched_scheme kres" where
  "signal_exec_reset p s =
     signal_free_old p
       (upd_proc p (\<lambda>x. x\<lparr>sighand := (\<lambda>i. if i < NSIG \<and> sighand x i \<noteq> SIG_IGN then SIG_DFL else sighand x i),
          sigpending := 0, sigmasked := 0, sighandling := False\<rparr>) s)"

definition signal_exit_cleanup :: "nat \<Rightarrow> 'z sched_scheme \<Rightarrow> 'z sched_scheme kres" where
  "signal_exit_cleanup p s = signal_free_old p (upd_proc p (\<lambda>x. x\<lparr>sighandling := False\<rparr>) s)"

section \<open>Delivery\<close>

text \<open>The code that returns from a handler: \<open>movl $SYS_sigreturn, %eax; int $0x80; nop\<close>.\<close>

definition sig_tramp :: "u8 list" where
  "sig_tramp = [0xb8, ucast (SYS_sigreturn AND 0xff), ucast (drop_bit 8 SYS_sigreturn AND 0xff),
     ucast (drop_bit 16 SYS_sigreturn AND 0xff), ucast (drop_bit 24 SYS_sigreturn AND 0xff), 0xcd, 0x80, 0x90]"

definition word_bytes_le :: "u32 \<Rightarrow> u8 list" where
  "word_bytes_le w = [ucast w, ucast (drop_bit 8 w), ucast (drop_bit 16 w), ucast (drop_bit 24 w)]"

text \<open>The three copies to the user's stack: the trampoline, the signal number, the return address.\<close>

definition sig_push :: "nat \<Rightarrow> u32 \<Rightarrow> u32 \<Rightarrow> nat \<Rightarrow> 'z ipc_scheme \<Rightarrow> (u32 option \<times> 'z ipc_scheme) kres" where
  "sig_push c pd sp0 sig s =
     (let sp1 = (sp0 - 8) AND NOT 3
      in case copyout c pd sp1 sig_tramp s of
           Inl e \<Rightarrow> Inl e
         | Inr (r1, s1) \<Rightarrow>
             if r1 < 0 then Inr (None, s1)
             else case copyout c pd (sp1 - 4) (word_bytes_le (of_nat sig)) s1 of
                    Inl e \<Rightarrow> Inl e
                  | Inr (r2, s2) \<Rightarrow>
                      if r2 < 0 then Inr (None, s2)
                      else case copyout c pd (sp1 - 8) (word_bytes_le sp1) s2 of
                             Inl e \<Rightarrow> Inl e
                           | Inr (r3, s3) \<Rightarrow> Inr (if r3 < 0 then None else Some (sp1 - 8), s3))"

definition signal_setup_frame :: "nat \<Rightarrow> nat \<Rightarrow> trapframe \<Rightarrow> nat \<Rightarrow> u32 \<Rightarrow> 'z ipc_scheme \<Rightarrow> (int \<times> trapframe \<times> 'z ipc_scheme) kres" where
  "signal_setup_frame c p tf sig handler s =
     (let x = ptab s p; sp = tf_esp tf
      in if proc_pagetable x = 0 \<or> tf_cs tf AND DPL_USER = 0 then Inr (- 1, tf, s)
      else if sp < USERSTACK_BOTTOM + 64 \<or> USERSTACK \<le> sp then Inr (- 1, tf, s)
      else if handler < USERLOAD \<or> USEREND \<le> handler then Inr (- 1, tf, s)
      else case kmalloc sizeof_trapframe (heap_of s) of
             Inl e \<Rightarrow> Inl e
           | Inr (None, h) \<Rightarrow> Inr (- 1, tf, set_heap h s)
           | Inr (Some old, h) \<Rightarrow>
               (case sig_push c (proc_pagetable x) sp sig (set_heap h s) of
                  Inl e \<Rightarrow> Inl e
                | Inr (None, s1) \<Rightarrow>
                    (case kfree old (heap_of s1) of Inl e \<Rightarrow> Inl e | Inr h1 \<Rightarrow> Inr (- 1, tf, set_heap h1 s1))
                | Inr (Some sp', s1) \<Rightarrow>
                    (case signal_free_old p s1 of
                       Inl e \<Rightarrow> Inl e
                     | Inr s2 \<Rightarrow>
                         Inr (0, tf\<lparr>tf_esp := sp', tf_eip := handler\<rparr>,
                           upd_proc p (\<lambda>x. x\<lparr>sigold := Some (old, tf), sighandling := True\<rparr>) s2))))"

text \<open>The first signal that is pending and not masked, 0 when there is none, with its bit cleared.\<close>

definition signal_dequeue :: "proc \<Rightarrow> nat \<times> proc" where
  "signal_dequeue x =
     (let bits = sigpending x AND NOT (sigmasked x)
      in if bits = 0 then (0, x)
      else case find (\<lambda>sig. bits AND SIGBIT sig \<noteq> 0) [1..<NSIG] of
             None \<Rightarrow> (0, x)
           | Some sig \<Rightarrow> (sig, x\<lparr>sigpending := sigpending x AND NOT (SIGBIT sig)\<rparr>))"

datatype notify_out = NReturn trapframe | NExit int

lemma and_not_bit_less:
  fixes w :: u32
  assumes "w AND b \<noteq> 0" shows "unat (w AND NOT b) < unat w"
proof -
  have e: "w AND b = w XOR (w AND NOT b)" by (rule bit_eqI) (auto simp: bit_simps)
  have "w AND NOT b \<noteq> w"
  proof
    assume "w AND NOT b = w"
    with e have "w AND b = w XOR w" by simp
    with assms show False by simp
  qed
  moreover have "w AND NOT b \<le> w" by (rule word_and_le2)
  ultimately have "w AND NOT b < w" by simp
  then show ?thesis by (simp add: word_less_nat_alt)
qed

lemma signal_dequeue_Some:
  assumes "signal_dequeue x = (sig, x')" and "sig \<noteq> 0"
  shows "1 \<le> sig" "sig < NSIG" "(sigpending x AND NOT (sigmasked x)) AND SIGBIT sig \<noteq> 0"
    "\<forall>k. 1 \<le> k \<longrightarrow> k < sig \<longrightarrow> (sigpending x AND NOT (sigmasked x)) AND SIGBIT k = 0"
    "x' = x\<lparr>sigpending := sigpending x AND NOT (SIGBIT sig)\<rparr>"
  using assms by (auto simp: signal_dequeue_def Let_def find_upt_Some split: if_splits option.splits)

lemma signal_dequeue_less:
  assumes "signal_dequeue x = (sig, x')" and "sig \<noteq> 0"
  shows "unat (sigpending x') < unat (sigpending x)"
proof -
  have "sigpending x AND SIGBIT sig \<noteq> 0"
  proof
    assume z: "sigpending x AND SIGBIT sig = 0"
    have "(sigpending x AND NOT (sigmasked x)) AND SIGBIT sig = (sigpending x AND SIGBIT sig) AND NOT (sigmasked x)"
      by (simp add: ac_simps)
    with z signal_dequeue_Some(3) [OF assms] show False by simp
  qed
  from and_not_bit_less [OF this] signal_dequeue_Some(5) [OF assms] show ?thesis by simp
qed

text \<open>The loop of \<open>signal_notify\<close>; every round clears a pending bit.\<close>

function notify_loop :: "nat \<Rightarrow> nat \<Rightarrow> trapframe \<Rightarrow> 'z ipc_scheme \<Rightarrow> (notify_out \<times> 'z ipc_scheme) kres" where
  "notify_loop c p tf s =
     (let sig = fst (signal_dequeue (ptab s p)); s1 = upd_proc p (\<lambda>_. snd (signal_dequeue (ptab s p))) s;
          handler = sighand (ptab s1 p) sig
      in if sig = 0 then Inr (NReturn tf, s1)
      else if int sig = SIGKILL then Inr (NExit SIGKILL, s1)
      else if handler = SIG_IGN then notify_loop c p tf s1
      else if handler = SIG_DFL then
        (if \<not> sig_fatal_default (int sig) then notify_loop c p tf s1 else Inr (NExit (int sig), s1))
      else case signal_setup_frame c p tf sig handler s1 of
             Inl e \<Rightarrow> Inl e
           | Inr (r, tf', s2) \<Rightarrow> if r < 0 then Inr (NExit (int sig), s2) else Inr (NReturn tf', s2))"
  by pat_completeness auto
termination
proof (relation "measure (\<lambda>(c, p, tf, s). unat (sigpending (ptab s p)))")
  fix p and s :: "'z ipc_scheme"
  have "unat (sigpending (snd (signal_dequeue (ptab s p)))) < unat (sigpending (ptab s p))"
    if "fst (signal_dequeue (ptab s p)) \<noteq> 0"
    using that by (cases "signal_dequeue (ptab s p)") (auto intro: signal_dequeue_less)
  note d = this
  show "((c, p, tf, s1), c, p, tf, s) \<in> measure (\<lambda>(c, p, tf, s). unat (sigpending (ptab s p)))"
    if "sig = fst (signal_dequeue (ptab s p))" "s1 = upd_proc p (\<lambda>_. snd (signal_dequeue (ptab s p))) s" "sig \<noteq> 0"
    for c tf sig and s1 :: "'z ipc_scheme"
    using d that by simp
  then show "((c, p, tf, s1), c, p, tf, s) \<in> measure (\<lambda>(c, p, tf, s). unat (sigpending (ptab s p)))"
    if "sig = fst (signal_dequeue (ptab s p))" "s1 = upd_proc p (\<lambda>_. snd (signal_dequeue (ptab s p))) s" "sig \<noteq> 0"
    for c tf sig and s1 :: "'z ipc_scheme" using that by simp
qed simp

declare notify_loop.simps [simp del]

definition signal_notify :: "nat \<Rightarrow> trapframe \<Rightarrow> 'z ipc_scheme \<Rightarrow> (notify_out \<times> 'z ipc_scheme) kres" where
  "signal_notify c tf s =
     (case myproc c s of
        None \<Rightarrow> Inr (NReturn tf, s)
      | Some p \<Rightarrow>
          if proc_pagetable (ptab s p) = 0 then Inr (NReturn tf, s)
          else if tf_cs tf AND 3 \<noteq> DPL_USER then Inr (NReturn tf, s)
          else if sighandling (ptab s p) then
            (if sigpending (ptab s p) AND SIGBIT (nat SIGKILL) \<noteq> 0
             then Inr (NExit SIGKILL, upd_proc p (\<lambda>x. x\<lparr>sigpending := sigpending x AND NOT (SIGBIT (nat SIGKILL))\<rparr>) s)
             else Inr (NReturn tf, s))
          else notify_loop c p tf s)"

section \<open>System calls\<close>

definition sys_kill :: "trapframe \<Rightarrow> 'z sched_scheme \<Rightarrow> (int \<times> 'z sched_scheme) kres" where
  "sys_kill tf s =
     (case argint tf 0 of
        Inl e \<Rightarrow> Inl e
      | Inr n \<Rightarrow> (case argint tf 1 of Inl e \<Rightarrow> Inl e | Inr sig \<Rightarrow> signal_send n sig s))"

definition sys_signal :: "nat \<Rightarrow> trapframe \<Rightarrow> 'z sched_scheme \<Rightarrow> (int \<times> 'z sched_scheme) kres" where
  "sys_signal c tf s =
     (case myproc c s of
        None \<Rightarrow> Inr (- 1, s)
      | Some p \<Rightarrow>
          (case argint tf 0 of
             Inl e \<Rightarrow> Inl e
           | Inr sig \<Rightarrow>
               (case argaddr tf 1 of
                  Inl e \<Rightarrow> Inl e
                | Inr handler \<Rightarrow>
                    if \<not> valid_sig sig \<or> sig = SIGKILL \<or> sig = SIGSTOP then Inr (- 1, s)
                    else if handler \<noteq> SIG_DFL \<and> handler \<noteq> SIG_IGN \<and> (handler < USERLOAD \<or> USEREND \<le> handler) then Inr (- 1, s)
                    else Inr (sint (sighand (ptab s p) (nat sig)),
                           upd_proc p (\<lambda>x. x\<lparr>sighand := (sighand x)(nat sig := handler)\<rparr>) s))))"

definition sys_sigreturn :: "nat \<Rightarrow> trapframe \<Rightarrow> 'z sched_scheme \<Rightarrow> (int \<times> trapframe \<times> 'z sched_scheme) kres" where
  "sys_sigreturn c tf s =
     (case myproc c s of
        None \<Rightarrow> Inr (- 1, tf, s)
      | Some p \<Rightarrow>
          (case sigold (ptab s p) of
             None \<Rightarrow> Inr (- 1, tf, s)
           | Some (_, old) \<Rightarrow>
               if \<not> sighandling (ptab s p) then Inr (- 1, tf, s)
               else (case signal_free_old p (upd_proc p (\<lambda>x. x\<lparr>sighandling := False\<rparr>) s) of
                       Inl e \<Rightarrow> Inl e
                     | Inr s1 \<Rightarrow> Inr (sint (tf_eax old), old, s1))))"


section \<open>What the delivery loop does\<close>

lemma SIGBIT_bit: "1 \<le> sig \<Longrightarrow> (w AND SIGBIT sig \<noteq> 0) = bit w (sig - 1)"
  by (simp add: SIGBIT_def push_bit_eq_mult and_exp_eq_0_iff_not_bit)

text \<open>A pending signal that is neither masked nor ignored, by its handler or by default.\<close>

definition deliverable :: "proc \<Rightarrow> nat \<Rightarrow> bool" where
  "deliverable x k \<longleftrightarrow> (sigpending x AND NOT (sigmasked x)) AND SIGBIT k \<noteq> 0
     \<and> (int k = SIGKILL \<or> sighand x k \<noteq> SIG_IGN \<and> (sighand x k = SIG_DFL \<longrightarrow> sig_fatal_default (int k)))"

text \<open>The unmasked signals up to \<open>n\<close> are no longer pending.\<close>

definition clear_upto :: "nat \<Rightarrow> nat \<Rightarrow> 'z sched_scheme \<Rightarrow> 'z sched_scheme" where
  "clear_upto p n s = upd_proc p (\<lambda>x. x\<lparr>sigpending := sigpending x AND NOT (NOT (sigmasked x) AND mask n)\<rparr>) s"

lemma upd_proc_cong: "f (ptab s p) = g (ptab s p) \<Longrightarrow> upd_proc p f s = upd_proc p g s"
  by (simp add: upd_proc_def)

lemma upd_proc_self: "upd_proc p (\<lambda>_. ptab s p) s = s"
  by (simp add: upd_proc_def)

lemma upd_proc_twice: "upd_proc p f (upd_proc p g s) = upd_proc p (\<lambda>x. f (g x)) s"
  by (simp add: upd_proc_def)

lemma clear_upto_same:
  assumes "\<And>k. k < n \<Longrightarrow> k < 32 \<Longrightarrow> bit (sigpending (ptab s p)) k \<Longrightarrow> bit (sigmasked (ptab s p)) k"
  shows "clear_upto p n s = s"
proof -
  have "sigpending (ptab s p) AND NOT (NOT (sigmasked (ptab s p)) AND mask n) = sigpending (ptab s p)"
    by (rule bit_eqI) (use assms in \<open>auto simp: bit_simps\<close>)
  then have "clear_upto p n s = upd_proc p (\<lambda>_. ptab s p) s"
    unfolding clear_upto_def by (intro upd_proc_cong) simp
  then show ?thesis by (simp add: upd_proc_self)
qed

lemma clear_upto_dequeue:
  assumes "1 \<le> sig" "sig \<le> n"
    and "\<And>k. k < sig - 1 \<Longrightarrow> bit (sigpending x) k \<Longrightarrow> bit (sigmasked x) k" and "\<not> bit (sigmasked x) (sig - 1)"
  shows "(sigpending x AND NOT (SIGBIT sig)) AND NOT (NOT (sigmasked x) AND mask n)
    = sigpending x AND NOT (NOT (sigmasked x) AND mask n)"
  by (rule bit_eqI) (use assms in \<open>auto simp: bit_simps SIGBIT_def\<close>)

lemma clear_one:
  assumes "1 \<le> sig" "sig < NSIG"
    and "\<And>k. k < sig - 1 \<Longrightarrow> bit (sigpending x) k \<Longrightarrow> bit (sigmasked x) k" and "\<not> bit (sigmasked x) (sig - 1)"
  shows "sigpending x AND NOT (SIGBIT sig) = sigpending x AND NOT (NOT (sigmasked x) AND mask sig)"
proof (rule bit_eqI)
  fix k assume "possible_bit TYPE(u32) k"
  then have k: "k < 32" by simp
  consider "k < sig - 1" | "k = sig - 1" | "sig \<le> k" using assms(1) by linarith
  then show "bit (sigpending x AND NOT (SIGBIT sig)) k = bit (sigpending x AND NOT (NOT (sigmasked x) AND mask sig)) k"
    by cases (use assms k in \<open>auto simp: bit_simps SIGBIT_def\<close>)
qed

lemma signal_dequeue_zero:
  assumes "fst (signal_dequeue x) = 0"
  shows "snd (signal_dequeue x) = x" and "1 \<le> k \<Longrightarrow> k < NSIG \<Longrightarrow> (sigpending x AND NOT (sigmasked x)) AND SIGBIT k = 0"
proof -
  let ?b = "sigpending x AND NOT (sigmasked x)"
  have f: "find (\<lambda>sig. ?b AND SIGBIT sig \<noteq> 0) [1..<NSIG] = None" if "?b \<noteq> 0"
  proof (cases "find (\<lambda>sig. ?b AND SIGBIT sig \<noteq> 0) [1..<NSIG]")
    case (Some k)
    then have "1 \<le> k" by (simp add: find_upt_Some)
    with Some assms that show ?thesis by (simp add: signal_dequeue_def)
  qed
  show "snd (signal_dequeue x) = x" using f by (simp add: signal_dequeue_def Let_def)
  show "?b AND SIGBIT k = 0" if "1 \<le> k" "k < NSIG"
  proof (cases "?b = 0")
    case False
    then show ?thesis using f that by (simp add: find_upt_None)
  qed (simp only: and_zero_eq zero_and_eq)
qed

text \<open>What happens with the signal chosen.\<close>

definition deliver :: "nat \<Rightarrow> nat \<Rightarrow> trapframe \<Rightarrow> nat \<Rightarrow> 'z ipc_scheme \<Rightarrow> (notify_out \<times> 'z ipc_scheme) kres" where
  "deliver c p tf sig s =
     (if int sig = SIGKILL \<or> sighand (ptab s p) sig = SIG_DFL then Inr (NExit (int sig), s)
      else case signal_setup_frame c p tf sig (sighand (ptab s p) sig) s of
             Inl e \<Rightarrow> Inl e
           | Inr (r, tf', s') \<Rightarrow> Inr (if r < 0 then NExit (int sig) else NReturn tf', s'))"

lemma find_cong': "(\<And>x. x \<in> set xs \<Longrightarrow> P x = Q x) \<Longrightarrow> find P xs = find Q xs"
  by (induction xs) auto

lemma notify_loop_spec:
  "notify_loop c p tf s =
     (case find (deliverable (ptab s p)) [1..<NSIG] of
        None \<Rightarrow> Inr (NReturn tf, clear_upto p (NSIG - 1) s)
      | Some sig \<Rightarrow> deliver c p tf sig (clear_upto p sig s))"
proof (induction c p tf s rule: notify_loop.induct)
  case (1 c p tf s)
  let ?x = "ptab s p"
  define sig where "sig = fst (signal_dequeue ?x)"
  define s1 where "s1 = upd_proc p (\<lambda>_. snd (signal_dequeue ?x)) s"
  show ?case
  proof (cases "sig = 0")
    case True
    note z = signal_dequeue_zero [OF True [unfolded sig_def]]
    have n: "find (deliverable ?x) [1..<NSIG] = None" using z(2) by (auto simp: find_upt_None deliverable_def)
    have "clear_upto p (NSIG - 1) s = s"
    proof (rule clear_upto_same)
      fix k assume k: "k < NSIG - 1" "bit (sigpending ?x) k" "k < 32"
      have "(sigpending ?x AND NOT (sigmasked ?x)) AND SIGBIT (Suc k) = 0" using z(2) [of "Suc k"] k(1) by simp
      then have "\<not> bit (sigpending ?x AND NOT (sigmasked ?x)) k" using SIGBIT_bit [of "Suc k"] by auto
      with k show "bit (sigmasked ?x) k" by (auto simp: bit_simps)
    qed
    moreover have "s1 = s" using z(1) by (simp add: s1_def upd_proc_self)
    ultimately show ?thesis
      using True n by (subst notify_loop.simps) (simp add: Let_def sig_def [symmetric] s1_def [symmetric])
  next
    case False
    have "signal_dequeue ?x = (sig, snd (signal_dequeue ?x))" by (simp add: sig_def)
    note d = signal_dequeue_Some [OF this False]
    have lo: "bit (sigmasked ?x) k" if "k < sig - 1" "bit (sigpending ?x) k" for k
    proof -
      have "(sigpending ?x AND NOT (sigmasked ?x)) AND SIGBIT (Suc k) = 0" using d(4) that(1) by auto
      then have "\<not> bit (sigpending ?x AND NOT (sigmasked ?x)) k" using SIGBIT_bit [of "Suc k"] by auto
      moreover have "k < 32" using d(2) that(1) by (simp add: NSIG_def)
      ultimately show ?thesis using that(2) by (auto simp: bit_simps)
    qed
    have hi: "\<not> bit (sigmasked ?x) (sig - 1)"
      using d(3) SIGBIT_bit [OF d(1)] by (auto simp: bit_simps)
    have s1: "s1 = clear_upto p sig s"
      unfolding s1_def clear_upto_def using clear_one [OF d(1,2) lo hi] d(5) by (intro upd_proc_cong) simp
    have h1: "sighand (ptab s1 p) = sighand ?x" "sigmasked (ptab s1 p) = sigmasked ?x"
      "sigpending (ptab s1 p) = sigpending ?x AND NOT (SIGBIT sig)"
      unfolding s1_def d(5) by simp_all
    show ?thesis
    proof (cases "deliverable ?x sig")
      case True
      have f: "find (deliverable ?x) [1..<NSIG] = Some sig"
        using True d(1,2,4) by (auto simp: find_upt_Some deliverable_def)
      have "notify_loop c p tf s = deliver c p tf sig s1"
        using False True by (subst notify_loop.simps)
          (auto simp: Let_def sig_def [symmetric] s1_def [symmetric] deliver_def deliverable_def h1 split: sum.splits)
      then show ?thesis unfolding f by (simp add: s1)
    next
      case nd: False
      then have ig: "int sig \<noteq> SIGKILL" "sighand ?x sig = SIG_IGN \<or> sighand ?x sig = SIG_DFL \<and> \<not> sig_fatal_default (int sig)"
        using d(3) by (auto simp: deliverable_def)
      have l: "notify_loop c p tf s = notify_loop c p tf s1"
        using False ig by (subst notify_loop.simps)
          (auto simp: Let_def sig_def [symmetric] s1_def [symmetric] h1 SIG_IGN_def SIG_DFL_def)
      have IH: "notify_loop c p tf s1 =
        (case find (deliverable (ptab s1 p)) [1..<NSIG] of
           None \<Rightarrow> Inr (NReturn tf, clear_upto p (NSIG - 1) s1)
         | Some sig \<Rightarrow> deliver c p tf sig (clear_upto p sig s1))"
      proof (cases "sighand ?x sig = SIG_IGN")
        case True
        then show ?thesis using 1(1) [OF sig_def s1_def refl False ig(1)] by (simp add: h1)
      next
        case F: False
        then show ?thesis using 1(2) [OF sig_def s1_def refl False ig(1)] ig(2) by (simp add: h1)
      qed
      have fd: "find (deliverable (ptab s1 p)) [1..<NSIG] = find (deliverable ?x) [1..<NSIG]"
      proof (rule find_cong')
        fix k assume k: "k \<in> set [1..<NSIG]"
        show "deliverable (ptab s1 p) k = deliverable ?x k"
        proof (cases "k = sig")
          case True
          have "((sigpending ?x AND NOT (SIGBIT sig)) AND NOT (sigmasked ?x)) AND SIGBIT sig = 0"
            by (rule bit_eqI) (auto simp: bit_simps)
          with True nd show ?thesis by (simp add: deliverable_def h1)
        next
          case kn: False
          have "bit ((sigpending ?x AND NOT (SIGBIT sig)) AND NOT (sigmasked ?x)) (k - 1) = bit (sigpending ?x AND NOT (sigmasked ?x)) (k - 1)"
            using kn k d(1) by (auto simp: bit_simps SIGBIT_def)
          then show ?thesis using SIGBIT_bit [of k] k by (simp add: deliverable_def h1)
        qed
      qed
      have cl: "clear_upto p n s1 = clear_upto p n s" if "sig \<le> n" for n
        unfolding clear_upto_def s1_def upd_proc_twice
        using clear_upto_dequeue [OF d(1) that lo hi] by (intro upd_proc_cong) (simp add: d(5))
      have ge: "sig \<le> k" if "find (deliverable ?x) [1..<NSIG] = Some k" for k
      proof (rule ccontr)
        assume "\<not> sig \<le> k"
        with that d(4) show False by (auto simp: find_upt_Some deliverable_def)
      qed
      show ?thesis
        unfolding l IH fd using cl ge d(2) by (auto split: option.splits)
    qed
  qed
qed


section \<open>The frame of a handler\<close>

lemma sig_push_frame: "sig_push c pd sp sig s = Inr (r, s') \<Longrightarrow> mem_only s s'"
  unfolding sig_push_def Let_def
  by (auto split: sum.splits prod.splits if_splits dest!: copyout_frame intro: mem_only_trans)

lemma set_heap_simps [simp]:
  "ptab (set_heap h s) = ptab s" "cpus (set_heap h s) = cpus s" "kslab (set_heap h s) = fst h" "kmem (set_heap h s) = snd h"
  "heap_of (set_heap h s) = h" "fst (heap_of s) = kslab s" "snd (heap_of s) = kmem s"
  by (simp_all add: set_heap_def heap_of_def)

lemma signal_free_old_frame:
  assumes "signal_free_old p s = Inr s'"
  shows "ptab s' p = (ptab s p)\<lparr>sigold := None\<rparr>" and "cpus s' = cpus s"
  using assms by (auto simp: signal_free_old_def split: option.splits sum.splits)

text \<open>A frame that was set up: what it leaves in the process.\<close>

lemma setup_frame_ok:
  assumes "signal_setup_frame c p tf sig handler s = Inr (r, tf', s')" and "\<not> r < 0"
  obtains old h h1 s1 s2 sp where "kmalloc sizeof_trapframe (heap_of s) = Inr (Some old, h)" "mem_only (set_heap h s) s1"
    "signal_free_old p s1 = Inr s2" "tf' = tf\<lparr>tf_esp := sp, tf_eip := handler\<rparr>"
    "s' = upd_proc p (\<lambda>x. x\<lparr>sigold := Some (old, tf), sighandling := True\<rparr>) s2"
proof -
  define k where "k = kmalloc sizeof_trapframe (heap_of s)"
  obtain old h where k: "k = Inr (Some old, h)"
    using assms unfolding signal_setup_frame_def Let_def k_def [symmetric]
    by (cases k) (auto split: if_splits option.splits)
  obtain sp s1 where q: "sig_push c (proc_pagetable (ptab s p)) (tf_esp tf) sig (set_heap h s) = Inr (Some sp, s1)"
    using assms unfolding signal_setup_frame_def Let_def k_def [symmetric] k
    by (cases "sig_push c (proc_pagetable (ptab s p)) (tf_esp tf) sig (set_heap h s)") (auto split: if_splits option.splits sum.splits)
  obtain s2 where f: "signal_free_old p s1 = Inr s2" and "tf' = tf\<lparr>tf_esp := sp, tf_eip := handler\<rparr>"
    "s' = upd_proc p (\<lambda>x. x\<lparr>sigold := Some (old, tf), sighandling := True\<rparr>) s2"
    using assms unfolding signal_setup_frame_def Let_def k_def [symmetric] k
    by (auto simp: q split: if_splits sum.splits)
  with that k q show ?thesis unfolding k_def by (blast dest: sig_push_frame)
qed


section \<open>Properties\<close>

text \<open>A machine with one user process: its stack page is mapped and the heap has a free block.\<close>

definition demo_tf :: trapframe where
  "demo_tf = \<lparr>tf_edi = 0, tf_esi = 0, tf_ebp = 0, tf_oesp = 0, tf_ebx = 5, tf_edx = 0, tf_ecx = 9, tf_eax = 7, tf_ds = 0x23,
     tf_err = 0, tf_eip = 0x400100, tf_cs = 0x1b, tf_eflags = 0x202, tf_esp = 0xBFFFFF00, tf_ss = 0x23\<rparr>"

definition demo_user :: proc where
  "demo_user = zero_proc\<lparr>state := SLEEPING, chan := Some (ChProc 1), pid := 5, mm := Some demo_mm, sighand := (\<lambda>_. 0)(2 := 0x500000)\<rparr>"

definition demo_sig :: ipc where
  "demo_sig = \<lparr>ptab = (\<lambda>i. if i = 1 then demo_user else zero_proc), rq = \<lparr>nxt = id, prv = id\<rparr>, nextpid = 6, initproc = None,
     kthreadd_task = None, cpus = (\<lambda>_. \<lparr>c_proc = Some 1, c_last_sched = None, c_need_resched = False, c_noff = 0, c_user_pgdir = 0\<rparr>),
     ticks = 0, fg_pid = 5,
     kmem = demo_pmm\<lparr>ram := store32 0xC0200BFC 0x00201007 (store32 0xC0201FFC 0x00202007 (\<lambda>_. 0))\<rparr>,
     kslab = (fst demo_heap)\<lparr>klinks := list_add (Blk 0xC0300000) (CacheHead 2) (klinks (fst demo_heap))\<rparr>,
     shm_table = (\<lambda>_. zero_seg)\<rparr>"

text \<open>C24: on the way back to user mode, outside a handler, the pending signals are examined in the order of their
  numbers: those that are masked stay pending, those that are ignored (by their handler, or by default
  for SIGCHLD and SIGCONT) are dropped, and the first other one ends the process or enters its handler. The
  loop ends for every set of pending signals.\<close>

theorem signal_notify_lowest:
  assumes "myproc c s = Some p" and "proc_pagetable (ptab s p) \<noteq> 0" and "tf_cs tf AND 3 = DPL_USER"
    and "\<not> sighandling (ptab s p)"
  shows "signal_notify c tf s =
     (case find (deliverable (ptab s p)) [1..<NSIG] of
        None \<Rightarrow> Inr (NReturn tf, clear_upto p (NSIG - 1) s)
      | Some sig \<Rightarrow> deliver c p tf sig (clear_upto p sig s))"
  using assms by (simp add: signal_notify_def notify_loop_spec)

theorem signal_notify_lowest_witness:
  "\<exists>s'. signal_notify 0 demo_tf (upd_proc 1 (\<lambda>x. x\<lparr>sigpending := 0x10400\<rparr>) demo_sig) = Inr (NExit 11, s')"
proof -
  let ?s = "upd_proc 1 (\<lambda>x. x\<lparr>sigpending := 0x10400\<rparr>) demo_sig"
  have "find (deliverable (ptab ?s 1)) [1..<NSIG] = Some 11"
    by (simp add: NSIG_def upt_rec deliverable_def demo_sig_def demo_user_def zero_proc_def SIGBIT_def SIGKILL_def sig_fatal_default_def
        SIGCHLD_def SIGCONT_def SIG_IGN_def SIG_DFL_def)
  with signal_notify_lowest [of 0 ?s 1 demo_tf] show ?thesis
    by (simp add: demo_sig_def demo_user_def demo_mm_def demo_tf_def myproc_def proc_pagetable_def DPL_USER_def zero_proc_def deliver_def
        clear_upto_def SIG_DFL_def)
qed

lemma signal_send_ok:
  assumes "signal_send n sig s = Inr (r, s')" and "r = 0"
  shows "\<exists>p s2. p < NPROC \<and> pid (ptab s p) = n \<and> proc_pagetable (ptab s p) \<noteq> 0 \<and> valid_sig sig
    \<and> s2 = upd_proc p (\<lambda>x. x\<lparr>sigpending := sigpending x OR SIGBIT (nat sig)\<rparr>)
         (if sig = SIGKILL then upd_proc p (\<lambda>x. x\<lparr>sighand := (sighand x)(nat sig := SIG_DFL),
            sigmasked := sigmasked x AND NOT (SIGBIT (nat sig))\<rparr>) s else s)
    \<and> signal_wake_locked p s2 = Inr s'"
  using assms
  by (auto simp: signal_send_def Let_def find_upt_Some split: if_splits option.splits sum.splits)

lemma wake_one_sig:
  assumes "wake_one p s = Inr s'"
  shows "ptab s' q = (if q = p then (ptab s p)\<lparr>state := RUNNABLE, chan := None, wakeup_tick := 0\<rparr> else ptab s q)"
  using assms by (auto simp: wake_one_def task_queue_enqueue_locked_def split: if_splits)

lemma clear_upto_simps:
  "ptab (clear_upto p n s) p = (ptab s p)\<lparr>sigpending := sigpending (ptab s p) AND NOT (NOT (sigmasked (ptab s p)) AND mask n)\<rparr>"
  "cpus (clear_upto p n s) = cpus s"
  by (simp_all add: clear_upto_def)

text \<open>When the delivery enters a handler, later signals stay pending.\<close>

lemma notify_enters_handler:
  assumes p: "c_proc (cpus s c) = Some p" and pt: "proc_pagetable (ptab s p) \<noteq> 0" and cs: "tf_cs tf AND 3 = DPL_USER"
    and k: "deliverable (ptab s p) 9" and r: "signal_notify c tf s = Inr (NReturn tf', s')"
  shows "cpus s' = cpus s" and "sighandling (ptab s' p)" and "mm (ptab s' p) = mm (ptab s p)" and "bit (sigpending (ptab s' p)) 8"
proof -
  have b: "bit (sigpending (ptab s p)) 8" using k SIGBIT_bit [of 9] by (auto simp: deliverable_def bit_simps)
  then have nk: "sigpending (ptab s p) AND SIGBIT 9 \<noteq> 0" using SIGBIT_bit [of 9 "sigpending (ptab s p)"] by simp
  have nh: "\<not> sighandling (ptab s p)"
    using r p pt cs nk by (auto simp: signal_notify_def myproc_def SIGKILL_def split: if_splits)
  have spec: "signal_notify c tf s =
     (case find (deliverable (ptab s p)) [1..<NSIG] of
        None \<Rightarrow> Inr (NReturn tf, clear_upto p (NSIG - 1) s)
      | Some sig \<Rightarrow> deliver c p tf sig (clear_upto p sig s))"
    using p pt cs nh by (simp add: signal_notify_def notify_loop_spec myproc_def)
  obtain sig where sig: "find (deliverable (ptab s p)) [1..<NSIG] = Some sig"
    using k by (cases "find (deliverable (ptab s p)) [1..<NSIG]") (auto simp: find_upt_None NSIG_def)
  have le: "sig \<le> 9"
  proof (rule ccontr)
    assume "\<not> sig \<le> 9"
    with sig k show False by (simp add: find_upt_Some)
  qed
  have d: "deliver c p tf sig (clear_upto p sig s) = Inr (NReturn tf', s')" using spec r unfolding sig by simp
  then have s9: "sig \<le> 8" using le by (auto simp: deliver_def SIGKILL_def le_eq_less_or_eq split: if_splits)
  from d obtain r' tf'' where f: "signal_setup_frame c p tf sig (sighand (ptab (clear_upto p sig s) p) sig) (clear_upto p sig s) = Inr (r', tf'', s')" "\<not> r' < 0"
    by (auto simp: deliver_def split: if_splits sum.splits prod.splits)
  from setup_frame_ok [OF f] obtain h s1 s2 old where m: "mem_only (set_heap h (clear_upto p sig s)) s1"
    and fo: "signal_free_old p s1 = Inr s2" and s': "s' = upd_proc p (\<lambda>x. x\<lparr>sigold := Some (old, tf), sighandling := True\<rparr>) s2"
    by metis
  note fr = mem_onlyD(1,2) [OF m] signal_free_old_frame [OF fo]
  show "cpus s' = cpus s" "sighandling (ptab s' p)" "mm (ptab s' p) = mm (ptab s p)"
    by (simp_all add: s' fr clear_upto_simps)
  show "bit (sigpending (ptab s' p)) 8"
    using b s9 by (simp add: s' fr clear_upto_simps bit_simps)
qed

text \<open>C25: SIGKILL cannot be blocked. After it was sent the process is no longer asleep, its action is the
  default one and the signal is pending and not masked; when a delivery then returns to user mode at all, to the
  handler of a signal with a lower number, the delivery after it ends the process with SIGKILL.\<close>

theorem sigkill_not_blockable:
  assumes "signal_send n SIGKILL s = Inr (0, s1)"
  shows "\<exists>p < NPROC. pid (ptab s p) = n \<and> state (ptab s1 p) \<noteq> SLEEPING \<and> deliverable (ptab s1 p) 9
    \<and> (\<forall>c tf s2 tf' s3. c_proc (cpus s2 c) = Some p \<longrightarrow> ptab s2 p = ptab s1 p \<longrightarrow> tf_cs tf AND 3 = DPL_USER \<longrightarrow>
         signal_notify c tf s2 = Inr (NReturn tf', s3) \<longrightarrow>
         (\<forall>tf'' . tf_cs tf'' AND 3 = DPL_USER \<longrightarrow> (\<exists>s4. signal_notify c tf'' s3 = Inr (NExit SIGKILL, s4))))"
proof -
  obtain p s2 where p: "p < NPROC" "pid (ptab s p) = n" "proc_pagetable (ptab s p) \<noteq> 0"
    and s2: "s2 = upd_proc p (\<lambda>x. x\<lparr>sigpending := sigpending x OR SIGBIT 9\<rparr>)
      (upd_proc p (\<lambda>x. x\<lparr>sighand := (sighand x)(9 := SIG_DFL), sigmasked := sigmasked x AND NOT (SIGBIT 9)\<rparr>) s)"
    and w: "signal_wake_locked p s2 = Inr s1"
    using signal_send_ok [OF assms refl] by (auto simp: SIGKILL_def)
  have x: "sigpending (ptab s1 p) = sigpending (ptab s p) OR SIGBIT 9" "sigmasked (ptab s1 p) = sigmasked (ptab s p) AND NOT (SIGBIT 9)"
    "mm (ptab s1 p) = mm (ptab s p)" "state (ptab s1 p) \<noteq> SLEEPING"
    using w by (auto simp: signal_wake_locked_def s2 wake_one_sig split: if_splits)
  have "bit (sigpending (ptab s1 p) AND NOT (sigmasked (ptab s1 p))) 8" by (simp add: x bit_simps SIGBIT_def)
  then have d: "deliverable (ptab s1 p) 9" using SIGBIT_bit [of 9] by (auto simp: deliverable_def SIGKILL_def)
  have "\<exists>s4. signal_notify c tf'' s3 = Inr (NExit SIGKILL, s4)"
    if a: "c_proc (cpus s2' c) = Some p" "ptab s2' p = ptab s1 p" "tf_cs tf AND 3 = DPL_USER"
      "signal_notify c tf s2' = Inr (NReturn tf', s3)" "tf_cs tf'' AND 3 = DPL_USER" for c tf s2' tf' s3 tf''
  proof -
    have pt: "proc_pagetable (ptab s2' p) \<noteq> 0" using p(3) x(3) by (simp add: a(2) proc_pagetable_def)
    have d': "deliverable (ptab s2' p) 9" using d by (simp add: a(2))
    note e = notify_enters_handler [OF a(1) pt a(3) d' a(4)]
    have "sigpending (ptab s3 p) AND SIGBIT 9 \<noteq> 0" using e(4) SIGBIT_bit [of 9 "sigpending (ptab s3 p)"] by simp
    moreover have "proc_pagetable (ptab s3 p) \<noteq> 0" using pt e(3) by (simp add: proc_pagetable_def)
    ultimately show ?thesis using a(1,5) e(1,2) by (simp add: signal_notify_def myproc_def SIGKILL_def)
  qed
  with p x(4) d show ?thesis by blast
qed

theorem sigkill_not_blockable_witness:
  "\<exists>s1. signal_send 5 SIGKILL demo_sig = Inr (0, s1) \<and> (\<exists>p < NPROC. pid (ptab demo_sig p) = 5 \<and> deliverable (ptab s1 p) 9)"
proof -
  have f: "find (\<lambda>i. pid (ptab demo_sig i) = 5 \<and> state (ptab demo_sig i) \<noteq> UNUSED \<and> state (ptab demo_sig i) \<noteq> ZOMBIE) [0..<NPROC] = Some 1"
    by (simp add: find_upt_Some NPROC_def demo_sig_def demo_user_def zero_proc_def)
  have "\<exists>s1. signal_send 5 SIGKILL demo_sig = Inr (0, s1)"
    unfolding signal_send_def f
    by (simp add: valid_sig_def SIGKILL_def NSIG_def demo_sig_def demo_user_def demo_mm_def proc_pagetable_def signal_wake_locked_def
        zero_proc_def wake_one_def task_queue_enqueue_locked_def on_list_def upd_proc_def NPROC_def)
  then obtain s1 where s: "signal_send 5 SIGKILL demo_sig = Inr (0, s1)" by blast
  with sigkill_not_blockable [OF s] show ?thesis by blast
qed

text \<open>C26: returning from a handler undoes the entry: the trap frame is, with all registers, the one the signal interrupted,
  the process is no longer in a handler and the saved frame is given back to the heap.\<close>

theorem sigreturn_roundtrip:
  assumes "signal_setup_frame c p tf sig handler s = Inr (0, tf', s')" and "myproc c s = Some p" and "sigold (ptab s p) = None"
  shows "\<exists>s''. sys_sigreturn c tf'' s' = Inr (sint (tf_eax tf), tf, s'') \<and> \<not> sighandling (ptab s'' p) \<and> sigold (ptab s'' p) = None"
proof -
  obtain old h s1 s2 where k: "kmalloc sizeof_trapframe (heap_of s) = Inr (Some old, h)" "mem_only (set_heap h s) s1"
    "signal_free_old p s1 = Inr s2" and s': "s' = upd_proc p (\<lambda>x. x\<lparr>sigold := Some (old, tf), sighandling := True\<rparr>) s2"
    using setup_frame_ok [OF assms(1)] by (metis less_irrefl)
  have s2: "s2 = s1" using k(3) assms(3) mem_onlyD(1) [OF k(2)] by (simp add: signal_free_old_def)
  have "kslab s' = fst h" "cpus s' = cpus s" using mem_onlyD(2,3) [OF k(2)] by (simp_all add: s' s2)
  have "cache_index (sizeof_trapframe + sizeof_khdr) = Some 2"
    by (simp add: cache_index_def upt_rec sizeof_trapframe_def sizeof_khdr_def cache_bsize_def NCACHE_def)
  then have "\<exists>st''. kfree old (fst h, kmem s') = Inr st''"
    by (rule kmalloc_kfree_small [OF k(1)]) (simp add: sizeof_trapframe_def sizeof_khdr_def cache_bsize_def NCACHE_def)
  then obtain st'' where kf: "kfree old (kslab s', kmem s') = Inr st''" using \<open>kslab s' = fst h\<close> by auto
  then show ?thesis
    using assms(2) \<open>cpus s' = cpus s\<close>
    by (simp add: sys_sigreturn_def myproc_def signal_free_old_def heap_of_def s')
qed


definition demo_mapped :: "ipc \<Rightarrow> bool" where
  "demo_mapped s \<longleftrightarrow> rd32 0xC0200BFC (kmem s) = 0x00201007 \<and> rd32 0xC0201FFC (kmem s) = 0x00202007"

lemma demo_copyout:
  assumes "demo_mapped s" "va \<in> {0xBFFFFEF8, 0xBFFFFEF4, 0xBFFFFEF0}" "bs \<noteq> []" "length bs \<le> 8"
  shows "\<exists>s'. copyout 0 0xC0200000 va bs s = Inr (0, s') \<and> demo_mapped s'"
proof -
  have va: "PGROUNDDOWN va = 0xBFFFF000" "unat va mod 4096 \<le> 0xEF8" "0xEF0 \<le> va - 0xBFFFF000" "va - 0xBFFFF000 \<le> 0xEF8"
    using assms(2) by (auto simp: PGROUNDDOWN_def PGSIZE_def)
  have w: "walk 0xC0200000 0xBFFFF000 False False (kmem s) = (Some 0xC0201FFC, kmem s)"
    using assms(1) by (simp add: walk_def demo_mapped_def PDX_def PTX_def PTE_P_def pde_pt_kva_def PTE_ADDR_def P2V_def KERNBASE_def)
  have a: "walkaddr 0xC0200000 0xBFFFF000 (kmem s) = 0xC0202000"
    using assms(1) by (simp add: walkaddr_def w demo_mapped_def PTE_P_def PTE_U_def PTE_ADDR_def P2V_def KERNBASE_def PGSIZE_def)
  have c: "copyout 0 0xC0200000 va bs s = Inr (0, s\<lparr>kmem := (kmem s)\<lparr>ram := put_bytes (0xC0202000 + (va - 0xBFFFF000)) bs (ram (kmem s))\<rparr>\<rparr>)"
    using copyout_page [where pd = "0xC0200000" and va = va and s = s and pte = "0xC0201FFC" and pa = "0xC0202000" and bs = bs and c = 0]
      assms va a by (simp add: w demo_mapped_def PTE_P_def PTE_COW_def)
  have out: "put_bytes (0xC0202000 + (va - 0xBFFFF000)) bs m x = m x"
    if "x \<in> word_at 0xC0200BFC \<union> word_at 0xC0201FFC" for m x
  proof -
    have "length bs \<le> unat (x - (0xC0202000 + (va - 0xBFFFF000)))"
      using that assms(2,4) by (auto simp: word_at_def)
    then show ?thesis using assms(4) by (simp add: put_bytes_apply)
  qed
  define m' where "m' = put_bytes (0xC0202000 + (va - 0xBFFFF000)) bs (ram (kmem s))"
  have "load32 m' 0xC0200BFC = load32 (ram (kmem s)) 0xC0200BFC" "load32 m' 0xC0201FFC = load32 (ram (kmem s)) 0xC0201FFC"
    by (rule load32_cong, simp only: m'_def, rule out, simp)+
  then show ?thesis
    unfolding c m'_def [symmetric] using assms(1) by (simp add: demo_mapped_def rd32_def)
qed

theorem sigreturn_roundtrip_witness:
  "\<exists>tf' s' s''. signal_setup_frame 0 1 demo_tf 2 0x500000 demo_sig = Inr (0, tf', s') \<and> tf_eip tf' = 0x500000
     \<and> sys_sigreturn 0 tf' s' = Inr (7, demo_tf, s'')"
proof -
  have km: "\<exists>h. kmalloc sizeof_trapframe (heap_of demo_sig) = Inr (Some 0xC0300010, h) \<and> snd h = kmem demo_sig"
    by (simp add: kmalloc_def cache_index_def upt_rec cache_bsize_def NCACHE_def sizeof_trapframe_def sizeof_khdr_def heap_of_def demo_sig_def
        list_empty_def list_first_def list_add_def list_add_between_def link_defs demo_heap_def kmem_init_def)
  then obtain h where h: "kmalloc sizeof_trapframe (heap_of demo_sig) = Inr (Some 0xC0300010, h)" "snd h = kmem demo_sig" by blast
  have m0: "demo_mapped (set_heap h demo_sig)"
    using h(2) by (simp add: demo_mapped_def rd32_def demo_sig_def load32_store32_other word_at_def)
  obtain s1 where s1: "copyout 0 0xC0200000 0xBFFFFEF8 sig_tramp (set_heap h demo_sig) = Inr (0, s1)" "demo_mapped s1"
    using demo_copyout [OF m0, of "0xBFFFFEF8" sig_tramp] by (auto simp: sig_tramp_def)
  obtain s2 where s2: "copyout 0 0xC0200000 0xBFFFFEF4 (word_bytes_le 2) s1 = Inr (0, s2)" "demo_mapped s2"
    using demo_copyout [OF s1(2), of "0xBFFFFEF4" "word_bytes_le 2"] by (auto simp: word_bytes_le_def)
  obtain s3 where s3: "copyout 0 0xC0200000 0xBFFFFEF0 (word_bytes_le 0xBFFFFEF8) s2 = Inr (0, s3)" "demo_mapped s3"
    using demo_copyout [OF s2(2), of "0xBFFFFEF0" "word_bytes_le 0xBFFFFEF8"] by (auto simp: word_bytes_le_def)
  have q: "sig_push 0 0xC0200000 0xBFFFFF00 2 (set_heap h demo_sig) = Inr (Some 0xBFFFFEF0, s3)"
    using s1(1) s2(1) s3(1) by (simp add: sig_push_def Let_def)
  have pt: "ptab s3 1 = demo_user"
    using copyout_frame [OF s1(1)] copyout_frame [OF s2(1)] copyout_frame [OF s3(1)] by (simp add: mem_onlyD(1) demo_sig_def)
  have x: "ptab demo_sig 1 = demo_user" "proc_pagetable demo_user = 0xC0200000" "sigold demo_user = None"
    by (simp_all add: demo_sig_def demo_user_def proc_pagetable_def demo_mm_def zero_proc_def)
  have t: "tf_esp demo_tf = 0xBFFFFF00" "tf_cs demo_tf = 0x1b" by (simp_all add: demo_tf_def)
  have fo: "signal_free_old 1 s3 = Inr s3" by (simp add: signal_free_old_def pt x del: One_nat_def)
  define tf' where "tf' = demo_tf\<lparr>tf_esp := 0xBFFFFEF0, tf_eip := 0x500000\<rparr>"
  define s' where "s' = upd_proc 1 (\<lambda>x. x\<lparr>sigold := Some (0xC0300010, demo_tf), sighandling := True\<rparr>) s3"
  have f: "signal_setup_frame 0 1 demo_tf 2 0x500000 demo_sig = Inr (0, tf', s')"
    by (simp add: signal_setup_frame_def Let_def x [unfolded One_nat_def] t h(1) q fo [unfolded One_nat_def]
        tf'_def s'_def DPL_USER_def layout_simps)
  have "\<exists>s''. sys_sigreturn 0 tf' s' = Inr (sint (tf_eax demo_tf), demo_tf, s'') \<and> \<not> sighandling (ptab s'' 1) \<and> sigold (ptab s'' 1) = None"
    by (rule sigreturn_roundtrip [OF f]) (simp_all add: myproc_def demo_sig_def x demo_user_def zero_proc_def)
  moreover have "sint (tf_eax demo_tf) = 7" "tf_eip tf' = 0x500000" by (simp_all add: demo_tf_def tf'_def)
  ultimately show ?thesis using f by auto
qed

end
