(* ===== verification/Futex.thy ===== *)
theory Futex
  imports Signal
begin

text \<open>
  Futexes, src/arch/x86/kernel/ipc/futex.c.

  \<open>futex_lock\<close> is held from the look at the user's word until the process is asleep, so a wait is one
  atomic step up to \<open>sched\<close>; a wake is one step as well. The channel is the address of the word
  through the kernel's direct map.
\<close>

definition FUTEX_WAIT :: u32 where "FUTEX_WAIT = 0"
definition FUTEX_WAKE :: u32 where "FUTEX_WAKE = 1"
definition FUTEX_CMD_MASK :: u32 where "FUTEX_CMD_MASK = 0x7f"

definition le_word :: "u8 list \<Rightarrow> u32" where
  "le_word bs = ucast (bs ! 0) OR push_bit 8 (ucast (bs ! 1)) OR push_bit 16 (ucast (bs ! 2)) OR push_bit 24 (ucast (bs ! 3))"

definition futex_key :: "nat \<Rightarrow> nat \<Rightarrow> u32 \<Rightarrow> 'z ipc_scheme \<Rightarrow> (u32 option \<times> 'z ipc_scheme) kres" where
  "futex_key c p uaddr s =
     (let pd = proc_pagetable (ptab s p)
      in if pd = 0 then Inr (None, s)
      else if uaddr AND 3 \<noteq> 0 then Inr (None, s)
      else case copyin c pd uaddr 4 s of
             Inl e \<Rightarrow> Inl e
           | Inr (None, s1) \<Rightarrow> Inr (None, s1)
           | Inr (Some _, s1) \<Rightarrow> (let pa = walkaddr pd uaddr (kmem s1) in Inr (if pa = 0 then None else Some pa, s1)))"

definition futex_sleep :: "nat \<Rightarrow> u32 \<Rightarrow> 'z sched_scheme \<Rightarrow> 'z sched_scheme kres" where
  "futex_sleep p k s =
     (if k = 0 then Inl ''futex_sleep: null''
      else Inr (upd_proc p (\<lambda>x. x\<lparr>chan := Some (ChFutex k), wakeup_tick := 0, state := SLEEPING\<rparr>) s))"

datatype futex_out = FRet int | FSleeps

definition do_futex_wait :: "nat \<Rightarrow> nat \<Rightarrow> u32 \<Rightarrow> int \<Rightarrow> 'z ipc_scheme \<Rightarrow> (futex_out \<times> 'z ipc_scheme) kres" where
  "do_futex_wait c p uaddr val s =
     (case futex_key c p uaddr s of
        Inl e \<Rightarrow> Inl e
      | Inr (None, s1) \<Rightarrow> Inr (FRet (- 1), s1)
      | Inr (Some k, s1) \<Rightarrow>
          (case copyin c (proc_pagetable (ptab s1 p)) uaddr 4 s1 of
             Inl e \<Rightarrow> Inl e
           | Inr (None, s2) \<Rightarrow> Inr (FRet (- 1), s2)
           | Inr (Some bs, s2) \<Rightarrow>
               if sint (le_word bs) \<noteq> val then Inr (FRet 0, s2)
               else (case futex_sleep p k s2 of Inl e \<Rightarrow> Inl e | Inr s3 \<Rightarrow> Inr (FSleeps, s3))))"

text \<open>The loop of \<open>do_futex_wake\<close>; \<open>n\<close> is how many may still be woken.\<close>

fun futex_wake_loop :: "u32 \<Rightarrow> nat list \<Rightarrow> nat \<Rightarrow> nat \<Rightarrow> 'z sched_scheme \<Rightarrow> (nat \<times> 'z sched_scheme) kres" where
  "futex_wake_loop k [] n w s = Inr (w, s)"
| "futex_wake_loop k (i # is) n w s =
     (if n \<le> w then Inr (w, s)
      else if state (ptab s i) = SLEEPING \<and> chan (ptab s i) = Some (ChFutex k) then
        (case wake_one i s of Inl e \<Rightarrow> Inl e | Inr s1 \<Rightarrow> futex_wake_loop k is n (w + 1) s1)
      else futex_wake_loop k is n w s)"

definition do_futex_wake :: "nat \<Rightarrow> nat \<Rightarrow> u32 \<Rightarrow> int \<Rightarrow> 'z ipc_scheme \<Rightarrow> (int \<times> 'z ipc_scheme) kres" where
  "do_futex_wake c p uaddr nwake s =
     (if nwake \<le> 0 then Inr (0, s)
      else case futex_key c p uaddr s of
             Inl e \<Rightarrow> Inl e
           | Inr (None, s1) \<Rightarrow> Inr (- 1, s1)
           | Inr (Some k, s1) \<Rightarrow>
               (case futex_wake_loop k [0..<NPROC] (nat nwake) 0 s1 of
                  Inl e \<Rightarrow> Inl e | Inr (w, s2) \<Rightarrow> Inr (int w, s2)))"

definition sys_futex :: "nat \<Rightarrow> nat \<Rightarrow> trapframe \<Rightarrow> 'z ipc_scheme \<Rightarrow> (futex_out \<times> 'z ipc_scheme) kres" where
  "sys_futex c p tf s =
     (case argaddr tf 0 of Inl e \<Rightarrow> Inl e | Inr uaddr \<Rightarrow>
      (case argraw tf 1 of Inl e \<Rightarrow> Inl e | Inr opw \<Rightarrow>
       (case argint tf 2 of Inl e \<Rightarrow> Inl e | Inr val \<Rightarrow>
          let op = opw AND FUTEX_CMD_MASK
          in if op = FUTEX_WAIT then do_futex_wait c p uaddr val s
          else if op = FUTEX_WAKE then
            (case do_futex_wake c p uaddr val s of Inl e \<Rightarrow> Inl e | Inr (r, s') \<Rightarrow> Inr (FRet r, s'))
          else Inr (FRet (- 1), s))))"

section \<open>Waking\<close>

lemma futex_key_frame: "futex_key c p uaddr s = Inr (r, s') \<Longrightarrow> mem_only s s'"
  by (auto simp: futex_key_def Let_def split: if_splits sum.splits prod.splits option.splits dest: copyin_frame)

lemma mem_only_sched_inv: "mem_only s s' \<Longrightarrow> sched_inv s' q = sched_inv s q"
  by (rule sched_inv_cong) (simp_all add: runnables_def mem_onlyD)

abbreviation futex_waiters :: "u32 \<Rightarrow> nat list \<Rightarrow> 'z sched_scheme \<Rightarrow> nat list" where
  "futex_waiters k is s \<equiv> filter (\<lambda>i. state (ptab s i) = SLEEPING \<and> chan (ptab s i) = Some (ChFutex k)) is"

lemma futex_wake_loop_ok:
  assumes "sched_inv s q" and "distinct is" and "set is \<subseteq> {..<NPROC}" and "w \<le> n"
  shows "\<exists>s'. futex_wake_loop k is n w s = Inr (w + length (take (n - w) (futex_waiters k is s)), s')
    \<and> sched_inv s' (q @ take (n - w) (futex_waiters k is s))
    \<and> (\<forall>p. ptab s' p = (if p \<in> set (take (n - w) (futex_waiters k is s)) then woken (ptab s p) else ptab s p))"
  using assms
proof (induction "is" arbitrary: s q w)
  case (Cons i "is")
  show ?case
  proof (cases "n \<le> w \<or> \<not> (state (ptab s i) = SLEEPING \<and> chan (ptab s i) = Some (ChFutex k))")
    case True
    then show ?thesis using Cons.IH [OF Cons.prems(1)] Cons.prems by (cases "n \<le> w") auto
  next
    case False
    then have i: "i < NPROC" "state (ptab s i) \<noteq> RUNNABLE" and nw: "w + 1 \<le> n" using Cons.prems by auto
    obtain h where h: "wake_one i s = Inr (s\<lparr>ptab := (ptab s)(i := woken (ptab s i)), rq := h\<rparr>)"
      "sched_inv (s\<lparr>ptab := (ptab s)(i := woken (ptab s i)), rq := h\<rparr>) (q @ [i])"
      using wake_one_ok [OF Cons.prems(1) i] .
    define s1 where "s1 = s\<lparr>ptab := (ptab s)(i := woken (ptab s i)), rq := h\<rparr>"
    have w: "futex_waiters k is s1 = futex_waiters k is s"
      using Cons.prems(2) by (intro filter_cong) (auto simp: s1_def)
    have ww: "futex_waiters k (i # is) s = i # futex_waiters k is s" using False by simp
    have tk: "take (n - w) (futex_waiters k (i # is) s) = i # take (n - (w + 1)) (futex_waiters k is s)"
      unfolding ww using nw by (simp add: take_Cons')
    from Cons.IH [OF h(2) [folded s1_def] _ _ nw] Cons.prems obtain s' where
      s': "futex_wake_loop k is n (w + 1) s1 = Inr (w + 1 + length (take (n - (w + 1)) (futex_waiters k is s)), s')"
      "sched_inv s' ((q @ [i]) @ take (n - (w + 1)) (futex_waiters k is s))"
      "\<forall>p. ptab s' p = (if p \<in> set (take (n - (w + 1)) (futex_waiters k is s)) then woken (ptab s1 p) else ptab s1 p)"
      unfolding w by auto
    have ni: "i \<notin> set (take (n - (w + 1)) (futex_waiters k is s))"
      using Cons.prems(2) by (auto dest: in_set_takeD)
    have "futex_wake_loop k (i # is) n w s = futex_wake_loop k is n (w + 1) s1"
      using False h(1) by (simp add: s1_def)
    moreover have "\<forall>p. ptab s' p = (if p \<in> set (take (n - w) (futex_waiters k (i # is) s)) then woken (ptab s p) else ptab s p)"
      unfolding tk using s'(3) ni by (auto simp: s1_def)
    ultimately show ?thesis using s'(1,2) unfolding tk by (intro exI [of _ s']) simp
  qed
qed auto

section \<open>Properties\<close>

text \<open>C27: a wake on a futex wakes exactly as many waiters as it may: the first \<open>nwake\<close> processes of the table that wait on
  the same word of physical memory, or all of them if there are fewer, and returns their number; they are
  appended to the run queue in that order and no other process is touched.\<close>

theorem futex_wake_exact:
  assumes "sched_inv s q" and "futex_key c p uaddr s = Inr (Some k, s1)" and "0 < nwake"
  defines "ws \<equiv> take (nat nwake) (filter (\<lambda>i. state (ptab s i) = SLEEPING \<and> chan (ptab s i) = Some (ChFutex k)) [0..<NPROC])"
  shows "\<exists>s'. do_futex_wake c p uaddr nwake s = Inr (int (length ws), s') \<and> sched_inv s' (q @ ws)
    \<and> (\<forall>i. if i \<in> set ws then state (ptab s' i) = RUNNABLE \<and> chan (ptab s' i) = None else ptab s' i = ptab s i)"
proof -
  note f = futex_key_frame [OF assms(2)]
  have pt: "ptab s1 = ptab s" using mem_onlyD(1) [OF f] .
  have inv: "sched_inv s1 q" using assms(1) mem_only_sched_inv [OF f] by simp
  from futex_wake_loop_ok [OF inv, of "[0..<NPROC]" 0 "nat nwake" k] obtain s' where
    s': "futex_wake_loop k [0..<NPROC] (nat nwake) 0 s1 = Inr (length ws, s')" "sched_inv s' (q @ ws)"
    "\<forall>i. ptab s' i = (if i \<in> set ws then woken (ptab s i) else ptab s i)"
    by (auto simp: ws_def pt atLeast_upt)
  then show ?thesis using assms(2,3) by (auto simp: do_futex_wake_def)
qed

text \<open>Process 1 runs, 2 and 3 wait on the word at the user address 0xBFFFF100, whose frame is at 0x202000.\<close>

definition demo_futex :: ipc where
  "demo_futex = (demo_map 0x00202007)\<lparr>ptab := (\<lambda>_. zero_proc)(1 := zero_proc\<lparr>state := RUNNING, pid := 1, mm := Some demo_mm\<rparr>,
     2 := zero_proc\<lparr>state := SLEEPING, chan := Some (ChFutex 0xC0202100)\<rparr>,
     3 := zero_proc\<lparr>state := SLEEPING, chan := Some (ChFutex 0xC0202100)\<rparr>)\<rparr>"

lemma demo_futex_mem: "kmem demo_futex = kmem (demo_map 0x00202007)" "proc_pagetable (ptab demo_futex 1) = 0xC0200000"
  by (simp_all add: demo_futex_def proc_pagetable_def demo_mm_def)

lemma demo_futex_key: "futex_key 0 1 0xBFFFF100 demo_futex = Inr (Some 0xC0202100, demo_futex)"
proof -
  note m = demo_map_walk [of "0x00202007", folded demo_futex_mem(1)]
  have g: "PGROUNDDOWN 0xBFFFF100 = 0xBFFFF000" by (simp add: PGROUNDDOWN_def PGSIZE_def)
  have wa: "walkaddr 0xC0200000 0xBFFFF000 (kmem demo_futex) = 0xC0202000"
    by (simp add: walkaddr_def m PTE_P_def PTE_U_def PTE_ADDR_def P2V_def KERNBASE_def PGSIZE_def)
  have "PTX 0xBFFFF100 = PTX 0xBFFFF000" "PDX 0xBFFFF100 = PDX 0xBFFFF000" by (simp_all add: PDX_def PTX_def)
  then have "walk 0xC0200000 0xBFFFF100 False False (kmem demo_futex) = walk 0xC0200000 0xBFFFF000 False False (kmem demo_futex)"
    by (simp only: walk_def)
  then have wb: "walkaddr 0xC0200000 0xBFFFF100 (kmem demo_futex) = 0xC0202100"
    by (simp add: walkaddr_def m PTE_P_def PTE_U_def PTE_ADDR_def P2V_def KERNBASE_def PGSIZE_def)
  have "\<exists>bs. copyin 0 0xC0200000 0xBFFFF100 4 demo_futex = Inr (Some bs, demo_futex)"
    using copyin_page [where pd = "0xC0200000" and va = "0xBFFFF100" and s = demo_futex and pte = "0xC0201FFC" and pa = "0xC0202000"
        and n = 4 and c = 0] by (simp add: g m wa PTE_P_def)
  then obtain bs where "copyin 0 0xC0200000 0xBFFFF100 4 demo_futex = Inr (Some bs, demo_futex)" by blast
  then show ?thesis by (simp add: futex_key_def demo_futex_mem(2) wb Let_def del: One_nat_def)
qed

theorem futex_wake_exact_witness:
  "\<exists>s'. do_futex_wake 0 1 0xBFFFF100 1 demo_futex = Inr (1, s') \<and> state (ptab s' 2) = RUNNABLE \<and> state (ptab s' 3) = SLEEPING"
proof -
  have "rq_rep (rq demo_futex) []" by (simp add: demo_futex_def demo_map_def rq_rep_def dlist_def unlinked_def)
  then have inv: "sched_inv demo_futex []" by (auto simp: sched_inv_def runnables_def demo_futex_def zero_proc_def)
  have f: "filter (\<lambda>i. state (ptab demo_futex i) = SLEEPING \<and> chan (ptab demo_futex i) = Some (ChFutex 0xC0202100)) [0..<NPROC] = [2, 3]"
    by (simp add: NPROC_def upt_rec demo_futex_def zero_proc_def)
  from futex_wake_exact [OF inv demo_futex_key, of 1] obtain s' where "do_futex_wake 0 1 0xBFFFF100 1 demo_futex = Inr (1, s')"
    "\<forall>i. if i \<in> {2} then state (ptab s' i) = RUNNABLE \<and> chan (ptab s' i) = None else ptab s' i = ptab demo_futex i"
    unfolding f by auto
  then show ?thesis by (auto simp: demo_futex_def zero_proc_def dest: spec [where x = 2] spec [where x = 3])
qed




end
