(* ===== verification/Pipe.thy ===== *)
theory Pipe
  imports Signal
begin

text \<open>
  Pipes, src/arch/x86/kernel/fs/pipe.c.

  A pipe is known by the address of its structure on the heap. Reading and writing hold the pipe's
  lock except while they sleep, so a call is a sequence of atomic steps: each one runs from the head of
  the waiting loop to the point where the call returns or sleeps. A process that was woken goes on at the
  head of the loop. \<open>pipe_bytes\<close> is the abstraction of the ring buffer; the interface \<open>byte_stream\<close>
  states what a reader and a writer rely on.
\<close>

section \<open>State\<close>

definition PIPESIZE :: nat where "PIPESIZE = 512"

record pipe =
  p_data :: "nat \<Rightarrow> u8"
  nread :: u32
  nwrite :: u32
  readers :: u32
  writers :: u32

record pipesys = ipc +
  pipes :: "u32 \<Rightarrow> pipe"

definition set_pipe :: "u32 \<Rightarrow> pipe \<Rightarrow> 'z pipesys_scheme \<Rightarrow> 'z pipesys_scheme" where
  "set_pipe a pi s = s\<lparr>pipes := (pipes s)(a := pi)\<rparr>"

datatype pipe_out = PRet int | PSleeps nat

section \<open>The ring buffer\<close>

definition pipe_full :: "pipe \<Rightarrow> bool" where
  "pipe_full pi \<longleftrightarrow> nwrite pi = nread pi + of_nat PIPESIZE"

definition pipe_put :: "u8 \<Rightarrow> pipe \<Rightarrow> pipe" where
  "pipe_put b pi = pi\<lparr>p_data := (p_data pi)(unat (nwrite pi) mod PIPESIZE := b), nwrite := nwrite pi + 1\<rparr>"

text \<open>The loop of a write that does not wait, and the loop of a long write up to where it must wait.\<close>

definition pipe_put_all :: "u8 list \<Rightarrow> pipe \<Rightarrow> pipe" where
  "pipe_put_all bs pi = fold pipe_put bs pi"

fun pipe_fill :: "u8 list \<Rightarrow> pipe \<Rightarrow> u8 list \<times> pipe" where
  "pipe_fill [] pi = ([], pi)"
| "pipe_fill (b # bs) pi = (if pipe_full pi then (b # bs, pi) else pipe_fill bs (pipe_put b pi))"

text \<open>The loop of a read: at most \<open>n\<close> bytes, until the pipe is empty.\<close>

fun pipe_take :: "nat \<Rightarrow> pipe \<Rightarrow> u8 list \<times> pipe" where
  "pipe_take 0 pi = ([], pi)"
| "pipe_take (Suc n) pi =
     (if nread pi = nwrite pi then ([], pi)
      else let b = p_data pi (unat (nread pi) mod PIPESIZE); r = pipe_take n (pi\<lparr>nread := nread pi + 1\<rparr>)
           in (b # fst r, snd r))"

section \<open>Operations\<close>

definition sleep_chan :: "nat \<Rightarrow> chan \<Rightarrow> 'z sched_scheme \<Rightarrow> 'z sched_scheme" where
  "sleep_chan p ch s = upd_proc p (\<lambda>x. x\<lparr>chan := Some ch, wakeup_tick := 0, state := SLEEPING\<rparr>) s"

text \<open>The return from a write that found no reader or was killed; \<open>r\<close> is the result.\<close>

definition pipe_broken :: "nat \<Rightarrow> u32 \<Rightarrow> int \<Rightarrow> 'z pipesys_scheme \<Rightarrow> (pipe_out \<times> 'z pipesys_scheme) kres" where
  "pipe_broken p a r s =
     (if readers (pipes s a) = 0 then
        (case signal_send (pid (ptab s p)) SIGPIPE s of Inl e \<Rightarrow> Inl e | Inr (_, s') \<Rightarrow> Inr (PRet r, s'))
      else Inr (PRet r, s))"

text \<open>A write of at most \<open>PIPESIZE\<close> bytes, from the head of its waiting loop.\<close>

definition pipe_write_atomic :: "nat \<Rightarrow> u32 \<Rightarrow> u8 list \<Rightarrow> 'z pipesys_scheme \<Rightarrow> (pipe_out \<times> 'z pipesys_scheme) kres" where
  "pipe_write_atomic p a src s =
     (let pi = pipes s a; n = of_nat (length src) :: u32
      in if nread pi + of_nat PIPESIZE < nwrite pi + n then
           (if readers pi = 0 \<or> killed (ptab s p) then pipe_broken p a (- 1) s
            else case wakeup (Some (ChPipeRead a)) s of
                   Inl e \<Rightarrow> Inl e
                 | Inr s1 \<Rightarrow> Inr (PSleeps 0, sleep_chan p (ChPipeWrite a) s1))
         else case wakeup (Some (ChPipeRead a)) (set_pipe a (pipe_put_all src pi) s) of
                Inl e \<Rightarrow> Inl e
              | Inr s1 \<Rightarrow> Inr (PRet (int (length src)), s1))"

text \<open>A longer write, from the byte \<open>i\<close> on.\<close>

definition pipe_write_stream :: "nat \<Rightarrow> u32 \<Rightarrow> u8 list \<Rightarrow> nat \<Rightarrow> 'z pipesys_scheme \<Rightarrow> (pipe_out \<times> 'z pipesys_scheme) kres" where
  "pipe_write_stream p a src i s =
     (case pipe_fill (drop i src) (pipes s a) of
        (rest, pi) \<Rightarrow>
          let s1 = set_pipe a pi s; done' = length src - length rest
          in if rest = [] then
               (case wakeup (Some (ChPipeRead a)) s1 of
                  Inl e \<Rightarrow> Inl e | Inr s2 \<Rightarrow> Inr (PRet (int (length src)), s2))
             else if readers pi = 0 \<or> killed (ptab s p) then pipe_broken p a (if 0 < done' then int done' else - 1) s1
             else (case wakeup (Some (ChPipeRead a)) s1 of
                     Inl e \<Rightarrow> Inl e
                   | Inr s2 \<Rightarrow> Inr (PSleeps done', sleep_chan p (ChPipeWrite a) s2)))"

definition pipe_write :: "nat \<Rightarrow> u32 option \<Rightarrow> u8 list \<Rightarrow> 'z pipesys_scheme \<Rightarrow> (pipe_out \<times> 'z pipesys_scheme) kres" where
  "pipe_write p ao src s =
     (case ao of
        None \<Rightarrow> Inr (PRet (- 1), s)
      | Some a \<Rightarrow>
          if 2 ^ 31 \<le> length src then Inr (PRet (- 1), s)
          else if readers (pipes s a) = 0 then pipe_broken p a (- 1) s
          else if 0 < length src \<and> length src \<le> PIPESIZE then pipe_write_atomic p a src s
          else pipe_write_stream p a src 0 s)"

text \<open>A read from the head of its waiting loop; the bytes read come with the result.\<close>

definition pipe_read :: "nat \<Rightarrow> u32 option \<Rightarrow> nat \<Rightarrow> 'z pipesys_scheme \<Rightarrow> (pipe_out \<times> u8 list \<times> 'z pipesys_scheme) kres" where
  "pipe_read p ao n s =
     (case ao of
        None \<Rightarrow> Inr (PRet (- 1), [], s)
      | Some a \<Rightarrow>
          let pi = pipes s a
          in if 2 ^ 31 \<le> n then Inr (PRet (- 1), [], s)
          else if nread pi = nwrite pi \<and> writers pi \<noteq> 0 then
            (if killed (ptab s p) then Inr (PRet (- 1), [], s)
             else Inr (PSleeps 0, [], sleep_chan p (ChPipeRead a) s))
          else (case pipe_take n pi of
                  (bs, pi') \<Rightarrow>
                    (case wakeup (Some (ChPipeWrite a)) (set_pipe a pi' s) of
                       Inl e \<Rightarrow> Inl e
                     | Inr s1 \<Rightarrow> Inr (PRet (int (length bs)), bs, s1))))"

text \<open>The last close of an end of the pipe.\<close>

definition pipe_release :: "u32 \<Rightarrow> bool \<Rightarrow> bool \<Rightarrow> 'z pipesys_scheme \<Rightarrow> 'z pipesys_scheme kres" where
  "pipe_release a readable writable s =
     (case (if readable then
              (let pi = pipes s a; pi' = (if 0 < readers pi then pi\<lparr>readers := readers pi - 1\<rparr> else pi); s1 = set_pipe a pi' s
               in if readers pi' = 0 then wakeup (Some (ChPipeWrite a)) s1 else Inr s1)
            else Inr s) of
        Inl e \<Rightarrow> Inl e
      | Inr s2 \<Rightarrow>
          if writable then
            (let pi = pipes s2 a; pi' = (if 0 < writers pi then pi\<lparr>writers := writers pi - 1\<rparr> else pi); s3 = set_pipe a pi' s2
             in if writers pi' = 0 then wakeup (Some (ChPipeRead a)) s3 else Inr s3)
          else Inr s2)"

definition fifo_on_open :: "u32 \<Rightarrow> bool \<Rightarrow> bool \<Rightarrow> 'z pipesys_scheme \<Rightarrow> 'z pipesys_scheme kres" where
  "fifo_on_open a readable writable s =
     (let pi = pipes s a;
          pi1 = (if readable then pi\<lparr>readers := readers pi + 1\<rparr> else pi);
          pi2 = (if writable then pi1\<lparr>writers := writers pi1 + 1\<rparr> else pi1)
      in case wakeup (Some (ChPipeReaders a)) (set_pipe a pi2 s) of
           Inl e \<Rightarrow> Inl e | Inr s1 \<Rightarrow> wakeup (Some (ChPipeWriters a)) s1)"


section \<open>The bytes in the ring\<close>

definition pipe_len :: "pipe \<Rightarrow> nat" where
  "pipe_len pi = unat (nwrite pi - nread pi)"

definition pipe_ok :: "pipe \<Rightarrow> bool" where
  "pipe_ok pi \<longleftrightarrow> pipe_len pi \<le> PIPESIZE"

definition pipe_bytes :: "pipe \<Rightarrow> u8 list" where
  "pipe_bytes pi = map (\<lambda>k. p_data pi ((unat (nread pi) + k) mod PIPESIZE)) [0..<pipe_len pi]"

lemma length_pipe_bytes [simp]: "length (pipe_bytes pi) = pipe_len pi"
  by (simp add: pipe_bytes_def)

text \<open>The counters run modulo \<open>2^32\<close>, a multiple of the size of the ring.\<close>

lemma unat_add_mod_ring: "unat (w + of_nat k :: u32) mod PIPESIZE = (unat w + k) mod PIPESIZE"
proof -
  have "unat (w + of_nat k :: u32) = (unat w + k mod 2 ^ 32) mod 2 ^ 32"
    by (simp add: unat_word_ariths unat_of_nat)
  also have "\<dots> mod 512 = (unat w + k mod 2 ^ 32) mod 512" by (rule mod_mod_cancel) simp
  also have "\<dots> = (unat w + k mod 2 ^ 32 mod 512) mod 512" by (simp only: mod_add_right_eq)
  also have "k mod 2 ^ 32 mod 512 = k mod 512" by (rule mod_mod_cancel) simp
  also have "(unat w + k mod 512) mod 512 = (unat w + k) mod 512" by (simp only: mod_add_right_eq)
  finally show ?thesis by (simp add: PIPESIZE_def)
qed

lemma nwrite_eq: "nwrite pi = nread pi + of_nat (pipe_len pi)"
  by (simp add: pipe_len_def)

lemma pipe_full_iff: "pipe_ok pi \<Longrightarrow> pipe_full pi \<longleftrightarrow> pipe_len pi = PIPESIZE"
proof -
  assume ok: "pipe_ok pi"
  have "pipe_full pi \<longleftrightarrow> nwrite pi - nread pi = of_nat PIPESIZE"
    unfolding pipe_full_def by (metis add_diff_cancel_left' diff_add_cancel add.commute)
  also have "\<dots> \<longleftrightarrow> pipe_len pi = PIPESIZE"
  proof
    assume "nwrite pi - nread pi = of_nat PIPESIZE"
    then show "pipe_len pi = PIPESIZE" by (simp add: pipe_len_def PIPESIZE_def)
  next
    assume "pipe_len pi = PIPESIZE"
    then have "unat (nwrite pi - nread pi) = unat (of_nat PIPESIZE :: u32)" by (simp add: pipe_len_def PIPESIZE_def)
    then show "nwrite pi - nread pi = of_nat PIPESIZE" by (rule unsigned_word_eqI)
  qed
  finally show ?thesis .
qed

lemma ring_distinct: "k < l \<Longrightarrow> l < 512 \<Longrightarrow> (r + k) mod 512 \<noteq> (r + l) mod (512 :: nat)"
proof
  assume a: "k < l" "l < 512" "(r + k) mod 512 = (r + l) mod 512"
  then have "(512 :: nat) dvd (r + l) - (r + k)" by (intro mod_eq_dvd_iff_nat [THEN iffD1]) auto
  with a(1,2) show False by (auto dest: dvd_imp_le)
qed

lemma pipe_put_ok:
  assumes "pipe_len pi < PIPESIZE"
  shows "pipe_len (pipe_put b pi) = Suc (pipe_len pi)" and "pipe_bytes (pipe_put b pi) = pipe_bytes pi @ [b]"
proof -
  let ?w = "unat (nwrite pi) mod PIPESIZE"
  have w: "?w = (unat (nread pi) + pipe_len pi) mod PIPESIZE"
    using unat_add_mod_ring [of "nread pi" "pipe_len pi"] nwrite_eq [of pi] by simp
  have "pipe_len (pipe_put b pi) = unat (nwrite pi + 1 - nread pi)" by (simp add: pipe_len_def pipe_put_def)
  also have "nwrite pi + 1 - nread pi = (nwrite pi - nread pi) + 1" by simp
  also have "unat \<dots> = Suc (pipe_len pi)"
    using assms by (simp add: unat_word_ariths pipe_len_def PIPESIZE_def)
  finally show l: "pipe_len (pipe_put b pi) = Suc (pipe_len pi)" .
  have "(unat (nread pi) + k) mod PIPESIZE \<noteq> ?w" if "k < pipe_len pi" for k
    using ring_distinct [of k "pipe_len pi" "unat (nread pi)"] that assms w by (simp add: PIPESIZE_def)
  then show "pipe_bytes (pipe_put b pi) = pipe_bytes pi @ [b]"
    by (simp add: pipe_bytes_def l) (simp add: pipe_put_def w)
qed

lemma pipe_put_counters [simp]: "nread (pipe_put b pi) = nread pi" "readers (pipe_put b pi) = readers pi" "writers (pipe_put b pi) = writers pi"
  by (simp_all add: pipe_put_def)

lemma pipe_put_all_ok:
  "pipe_len pi + length bs \<le> PIPESIZE \<Longrightarrow> pipe_bytes (pipe_put_all bs pi) = pipe_bytes pi @ bs \<and> pipe_ok (pipe_put_all bs pi)"
proof (induction bs arbitrary: pi)
  case Nil
  then show ?case by (simp add: pipe_put_all_def pipe_ok_def)
next
  case (Cons b bs)
  then show ?case using pipe_put_ok [of pi b] by (simp add: pipe_put_all_def)
qed

lemma pipe_fill_ok:
  "pipe_ok pi \<Longrightarrow> fst (pipe_fill bs pi) = drop (PIPESIZE - pipe_len pi) bs
     \<and> pipe_bytes (snd (pipe_fill bs pi)) = pipe_bytes pi @ take (PIPESIZE - pipe_len pi) bs
     \<and> pipe_ok (snd (pipe_fill bs pi)) \<and> readers (snd (pipe_fill bs pi)) = readers pi"
proof (induction bs arbitrary: pi)
  case (Cons b bs)
  show ?case
  proof (cases "pipe_full pi")
    case True
    with Cons.prems pipe_full_iff show ?thesis by simp
  next
    case False
    then have l: "pipe_len pi < PIPESIZE" using Cons.prems pipe_full_iff [OF Cons.prems] by (simp add: pipe_ok_def)
    have d: "PIPESIZE - pipe_len pi = Suc (PIPESIZE - pipe_len (pipe_put b pi))" using pipe_put_ok(1) [OF l] l by simp
    have "pipe_ok (pipe_put b pi)" using pipe_put_ok(1) [OF l] l by (simp add: pipe_ok_def)
    from Cons.IH [OF this] False show ?thesis by (simp add: d pipe_put_ok(2) [OF l])
  qed
qed simp

lemma pipe_take_step:
  assumes "nread pi \<noteq> nwrite pi"
  defines "pi' \<equiv> pi\<lparr>nread := nread pi + 1\<rparr>"
  shows "pipe_len pi = Suc (pipe_len pi')" and "pipe_bytes pi = p_data pi (unat (nread pi) mod PIPESIZE) # pipe_bytes pi'"
proof -
  show l: "pipe_len pi = Suc (pipe_len pi')"
    using unat_minus_1 [of "nwrite pi" "nread pi"] assms(1) by (auto simp: pipe_len_def pi'_def)
  have i: "(unat (nread pi) + Suc k) mod PIPESIZE = (unat (nread pi') + k) mod PIPESIZE" for k
  proof -
    have "(unat (nread pi) + Suc k) mod PIPESIZE = unat (nread pi + of_nat (Suc k)) mod PIPESIZE"
      by (simp only: unat_add_mod_ring)
    also have "nread pi + of_nat (Suc k) = nread pi' + of_nat k" by (simp add: pi'_def)
    also have "unat \<dots> mod PIPESIZE = (unat (nread pi') + k) mod PIPESIZE" by (simp only: unat_add_mod_ring)
    finally show ?thesis .
  qed
  have "pipe_bytes pi = map (\<lambda>k. p_data pi ((unat (nread pi) + k) mod PIPESIZE)) (0 # map Suc [0..<pipe_len pi'])"
    unfolding pipe_bytes_def l by (simp only: map_Suc_upt upt_conv_Cons zero_less_Suc)
  also have "\<dots> = p_data pi (unat (nread pi) mod PIPESIZE) # pipe_bytes pi'"
    by (simp only: list.map o_def map_map i pipe_bytes_def add_0_right) (simp add: pi'_def)
  finally show "pipe_bytes pi = p_data pi (unat (nread pi) mod PIPESIZE) # pipe_bytes pi'" .
qed

lemma pipe_take_ok:
  "fst (pipe_take n pi) = take n (pipe_bytes pi) \<and> pipe_bytes (snd (pipe_take n pi)) = drop n (pipe_bytes pi)
     \<and> (pipe_ok pi \<longrightarrow> pipe_ok (snd (pipe_take n pi)))"
proof (induction n arbitrary: pi)
  case 0
  then show ?case by simp
next
  case (Suc n)
  show ?case
  proof (cases "nread pi = nwrite pi")
    case True
    then have "pipe_bytes pi = []" by (simp add: pipe_bytes_def pipe_len_def)
    with True show ?thesis by simp
  next
    case False
    note st = pipe_take_step [OF False]
    have "pipe_ok pi \<Longrightarrow> pipe_ok (pi\<lparr>nread := nread pi + 1\<rparr>)" using st(1) by (simp add: pipe_ok_def)
    with Suc.IH [of "pi\<lparr>nread := nread pi + 1\<rparr>"] False st(2) show ?thesis by (simp add: Let_def)
  qed
qed


section \<open>The interface of a bounded byte stream\<close>

text \<open>A run of attempts to write and to read, by any number of processes: what was accepted and what was delivered.\<close>

datatype 'b sop = SWrite "'b list" | SRead nat

fun srun :: "('b list \<Rightarrow> 'p \<Rightarrow> 'b list \<times> 'p) \<Rightarrow> (nat \<Rightarrow> 'p \<Rightarrow> 'b list \<times> 'p) \<Rightarrow> 'b sop list \<Rightarrow> 'p \<Rightarrow> 'b list \<times> 'b list \<times> 'p" where
  "srun fl tk [] p = ([], [], p)"
| "srun fl tk (SWrite bs # ops) p =
     (let r = fl bs p; t = srun fl tk ops (snd r)
      in (take (length bs - length (fst r)) bs @ fst t, fst (snd t), snd (snd t)))"
| "srun fl tk (SRead n # ops) p =
     (let r = tk n p; t = srun fl tk ops (snd r) in (fst t, fst r @ fst (snd t), snd (snd t)))"

locale byte_stream =
  fixes content :: "'p \<Rightarrow> 'b list"
    and ok :: "'p \<Rightarrow> bool"
    and cap :: nat
    and fl :: "'b list \<Rightarrow> 'p \<Rightarrow> 'b list \<times> 'p"
    and tk :: "nat \<Rightarrow> 'p \<Rightarrow> 'b list \<times> 'p"
  assumes ok_cap: "ok p \<Longrightarrow> length (content p) \<le> cap"
    and fl_rest: "ok p \<Longrightarrow> fst (fl bs p) = drop (cap - length (content p)) bs"
    and fl_content: "ok p \<Longrightarrow> content (snd (fl bs p)) = content p @ take (cap - length (content p)) bs"
    and fl_ok: "ok p \<Longrightarrow> ok (snd (fl bs p))"
    and tk_out: "ok p \<Longrightarrow> fst (tk n p) = take n (content p)"
    and tk_content: "ok p \<Longrightarrow> content (snd (tk n p)) = drop n (content p)"
    and tk_ok: "ok p \<Longrightarrow> ok (snd (tk n p))"
begin

lemma take_accepted: "take (length bs - length (drop k bs)) bs = take k bs"
  by (cases "k \<le> length bs") auto

lemma srun_fifo:
  assumes "ok p"
  shows "content p @ fst (srun fl tk ops p) = fst (snd (srun fl tk ops p)) @ content (snd (snd (srun fl tk ops p)))
    \<and> ok (snd (snd (srun fl tk ops p)))"
  using assms
proof (induction ops arbitrary: p)
  case (Cons op ops)
  show ?case
  proof (cases op)
    case (SWrite bs)
    have "take (length bs - length (fst (fl bs p))) bs = take (cap - length (content p)) bs"
      by (simp only: fl_rest [OF Cons.prems] take_accepted)
    with Cons.IH [OF fl_ok [OF Cons.prems, of bs]] SWrite fl_content [OF Cons.prems, of bs] show ?thesis
      by (simp add: Let_def)
  next
    case (SRead n)
    have "content p = take n (content p) @ content (snd (tk n p))" by (simp add: tk_content [OF Cons.prems])
    with Cons.IH [OF tk_ok [OF Cons.prems, of n]] SRead tk_out [OF Cons.prems, of n] show ?thesis
      by (simp add: Let_def) (metis append_assoc)
  qed
qed simp

end

interpretation ring: byte_stream pipe_bytes pipe_ok PIPESIZE pipe_fill pipe_take
  by unfold_locales (use pipe_fill_ok pipe_take_ok in \<open>auto simp: pipe_ok_def\<close>)

section \<open>Properties\<close>




lemma wakeup_pipes:
  assumes "sched_inv s q"
  obtains s' q' where "wakeup (Some ch) s = Inr s'" "sched_inv s' q'" "pipes s' = pipes s" "\<And>p. killed (ptab s' p) = killed (ptab s p)"
    "\<And>p. pid (ptab s' p) = pid (ptab s p)"
proof -
  obtain h where h: "wakeup (Some ch) s = Inr (s\<lparr>ptab := wake_if (on_chan ch) [0..<NPROC] s, rq := h\<rparr>)"
    "sched_inv (s\<lparr>ptab := wake_if (on_chan ch) [0..<NPROC] s, rq := h\<rparr>) (q @ filter (\<lambda>i. on_chan ch 0 (ptab s i)) [0..<NPROC])"
    using wakeup_ok [OF assms] by blast
  show thesis by (rule that [OF h]) (simp_all add: wake_if_def)
qed

lemma sched_inv_set_pipe [simp]: "sched_inv (set_pipe a pi s) q = sched_inv s q"
  by (rule sched_inv_cong) (simp_all add: set_pipe_def runnables_def)

lemma set_pipe_simps [simp]: "pipes (set_pipe a pi s) = (pipes s)(a := pi)" "ptab (set_pipe a pi s) = ptab s"
  by (simp_all add: set_pipe_def)

lemma sleep_chan_simps [simp]:
  "pipes (sleep_chan p ch s) = pipes s" "state (ptab (sleep_chan p ch s) p) = SLEEPING" "chan (ptab (sleep_chan p ch s) p) = Some ch"
  "q \<noteq> p \<Longrightarrow> ptab (sleep_chan p ch s) q = ptab s q"
  by (simp_all add: sleep_chan_def upd_proc_def)

lemma atomic_room:
  assumes "pipe_ok pi" and "unat (nread pi) + 512 + n < 2 ^ 32"
  shows "nread pi + of_nat PIPESIZE < nwrite pi + of_nat n \<longleftrightarrow> PIPESIZE < pipe_len pi + n"
proof -
  have l: "pipe_len pi \<le> 512" using assms(1) by (simp add: pipe_ok_def PIPESIZE_def)
  have "nwrite pi + of_nat n = nread pi + of_nat (pipe_len pi + n)" using nwrite_eq [of pi] by simp
  then have "unat (nwrite pi + of_nat n) = unat (nread pi + of_nat (pipe_len pi + n))" by (simp only:)
  also have "\<dots> = unat (nread pi) + (pipe_len pi + n)"
    using assms(2) l by (simp add: unat_word_ariths unat_of_nat)
  finally have "unat (nwrite pi + of_nat n) = unat (nread pi) + (pipe_len pi + n)" .
  moreover have "unat (nread pi + of_nat PIPESIZE) = unat (nread pi) + PIPESIZE"
    using assms(2) by (simp add: unat_word_ariths PIPESIZE_def)
  ultimately show ?thesis by (simp add: word_less_nat_alt)
qed

text \<open>C19: a write of at most 512 bytes is atomic: as long as the counters are not about to wrap, it either finds room for all its
  bytes and appends them in one step, next to each other, or it changes nothing in the pipe and sleeps until
  a reader makes room. It never panics.\<close>

theorem pipe_write_atomic_ok:
  assumes "sched_inv s q" and "pipe_ok (pipes s a)" and "unat (nread (pipes s a)) + 512 + length src < 2 ^ 32"
    and "0 < length src" and "length src \<le> PIPESIZE" and "readers (pipes s a) \<noteq> 0" and "\<not> killed (ptab s p)"
  shows "\<exists>s'. if pipe_len (pipes s a) + length src \<le> PIPESIZE
    then pipe_write p (Some a) src s = Inr (PRet (int (length src)), s')
      \<and> pipe_bytes (pipes s' a) = pipe_bytes (pipes s a) @ src \<and> pipe_ok (pipes s' a)
    else pipe_write p (Some a) src s = Inr (PSleeps 0, s') \<and> pipes s' = pipes s
      \<and> state (ptab s' p) = SLEEPING \<and> chan (ptab s' p) = Some (ChPipeWrite a)"
proof -
  have w: "pipe_write p (Some a) src s = pipe_write_atomic p a src s"
    using assms(4-6) by (simp add: pipe_write_def PIPESIZE_def)
  note room = atomic_room [OF assms(2,3)]
  show ?thesis
  proof (cases "pipe_len (pipes s a) + length src \<le> PIPESIZE")
    case True
    have inv: "sched_inv (set_pipe a (pipe_put_all src (pipes s a)) s) q" using assms(1) by simp
    obtain s' where s': "wakeup (Some (ChPipeRead a)) (set_pipe a (pipe_put_all src (pipes s a)) s) = Inr s'"
      "pipes s' = pipes (set_pipe a (pipe_put_all src (pipes s a)) s)"
      using wakeup_pipes [OF inv] by metis
    have "pipe_write p (Some a) src s = Inr (PRet (int (length src)), s')"
      using True room s'(1) by (simp add: w pipe_write_atomic_def Let_def)
    then show ?thesis using True s'(2) pipe_put_all_ok [OF True] by (intro exI [of _ s']) simp
  next
    case False
    obtain s1 where s1: "wakeup (Some (ChPipeRead a)) s = Inr s1" "pipes s1 = pipes s"
      using wakeup_pipes [OF assms(1)] by metis
    have "pipe_write p (Some a) src s = Inr (PSleeps 0, sleep_chan p (ChPipeWrite a) s1)"
      using False room s1(1) assms(6,7) by (simp add: w pipe_write_atomic_def Let_def)
    then show ?thesis using False s1(2) by (intro exI [of _ "sleep_chan p (ChPipeWrite a) s1"]) simp
  qed
qed

text \<open>Two processes and a pipe with the state \<open>v\<close>.\<close>

definition demo_pipe :: "u32 \<Rightarrow> u32 \<Rightarrow> pipesys" where
  "demo_pipe r w = \<lparr>ptab = (\<lambda>_. zero_proc)(1 := zero_proc\<lparr>state := RUNNING, pid := 1, mm := Some demo_mm\<rparr>,
       2 := zero_proc\<lparr>state := SLEEPING, chan := Some (ChPipeRead 0xC0300010), pid := 2, mm := Some demo_mm\<rparr>),
     rq = \<lparr>nxt = id, prv = id\<rparr>, nextpid = 3, initproc = None, kthreadd_task = None,
     cpus = (\<lambda>_. \<lparr>c_proc = Some 1, c_last_sched = None, c_need_resched = False, c_noff = 0, c_user_pgdir = 0\<rparr>),
     ticks = 0, fg_pid = 0, kmem = demo_pmm, kslab = fst demo_heap, shm_table = (\<lambda>_. zero_seg),
     pipes = (\<lambda>_. \<lparr>p_data = (\<lambda>_. 0), nread = r, nwrite = w, readers = 1, writers = 1\<rparr>)\<rparr>"

lemma demo_pipe_inv: "sched_inv (demo_pipe r w) []"
proof -
  have "rq_rep (rq (demo_pipe r w)) []" by (simp add: demo_pipe_def rq_rep_def dlist_def unlinked_def)
  then show ?thesis by (auto simp: sched_inv_def runnables_def demo_pipe_def zero_proc_def)
qed

lemma demo_pipe_simps:
  "nread (pipes (demo_pipe r w) a) = r" "nwrite (pipes (demo_pipe r w) a) = w" "readers (pipes (demo_pipe r w) a) = 1"
  "writers (pipes (demo_pipe r w) a) = 1" "\<not> killed (ptab (demo_pipe r w) p)" "pipe_len (pipes (demo_pipe r w) a) = unat (w - r)"
  by (simp_all add: demo_pipe_def zero_proc_def pipe_len_def)

theorem pipe_write_atomic_ok_witness:
  "\<exists>s'. pipe_write 1 (Some 0xC0300010) [7, 8] (demo_pipe 0 3) = Inr (PRet 2, s') \<and> drop 3 (pipe_bytes (pipes s' 0xC0300010)) = [7, 8]"
proof -
  have "\<exists>s'. if pipe_len (pipes (demo_pipe 0 3) 0xC0300010) + length [7, 8 :: u8] \<le> PIPESIZE
    then pipe_write 1 (Some 0xC0300010) [7, 8] (demo_pipe 0 3) = Inr (PRet (int (length [7, 8 :: u8])), s')
      \<and> pipe_bytes (pipes s' 0xC0300010) = pipe_bytes (pipes (demo_pipe 0 3) 0xC0300010) @ [7, 8] \<and> pipe_ok (pipes s' 0xC0300010)
    else pipe_write 1 (Some 0xC0300010) [7, 8] (demo_pipe 0 3) = Inr (PSleeps 0, s') \<and> pipes s' = pipes (demo_pipe 0 3)
      \<and> state (ptab s' 1) = SLEEPING \<and> chan (ptab s' 1) = Some (ChPipeWrite 0xC0300010)"
    by (rule pipe_write_atomic_ok [OF demo_pipe_inv]) (simp_all add: demo_pipe_simps pipe_ok_def PIPESIZE_def)
  then show ?thesis by (auto simp: demo_pipe_simps PIPESIZE_def)
qed

text \<open>C36: the space test of an atomic write compares counters that wrap: when an empty pipe's counters are within 512 of
  \<open>2^32\<close>, a writer takes it for full and sleeps, and a reader finds it empty and sleeps, so both wait for each
  other for ever.\<close>

theorem pipe_counter_wrap_deadlock:
  assumes "sched_inv s q" and "nread (pipes s a) = nwrite (pipes s a)" and "2 ^ 32 - 512 \<le> unat (nwrite (pipes s a))"
    and "unat (nwrite (pipes s a)) + length src < 2 ^ 32" and "0 < length src" and "readers (pipes s a) \<noteq> 0"
    and "writers (pipes s a) \<noteq> 0" and "\<not> killed (ptab s p)" and "\<not> killed (ptab s r)" and "p \<noteq> r" and "n < 2 ^ 31"
  shows "\<exists>s1 s2. pipe_write p (Some a) src s = Inr (PSleeps 0, s1) \<and> pipe_read r (Some a) n s1 = Inr (PSleeps 0, [], s2)
    \<and> state (ptab s2 p) = SLEEPING \<and> state (ptab s2 r) = SLEEPING \<and> pipe_bytes (pipes s2 a) = []"
proof -
  let ?pi = "pipes s a"
  have len: "length src < 512" using assms(3,4) by simp
  have "unat (nread ?pi + of_nat PIPESIZE) = unat (nwrite ?pi) + 512 - 2 ^ 32"
    using assms(2,3) unat_u32 [of "nwrite ?pi"] by (simp add: unat_word_ariths PIPESIZE_def mod_if)
  moreover have "unat (nwrite ?pi + of_nat (length src)) = unat (nwrite ?pi) + length src"
    using assms(4) by (simp add: unat_word_ariths unat_of_nat)
  ultimately have t: "nread ?pi + of_nat PIPESIZE < nwrite ?pi + of_nat (length src)"
    using assms(3,5) unat_u32 [of "nwrite ?pi"] by (simp add: word_less_nat_alt)
  obtain s0 where s0: "wakeup (Some (ChPipeRead a)) s = Inr s0" "pipes s0 = pipes s" "\<And>p. killed (ptab s0 p) = killed (ptab s p)"
    using wakeup_pipes [OF assms(1)] by metis
  define s1 where "s1 = sleep_chan p (ChPipeWrite a) s0"
  have w: "pipe_write p (Some a) src s = Inr (PSleeps 0, s1)"
    using assms(5,6,8) len t s0(1) by (simp add: pipe_write_def pipe_write_atomic_def Let_def PIPESIZE_def s1_def)
  define s2 where "s2 = sleep_chan r (ChPipeRead a) s1"
  have "pipe_read r (Some a) n s1 = Inr (PSleeps 0, [], s2)"
    using assms(2,7,9,10,11) s0(2,3) by (simp add: pipe_read_def Let_def s1_def s2_def)
  moreover have "state (ptab s2 p) = SLEEPING" using assms(10) by (simp add: s2_def s1_def)
  moreover have "pipe_bytes (pipes s2 a) = []" using assms(2) s0(2) by (simp add: s2_def s1_def pipe_bytes_def pipe_len_def)
  ultimately show ?thesis using w by (auto simp: s2_def)
qed


theorem pipe_counter_wrap_deadlock_witness:
  "\<exists>s1 s2. pipe_write 1 (Some 0xC0300010) [7] (demo_pipe 0xFFFFFFF0 0xFFFFFFF0) = Inr (PSleeps 0, s1)
     \<and> pipe_read 2 (Some 0xC0300010) 1 s1 = Inr (PSleeps 0, [], s2)"
proof -
  have "\<exists>s1 s2. pipe_write 1 (Some 0xC0300010) [7] (demo_pipe 0xFFFFFFF0 0xFFFFFFF0) = Inr (PSleeps 0, s1)
     \<and> pipe_read 2 (Some 0xC0300010) 1 s1 = Inr (PSleeps 0, [], s2)
     \<and> state (ptab s2 1) = SLEEPING \<and> state (ptab s2 2) = SLEEPING \<and> pipe_bytes (pipes s2 0xC0300010) = []"
    by (rule pipe_counter_wrap_deadlock [OF demo_pipe_inv]) (simp_all add: demo_pipe_simps)
  then show ?thesis by blast
qed

lemma signal_send_frame:
  assumes "signal_send n sig s = Inr (r, s')"
  shows "\<exists>pt h. s' = s\<lparr>ptab := pt, rq := h\<rparr> \<and> (\<forall>q. killed (pt q) = killed (ptab s q))"
proof (cases "r = 0")
  case False
  then have "s' = s" using assms by (auto simp: signal_send_def Let_def split: if_splits option.splits sum.splits)
  then show ?thesis by (intro exI [of _ "ptab s"] exI [of _ "rq s"]) simp
next
  case True
  from signal_send_ok [OF assms True] obtain p s2 where
    s2: "s2 = upd_proc p (\<lambda>x. x\<lparr>sigpending := sigpending x OR SIGBIT (nat sig)\<rparr>)
         (if sig = SIGKILL then upd_proc p (\<lambda>x. x\<lparr>sighand := (sighand x)(nat sig := SIG_DFL),
            sigmasked := sigmasked x AND NOT (SIGBIT (nat sig))\<rparr>) s else s)"
    and w: "signal_wake_locked p s2 = Inr s'" by blast
  have "s2 = s\<lparr>ptab := ptab s2\<rparr>" "\<forall>q. killed (ptab s2 q) = killed (ptab s q)"
    by (auto simp: s2 upd_proc_def)
  moreover have "s' = s2\<lparr>ptab := ptab s', rq := rq s'\<rparr>" "\<forall>q. killed (ptab s' q) = killed (ptab s2 q)"
    using w by (auto simp: signal_wake_locked_def wake_one_def task_queue_enqueue_locked_def upd_proc_def split: if_splits)
  ultimately have "s' = s\<lparr>ptab := ptab s', rq := rq s'\<rparr>" "\<forall>q. killed (ptab s' q) = killed (ptab s q)"
    by (metis sched.update_convs(1) sched.surjective, simp)
  then show ?thesis by blast
qed

text \<open>C37: the reading loop tests \<open>killed\<close>, which no code ever sets: whatever signal is sent to a process that waits in a read of an
  empty pipe, SIGKILL included, the process is woken, finds the pipe still empty and goes back to sleep before
  the signal can be delivered.\<close>

theorem pipe_read_not_interrupted:
  assumes "signal_send n sig s = Inr (r, s1)" and "\<not> killed (ptab s p)" and "nread (pipes s a) = nwrite (pipes s a)"
    and "writers (pipes s a) \<noteq> 0" and "k < 2 ^ 31"
  shows "\<exists>s2. pipe_read p (Some a) k s1 = Inr (PSleeps 0, [], s2) \<and> state (ptab s2 p) = SLEEPING"
proof -
  from signal_send_frame [OF assms(1)] obtain pt h where s1: "s1 = s\<lparr>ptab := pt, rq := h\<rparr>" and k: "\<forall>q. killed (pt q) = killed (ptab s q)"
    by blast
  have "pipe_read p (Some a) k s1 = Inr (PSleeps 0, [], sleep_chan p (ChPipeRead a) s1)"
    using assms(2-5) k by (simp add: pipe_read_def s1 Let_def)
  then show ?thesis by simp
qed

theorem pipe_read_not_interrupted_witness:
  "\<exists>s1 s2. signal_send 2 SIGKILL (demo_pipe 0 0) = Inr (0, s1) \<and> pipe_read 2 (Some 0xC0300010) 1 s1 = Inr (PSleeps 0, [], s2)
     \<and> state (ptab s2 2) = SLEEPING"
proof -
  have f: "find (\<lambda>i. pid (ptab (demo_pipe 0 0) i) = 2 \<and> state (ptab (demo_pipe 0 0) i) \<noteq> UNUSED \<and> state (ptab (demo_pipe 0 0) i) \<noteq> ZOMBIE)
      [0..<NPROC] = Some 2"
    by (auto simp: find_upt_Some NPROC_def demo_pipe_def zero_proc_def)
  have "\<exists>s1. signal_send 2 SIGKILL (demo_pipe 0 0) = Inr (0, s1)"
    unfolding signal_send_def f
    by (simp add: valid_sig_def SIGKILL_def NSIG_def demo_pipe_def demo_mm_def proc_pagetable_def signal_wake_locked_def
        zero_proc_def wake_one_def task_queue_enqueue_locked_def on_list_def upd_proc_def)
  then obtain s1 where s: "signal_send 2 SIGKILL (demo_pipe 0 0) = Inr (0, s1)" by blast
  have "\<exists>s2. pipe_read 2 (Some 0xC0300010) 1 s1 = Inr (PSleeps 0, [], s2) \<and> state (ptab s2 2) = SLEEPING"
    by (rule pipe_read_not_interrupted [OF s]) (simp_all add: demo_pipe_simps)
  with s show ?thesis by blast
qed

end
