(* ===== verification/Vm_Map.thy ===== *)
theory Vm_Map
  imports Vm
begin

text \<open>
  Properties of the page tables of Vm: what \<open>mappages\<close> does to the translation of every address, through the
  memory that the tables occupy. The tables are pages of the page allocator, so that a page it hands out for
  a new table overlaps none of them.
\<close>

section \<open>Slots of a page\<close>

lemma unat_drop_and: "unat (drop_bit n va AND 0x3ff :: u32) = unat va div 2 ^ n mod 1024"
proof -
  have "(0x3ff :: u32) = mask 10" by (simp add: mask_eq_exp_minus_1)
  then have "unat (drop_bit n va AND 0x3ff) = unat (drop_bit n va AND mask 10)" by (simp only:)
  also have "\<dots> = drop_bit n (unat va) mod 2 ^ 10" 
    using unat_u32 [of va] by (simp only: unat_and_mask unsigned_drop_bit_eq) (simp add: take_bit_eq_mod)
  finally show ?thesis by (simp add: drop_bit_eq_div)
qed

lemma unat_PDX: "unat (PDX va) = unat va div 2 ^ 22"
proof -
  have "unat va div 2 ^ 22 < 1024" using unat_u32 [of va] by (simp add: div_less_iff_less_mult)
  then show ?thesis unfolding PDX_def unat_drop_and by simp
qed

lemma unat_PTX: "unat (PTX va) = unat va div 4096 mod 1024"
  unfolding PTX_def unat_drop_and by simp

lemma PDX_less: "unat (PDX va) < 1024" and PTX_less: "unat (PTX va) < 1024"
  by (simp_all add: PDX_def PTX_def unat_drop_and)

lemma same_slot_iff: "PDX a = PDX b \<and> PTX a = PTX b \<longleftrightarrow> PGROUNDDOWN a = PGROUNDDOWN b"
proof -
  have d: "unat x div 2 ^ 22 = unat x div 4096 div 1024" for x :: u32 by (simp add: div_mult2_eq [symmetric])
  have "PDX a = PDX b \<and> PTX a = PTX b \<longleftrightarrow> unat a div 4096 = unat b div 4096"
    unfolding word_unat_eq_iff unat_PDX unat_PTX d by (metis div_mult_mod_eq)
  then show ?thesis by (simp add: word_unat_eq_iff unat_PGROUNDDOWN)
qed

text \<open>Words of different pages, or at different slots of one page, do not overlap.\<close>

lemma unat_slot:
  assumes "pmm_owns m B" and "(a, 0) \<in> B" and "unat i < 1024"
  shows "unat (a + 4 * i) = unat a + 4 * unat i" and "unat a mod 4096 = 0"
proof -
  show a: "unat a mod 4096 = 0" by (rule owned_aligned [OF assms(1,2)])
  then obtain k where k: "unat a = 4096 * k" by (auto simp: mod_eq_0_iff_dvd elim: dvdE)
  then have "unat a + 4096 \<le> 2 ^ 32" using unat_u32 [of a] by simp
  then show "unat (a + 4 * i) = unat a + 4 * unat i" using assms(3) by (simp add: unat_word_ariths)
qed

lemma slot_in_page:
  assumes "pmm_owns m B" and "(a, 0) \<in> B" and "unat i < 1024"
  shows "word_at (a + 4 * i) \<subseteq> block_addrs (a, 0)"
proof -
  have "unat (4 * i + j) = 4 * unat i + unat j" if "unat j < 4" for j
    using assms(3) that by (simp add: unat_word_ariths)
  from this [of 0] this [of 1] this [of 2] this [of 3] show ?thesis
    using assms(3) by (auto simp: word_at_def block_addrs_def add.assoc)
qed

lemma rd32_wr32_slot:
  assumes "pmm_owns m B" and "(a, 0) \<in> B" and "(b, 0) \<in> B" and "unat i < 1024" and "unat j < 1024"
  shows "rd32 (a + 4 * i) (wr32 (b + 4 * j) v m') = (if a = b \<and> i = j then v else rd32 (a + 4 * i) m')"
proof (cases "a = b")
  case True
  have "unat (a + 4 * i) mod 4 = 0" "unat (a + 4 * j) mod 4 = 0"
    using unat_slot [OF assms(1,2)] assms(4,5) by (auto simp: mod_add_eq [symmetric] mod_eq_0_iff_dvd intro: dvd_trans [of 4 4096])
  moreover have "i \<noteq> j \<Longrightarrow> a + 4 * i \<noteq> a + 4 * j"
    using unat_slot(1) [OF assms(1,2)] assms(4,5) by (metis add_left_cancel mult_left_cancel unsigned_word_eqI zero_neq_numeral)
  ultimately have "i \<noteq> j \<Longrightarrow> word_at (a + 4 * i) \<inter> word_at (a + 4 * j) = {}" by (intro word_at_aligned) auto
  then show ?thesis using True load32_store32_other by (auto simp: rd32_def wr32_def)
next
  case False
  then have "block_addrs (a, 0) \<inter> block_addrs (b, 0) = {}" using pages.owns_disjoint [OF assms(1-3)] by simp
  then show ?thesis
    using slot_in_page [OF assms(1,2,4)] slot_in_page [OF assms(1,3,5)] False
    by (auto simp: rd32_def wr32_def intro!: load32_store32_other)
qed

lemma rd32_alloc:
  assumes "pmm_owns m B" and "(a, 0) \<in> B" and "unat i < 1024" and "alloc_pages 0 m = (Some p, m')"
  shows "rd32 (a + 4 * i) m' = rd32 (a + 4 * i) m"
  unfolding rd32_def
  by (rule load32_cong, rule pages.alloc_keeps_bytes [OF assms(1,4,2)]) (use slot_in_page [OF assms(1-3)] in blast)

lemma rd32_fresh:
  assumes "pmm_owns m B" and "alloc_pages 0 m = (Some p, m')" and "unat i < 1024"
  shows "rd32 (p + 4 * i) m' = 0"
proof -
  note a = pages.owns_alloc [OF assms(1,2)]
  have "ram m' x = 0" if "x \<in> word_at (p + 4 * i)" for x
    using a slot_in_page [of m' "insert (p, 0) B" p i] assms(3) that by auto
  then show ?thesis by (simp add: rd32_def load32_def word_at_def)
qed

lemma pmm_owns_ram: "pmm_owns (wr32 a v m) B = pmm_owns m B"
  by (simp add: pmm_owns_def wr32_def pmm_inv_ram page_to_addr_def)

section \<open>Tables\<close>

text \<open>
  A page directory and its tables: all are pages the kernel holds, no table serves two slots of the
  directory and none is the directory itself.
\<close>

definition pt_of :: "u32 \<Rightarrow> u32 \<Rightarrow> pmm \<Rightarrow> u32" where
  "pt_of pd i m = pde_pt_kva (rd32 (pd + 4 * i) m)"

definition present :: "u32 \<Rightarrow> u32 \<Rightarrow> pmm \<Rightarrow> bool" where
  "present pd i m \<longleftrightarrow> rd32 (pd + 4 * i) m AND PTE_P \<noteq> 0"

definition pt_inv :: "u32 \<Rightarrow> pmm \<Rightarrow> (u32 \<times> nat) set \<Rightarrow> bool" where
  "pt_inv pd m B \<longleftrightarrow>
     pmm_owns m B \<and> (pd, 0) \<in> B
     \<and> (\<forall>i. unat i < 1024 \<longrightarrow> present pd i m \<longrightarrow> (pt_of pd i m, 0) \<in> B \<and> pt_of pd i m \<noteq> pd)
     \<and> (\<forall>i j. unat i < 1024 \<longrightarrow> unat j < 1024 \<longrightarrow> present pd i m \<longrightarrow> present pd j m \<longrightarrow> i \<noteq> j \<longrightarrow> pt_of pd i m \<noteq> pt_of pd j m)"

text \<open>The entry that translates \<open>va\<close>, if it is present.\<close>

definition entry_of :: "u32 \<Rightarrow> u32 \<Rightarrow> pmm \<Rightarrow> u32 option" where
  "entry_of pd va m =
     (if present pd (PDX va) m \<and> rd32 (pt_of pd (PDX va) m + 4 * PTX va) m AND PTE_P \<noteq> 0
      then Some (rd32 (pt_of pd (PDX va) m + 4 * PTX va) m) else None)"

lemma walkaddr_entry:
  "walkaddr pd va m =
     (case entry_of pd va m of
        None \<Rightarrow> 0
      | Some e \<Rightarrow> if pd = 0 \<or> e AND PTE_U = 0 then 0 else P2V (PTE_ADDR e) OR (va AND (PGSIZE - 1)))"
  by (simp add: walkaddr_def walk_def entry_of_def present_def pt_of_def Let_def)

lemma PGROUNDDOWN_aligned: "unat x mod 4096 = 0 \<Longrightarrow> PGROUNDDOWN x = x"
proof -
  assume "unat x mod 4096 = 0"
  then have "unat (PGROUNDDOWN x) = unat x" by (auto simp: unat_PGROUNDDOWN mod_eq_0_iff_dvd)
  then show ?thesis by (rule unsigned_word_eqI)
qed

lemma aligned_and: "unat x mod 4096 = 0 \<Longrightarrow> (x AND 0xfffff000 :: u32) = x"
proof -
  assume "unat x mod 4096 = 0"
  moreover have "(0xfffff000 :: u32) = NOT (PGSIZE - 1)" by (simp add: PGSIZE_def)
  ultimately show ?thesis using PGROUNDDOWN_aligned [of x] by (simp only: PGROUNDDOWN_def)
qed

lemma PTE_ADDR_flags:
  assumes "flags AND 0xfffff000 = 0" shows "PTE_ADDR (PA2PTE pa OR flags) = PA2PTE pa"
  using assms by (simp add: PTE_ADDR_def PA2PTE_def bit.conj_disj_distrib2 and.assoc)

lemma V2P_aligned: "unat p mod 4096 = 0 \<Longrightarrow> unat (V2P p) mod 4096 = 0"
proof -
  assume a: "unat p mod 4096 = 0"
  have "unat (V2P p) = (if 0xC0000000 \<le> unat p then unat p - 0xC0000000 else unat p + 0x40000000)"
    using unat_u32 [of p] by (simp add: V2P_def KERNBASE_def unat_sub_if_size word_size)
  then show ?thesis using a by (auto simp: mod_eq_0_iff_dvd intro!: dvd_diff_nat dvd_add)
qed

lemma walk_ok:
  assumes inv: "pt_inv pd m B" and w: "walk pd va True user m = (Some pte, m1)"
  shows "\<exists>B'. pt_inv pd m1 B' \<and> present pd (PDX va) m1 \<and> pte = pt_of pd (PDX va) m1 + 4 * PTX va
    \<and> (\<forall>b. entry_of pd b m1 = entry_of pd b m)"
proof (cases "present pd (PDX va) m")
  case True
  then show ?thesis using inv w by (auto simp: walk_def present_def pt_of_def Let_def)
next
  case False
  have own: "pmm_owns m B" "(pd, 0) \<in> B" using inv by (auto simp: pt_inv_def)
  obtain p m0 e where al: "alloc_pages 0 m = (Some p, m0)" and pte: "pte = p + 4 * PTX va" and m1: "m1 = wr32 (pd + 4 * PDX va) e m0"
    and e: "e = PA2PTE (V2P p) OR PTE_P OR PTE_W OR PTE_U \<or> e = PA2PTE (V2P p) OR PTE_P OR PTE_W"
    using w False by (auto simp: walk_def present_def Let_def alloc_page_def split: prod.splits option.splits if_splits)
  note a = pages.owns_alloc [OF own(1) al]
  then have own0: "pmm_owns m0 (insert (p, 0) B)" and new: "(p, 0) \<notin> B" by auto
  have own1: "pmm_owns m1 (insert (p, 0) B)" using own0 by (simp add: m1 pmm_owns_ram)
  have "unat p mod 4096 = 0" using owned_aligned [OF own0, of p 0] by simp
  note pa = aligned_and [OF V2P_aligned [OF this]]
  have "PTE_ADDR e = V2P p"
    using e PTE_ADDR_flags [of "PTE_P OR PTE_W OR PTE_U" "V2P p"] PTE_ADDR_flags [of "PTE_P OR PTE_W" "V2P p"] pa
    by (auto simp: PTE_P_def PTE_W_def PTE_U_def PA2PTE_def)
  then have pk: "pde_pt_kva e = p" by (simp add: pde_pt_kva_def)
  have ep: "e AND PTE_P \<noteq> 0" using e by (auto simp: PTE_P_def PTE_W_def PTE_U_def bit.conj_disj_distrib2)
  have old: "rd32 (q + 4 * i) m1 = (if q = pd \<and> i = PDX va then e else rd32 (q + 4 * i) m)" if "(q, 0) \<in> B" "unat i < 1024" for q i
    using rd32_wr32_slot [OF own0, of q pd i "PDX va" e m0] that own(2) PDX_less rd32_alloc [OF own(1) that al] by (simp add: m1)
  have zero: "rd32 (p + 4 * i) m1 = 0" if "unat i < 1024" for i
  proof -
    have "p \<noteq> pd" using new own(2) by auto
    then show ?thesis
      using rd32_wr32_slot [OF own0, of p pd i "PDX va" e m0] that own(2) PDX_less rd32_fresh [OF own(1) al that] by (simp add: m1)
  qed
  have pr: "present pd i m1 \<longleftrightarrow> i = PDX va \<or> present pd i m" and pt: "pt_of pd i m1 = (if i = PDX va then p else pt_of pd i m)"
    if "unat i < 1024" for i
    using old [OF own(2) that] ep pk by (auto simp: present_def pt_of_def)
  have B: "(pt_of pd i m, 0) \<in> B" "pt_of pd i m \<noteq> pd" if "unat i < 1024" "present pd i m" for i
    using inv that by (auto simp: pt_inv_def)
  have "pt_inv pd m1 (insert (p, 0) B)"
    using own1 own(2) inv new B by (auto simp: pt_inv_def pr pt)
  moreover have "entry_of pd b m1 = entry_of pd b m" for b
    using False zero [OF PTX_less] old [OF B(1)] B [OF PDX_less, of b] PTX_less PDX_less
    by (cases "PDX b = PDX va") (auto simp: entry_of_def pr pt)
  ultimately show ?thesis using pte pr [OF PDX_less, of va] pt [OF PDX_less, of va] by auto
qed

lemma set_entry_ok:
  assumes inv: "pt_inv pd m B" and pr: "present pd (PDX va) m" and e: "e AND PTE_P \<noteq> 0"
  defines "m' \<equiv> wr32 (pt_of pd (PDX va) m + 4 * PTX va) e m"
  shows "pt_inv pd m' B \<and> entry_of pd b m' = (if PGROUNDDOWN b = PGROUNDDOWN va then Some e else entry_of pd b m)"
proof -
  have own: "pmm_owns m B" "(pd, 0) \<in> B" using inv by (auto simp: pt_inv_def)
  have B: "(pt_of pd i m, 0) \<in> B" "pt_of pd i m \<noteq> pd" if "unat i < 1024" "present pd i m" for i
    using inv that by (auto simp: pt_inv_def)
  have rd: "rd32 (q + 4 * i) m' = (if q = pt_of pd (PDX va) m \<and> i = PTX va then e else rd32 (q + 4 * i) m)"
    if "(q, 0) \<in> B" "unat i < 1024" for q i
    using rd32_wr32_slot [OF own(1) that(1) B(1) [OF PDX_less pr] that(2) PTX_less] by (simp add: m'_def)
  have p: "present pd i m' = present pd i m" "pt_of pd i m' = pt_of pd i m" if "unat i < 1024" for i
    using rd [OF own(2) that] B(2) [OF PDX_less pr] by (auto simp: present_def pt_of_def)
  have "pmm_owns m' B" using own(1) by (simp add: m'_def pmm_owns_ram)
  then have "pt_inv pd m' B" using inv by (auto simp: pt_inv_def p)
  moreover have "present pd (PDX b) m \<Longrightarrow> pt_of pd (PDX b) m = pt_of pd (PDX va) m \<Longrightarrow> PDX b = PDX va"
    using inv pr PDX_less unfolding pt_inv_def by blast
  ultimately show ?thesis
    using rd [OF B(1) [OF PDX_less, of b] PTX_less [of b]] e pr same_slot_iff [of b va]
    by (auto simp: entry_of_def p [OF PDX_less])
qed

lemma map_loop_ok:
  assumes "pt_inv pd m B" and "map_loop pd perm user as pa m = (0, m')" and "distinct as" and "\<forall>a \<in> set as. PGROUNDDOWN a = a"
  shows "\<exists>B'. pt_inv pd m' B' \<and> (\<forall>k < length as. entry_of pd (as ! k) m' = Some (PA2PTE (pa + of_nat k * PGSIZE) OR perm OR PTE_P))
    \<and> (\<forall>b. PGROUNDDOWN b \<notin> set as \<longrightarrow> entry_of pd b m' = entry_of pd b m)"
  using assms
proof (induction "as" arbitrary: pa m B)
  case (Cons a "as")
  obtain pte m1 where w: "walk pd a True user m = (Some pte, m1)"
    and l: "map_loop pd perm user as (pa + PGSIZE) (wr32 pte (PA2PTE pa OR perm OR PTE_P) m1) = (0, m')"
    using Cons.prems(2) by (auto split: prod.splits option.splits if_splits)
  obtain B1 where B1: "pt_inv pd m1 B1" "present pd (PDX a) m1" "pte = pt_of pd (PDX a) m1 + 4 * PTX a"
    "\<forall>b. entry_of pd b m1 = entry_of pd b m"
    using walk_ok [OF Cons.prems(1) w] by blast
  have e: "(PA2PTE pa OR perm OR PTE_P) AND PTE_P \<noteq> 0" by (simp add: PTE_P_def bit.conj_disj_distrib2 or_eq_0_iff)
  define m2 where "m2 = wr32 pte (PA2PTE pa OR perm OR PTE_P) m1"
  have m2: "pt_inv pd m2 B1" "entry_of pd b m2 = (if PGROUNDDOWN b = a then Some (PA2PTE pa OR perm OR PTE_P) else entry_of pd b m)" for b
    using set_entry_ok [OF B1(1,2) e, of b] B1(4) Cons.prems(4) by (simp_all add: m2_def B1(3))
  from Cons.IH [OF m2(1), of "pa + PGSIZE"] l Cons.prems(3,4) obtain B' where
    IH: "pt_inv pd m' B'" "\<forall>k < length as. entry_of pd (as ! k) m' = Some (PA2PTE (pa + PGSIZE + of_nat k * PGSIZE) OR perm OR PTE_P)"
      "\<forall>b. PGROUNDDOWN b \<notin> set as \<longrightarrow> entry_of pd b m' = entry_of pd b m2"
    unfolding m2_def [symmetric] by auto
  have "entry_of pd ((a # as) ! k) m' = Some (PA2PTE (pa + of_nat k * PGSIZE) OR perm OR PTE_P)" if "k < length (a # as)" for k
    using that IH(2,3) m2(2) Cons.prems(3,4) by (cases k) (auto simp: algebra_simps)
  then show ?case using IH(1,3) m2(2) by auto
qed auto

lemma page_aligned:
  assumes "unat va mod 4096 = 0" shows "unat (va + of_nat k * PGSIZE) mod 4096 = 0"
proof -
  have m: "unat (x + y) mod 4096 = (unat x + unat y) mod 4096" "unat (x * y) mod 4096 = (unat x * unat y) mod 4096" for x y :: u32
    by (simp_all add: unat_word_ariths mod_mod_cancel)
  have "unat (of_nat k * PGSIZE :: u32) mod 4096 = 0" unfolding m(2) by (simp add: PGSIZE_def)
  then show ?thesis using assms unfolding m(1) by (simp add: mod_add_eq [symmetric])
qed

lemma page_list_pages:
  assumes "unat va mod 4096 = 0" and "n \<le> 2 ^ 20"
  shows "distinct (page_list va n)" and "\<forall>a \<in> set (page_list va n). PGROUNDDOWN a = a"
proof -
  have k: "unat (of_nat k * PGSIZE :: u32) = 4096 * k" if "k < 2 ^ 20" for k
    using that by (simp add: PGSIZE_def unat_word_ariths unat_of_nat)
  have "inj_on (\<lambda>i. va + of_nat i * PGSIZE) {0..<n}"
  proof (rule inj_onI)
    fix i j assume ij: "i \<in> {0..<n}" "j \<in> {0..<n}" "va + of_nat i * PGSIZE = va + of_nat j * PGSIZE"
    then have "unat (of_nat i * PGSIZE :: u32) = unat (of_nat j * PGSIZE :: u32)" by simp
    moreover have "i < 2 ^ 20" "j < 2 ^ 20" using ij assms(2) by auto
    ultimately have "4096 * i = 4096 * j" by (simp only: k)
    then show "i = j" by simp
  qed
  then show "distinct (page_list va n)" by (simp add: page_list_def distinct_map)
  show "\<forall>a \<in> set (page_list va n). PGROUNDDOWN a = a"
    using PGROUNDDOWN_aligned [OF page_aligned [OF assms(1)]] by (auto simp: page_list_def)
qed

text \<open>An empty page directory on the small machine, with memory left for a table.\<close>

lemma demo_pgdir:
  "\<exists>pd m. pt_inv pd m {(pd, 0)} \<and> (\<forall>va. entry_of pd va m = None) \<and> pd \<noteq> 0 \<and> (\<exists>p m'. alloc_pages 0 m = (Some p, m'))"
proof -
  have own: "pmm_owns demo_pmm {}" using demo_pmm(2) by (auto simp: pmm_owns_def)
  have "\<exists>a s'. alloc_pages 0 demo_pmm = (Some a, s')"
    by (rule alloc_block_complete [OF demo_pmm(2), of _ 0]) (simp_all add: demo_pmm(3) block_ok_def MAX_ORDER_def)
  then obtain pd m where al: "alloc_pages 0 demo_pmm = (Some pd, m)" by blast
  obtain i where i: "pmm_inv m {(i, 0)}" "same_range demo_pmm m" "pd = page_to_addr i demo_pmm" "block_ok (unat (nr_pages demo_pmm)) (i, 0)"
    by (rule alloc_pages_Some [OF demo_pmm(2) al]) auto
  note a = pages.owns_alloc [OF own al]
  have np: "\<not> present pd i m" if "unat i < 1024" for i using rd32_fresh [OF own al that] by (simp add: present_def)
  have "\<exists>p m'. alloc_pages 0 m = (Some p, m')"
    by (rule alloc_block_complete [OF i(1), of _ "if i = 0 then 1 else 0"])
      (use i(2) demo_pmm(3) in \<open>auto simp: same_range_def block_ok_def MAX_ORDER_def pages_of_def\<close>)
  moreover have "pd \<noteq> 0"
  proof -
    have "pmm_geom demo_pmm" "i < unat (nr_pages demo_pmm)" using demo_pmm(2) i(4) by (simp_all add: pmm_inv_def block_ok_def)
    from unat_page_to_addr [OF this] have "unat pd \<noteq> 0" using i(3) by simp
    then show ?thesis by auto
  qed
  ultimately show ?thesis using a np PDX_less by (auto simp: pt_inv_def entry_of_def)
qed

section \<open>Properties\<close>

text \<open>C15: mapping user pages does what it says: when \<open>uvmmap\<close> succeeds, each page of the range translates to the
  frame at the same distance from \<open>pa\<close>, every other address translates as before, and the tables, those
  allocated on the way included, again form a well-formed tree.\<close>

theorem uvmmap_translates:
  assumes "pt_inv pd m B" and "uvmmap pd va pa sz perm m = (0, m')" and "perm AND 0xfffff000 = 0"
  shows "(\<exists>B'. pt_inv pd m' B')
    \<and> (\<forall>k < unat sz div 4096. walkaddr pd (va + of_nat k * PGSIZE) m' = P2V (pa + of_nat k * PGSIZE))
    \<and> (\<forall>b. (\<forall>k < unat sz div 4096. PGROUNDDOWN b \<noteq> va + of_nat k * PGSIZE) \<longrightarrow> walkaddr pd b m' = walkaddr pd b m)"
proof -
  have pd: "pd \<noteq> 0" and al: "unat va mod 4096 = 0" "unat pa mod 4096 = 0"
    and l: "map_loop pd (perm OR PTE_U) True (page_list va (unat sz div 4096)) pa m = (0, m')"
    using assms(2) by (auto simp: uvmmap_def mappages_def unat_mod PGSIZE_def unat_div unat_eq_0 [symmetric] split: if_splits)
  have n: "unat sz div 4096 \<le> 2 ^ 20" using unat_u32 [of sz] by (simp add: div_le_mono [of _ "2 ^ 32" 4096, simplified])
  obtain B' where B': "pt_inv pd m' B'"
    "\<forall>k < unat sz div 4096. entry_of pd (va + of_nat k * PGSIZE) m' = Some (PA2PTE (pa + of_nat k * PGSIZE) OR (perm OR PTE_U) OR PTE_P)"
    "\<forall>b. PGROUNDDOWN b \<notin> set (page_list va (unat sz div 4096)) \<longrightarrow> entry_of pd b m' = entry_of pd b m"
    using map_loop_ok [OF assms(1) l page_list_pages [OF al(1) n]] by (auto simp: page_list_def)
  have "walkaddr pd (va + of_nat k * PGSIZE) m' = P2V (pa + of_nat k * PGSIZE)" if k: "k < unat sz div 4096" for k
  proof -
    define e where "e = PA2PTE (pa + of_nat k * PGSIZE) OR (perm OR PTE_U OR PTE_P)"
    have "e AND PTE_U \<noteq> 0" by (simp add: e_def PTE_U_def PTE_P_def bit.conj_disj_distrib2 or_eq_0_iff)
    moreover have "PTE_ADDR e = pa + of_nat k * PGSIZE"
      unfolding e_def using assms(3) aligned_and [OF page_aligned [OF al(2)], of k]
      by (subst PTE_ADDR_flags) (simp_all add: PA2PTE_def PTE_U_def PTE_P_def bit.conj_disj_distrib2)
    moreover have "(va + of_nat k * PGSIZE) AND (PGSIZE - 1) = 0"
      using unat_and_pgmask [of "va + of_nat k * PGSIZE"] page_aligned [OF al(1), of k] by (simp add: unat_eq_0)
    ultimately show ?thesis using B'(2) k pd by (simp add: walkaddr_entry e_def or.assoc)
  qed
  moreover have "walkaddr pd b m' = walkaddr pd b m" if "\<forall>k < unat sz div 4096. PGROUNDDOWN b \<noteq> va + of_nat k * PGSIZE" for b
  proof -
    have "PGROUNDDOWN b \<notin> set (page_list va (unat sz div 4096))" using that by (auto simp: page_list_def)
    with B'(3) show ?thesis by (simp add: walkaddr_entry)
  qed
  ultimately show ?thesis using B'(1) by blast
qed

theorem uvmmap_translates_witness:
  "\<exists>pd m m'. uvmmap pd 0x400000 0x5000 0x1000 PTE_W m = (0, m') \<and> walkaddr pd 0x400000 m' = 0xC0005000"
proof -
  obtain pd m p m0 where d: "pt_inv pd m {(pd, 0)}" "\<forall>va. entry_of pd va m = None" "pd \<noteq> 0" "alloc_pages 0 m = (Some p, m0)"
    using demo_pgdir by blast
  have "fst (walk pd 0x400000 True True m) \<noteq> None" using d(4) by (auto simp: walk_def alloc_page_def Let_def)
  then obtain pte m1 where w: "walk pd 0x400000 True True m = (Some pte, m1)"
    by (cases "walk pd 0x400000 True True m") auto
  from walk_ok [OF d(1) w] d(2) have "rd32 pte m1 AND PTE_P = 0" by (auto simp: entry_of_def split: if_splits)
  then have "\<exists>m'. uvmmap pd 0x400000 0x5000 0x1000 PTE_W m = (0, m')"
    using d(3) w by (simp add: uvmmap_def mappages_def page_list_def PGSIZE_def)
  then obtain m' where u: "uvmmap pd 0x400000 0x5000 0x1000 PTE_W m = (0, m')" by blast
  from uvmmap_translates [OF d(1) u] have "walkaddr pd 0x400000 m' = P2V 0x5000" by (auto simp: PTE_W_def dest: spec [where x = 0])
  then have "walkaddr pd 0x400000 m' = 0xC0005000" by (simp add: P2V_def KERNBASE_def)
  with u show ?thesis by blast
qed

end
