(* ===== verification/Kprintf.thy ===== *)
theory Kprintf
  imports Prelude
begin

text \<open>
  Strings and formatted output: src/arch/x86/kernel/string.c, utils.c and printf.c.

  A C string is the list of its bytes before the terminating NUL, a null pointer is \<open>None\<close>. The kernel is
  built for a 32-bit machine, so \<open>long\<close> and the kernel's \<open>uint64\<close>, an \<open>unsigned long\<close>, have 32 bits and every
  argument of a variadic call is one 32-bit slot. Reading an argument that is missing or of the wrong kind is an
  error value, as is a field width that overflows an \<open>int\<close>.

  The formatter calls back \<open>put\<close> for each character. It is modelled for any \<open>put\<close> that transforms a state:
  the console, or the bounded buffer of \<open>snprintf\<close>. Bytes are written as numerals: 0x25 is the percent sign,
  0x2d the minus, 0x30 to 0x39 the digits, 0x61 to 0x66 the letters a to f.
\<close>

section \<open>Strings\<close>

definition hd0 :: "u8 list \<Rightarrow> u8" where
  "hd0 a = (case a of [] \<Rightarrow> 0 | x # _ \<Rightarrow> x)"

fun strcmp :: "u8 list \<Rightarrow> u8 list \<Rightarrow> int" where
  "strcmp a b =
     (case a of
        [] \<Rightarrow> 0 - int (unat (hd0 b))
      | x # a' \<Rightarrow> if b \<noteq> [] \<and> x = hd0 b then strcmp a' (tl b) else int (unat x) - int (unat (hd0 b)))"

fun strncmp :: "u8 list \<Rightarrow> u8 list \<Rightarrow> nat \<Rightarrow> int" where
  "strncmp a b 0 = 0"
| "strncmp a b (Suc n) =
     (case a of
        [] \<Rightarrow> 0 - int (unat (hd0 b))
      | x # a' \<Rightarrow> if b \<noteq> [] \<and> x = hd0 b then strncmp a' (tl b) n else int (unat x) - int (unat (hd0 b)))"

text \<open>\<open>strcpy\<close> and \<open>strncpy\<close> as the bytes they store from \<open>dst\<close> on.\<close>

definition strcpy :: "u8 list \<Rightarrow> u8 list" where
  "strcpy src = src @ [0]"

definition strncpy :: "u8 list \<Rightarrow> nat \<Rightarrow> u8 list" where
  "strncpy src n = take n src @ replicate (n - length src) 0"

definition strlen :: "u8 list option \<Rightarrow> nat" where
  "strlen s = (case s of None \<Rightarrow> 0 | Some bs \<Rightarrow> length bs)"

section \<open>Formatting\<close>

datatype va = VInt u32 | VStr "u8 list option"

definition va_int :: "va list \<Rightarrow> (u32 \<times> va list) kres" where
  "va_int ap = (case ap of VInt w # r \<Rightarrow> Inr (w, r) | _ \<Rightarrow> Inl ''va_arg'')"

definition va_str :: "va list \<Rightarrow> (u8 list option \<times> va list) kres" where
  "va_str ap = (case ap of VStr t # r \<Rightarrow> Inr (t, r) | _ \<Rightarrow> Inl ''va_arg'')"

definition digit :: "nat \<Rightarrow> u8" where
  "digit d = (if d < 10 then 0x30 + of_nat d else 0x57 + of_nat d)"

text \<open>The loop that fills \<open>buf\<close>, least significant digit first; the bases are 8, 10 and 16.\<close>

function digits_loop :: "nat \<Rightarrow> nat \<Rightarrow> u8 list" where
  "digits_loop b x = digit (x mod b) # (if 1 < b \<and> x div b \<noteq> 0 then digits_loop b (x div b) else [])"
  by pat_completeness auto
termination
  by (relation "measure snd") (auto intro!: div_less_dividend intro: Nat.gr0I)

declare digits_loop.simps [simp del] strcmp.simps [simp del]

definition pad_to :: "(u8 \<Rightarrow> 's \<Rightarrow> 's) \<Rightarrow> int \<Rightarrow> int \<Rightarrow> u8 \<Rightarrow> 's \<Rightarrow> 's" where
  "pad_to put width len pad s = fold put (replicate (nat (width - len)) pad) s"

definition printint_to :: "(u8 \<Rightarrow> 's \<Rightarrow> 's) \<Rightarrow> u32 \<Rightarrow> nat \<Rightarrow> bool \<Rightarrow> int \<Rightarrow> bool \<Rightarrow> 's \<Rightarrow> 's" where
  "printint_to put xx base sign width zeropad s =
     (let neg = (sign \<and> sint xx < 0);
          x = (if neg then - (xx + 1) + 1 else xx);
          buf = digits_loop base (unat x);
          len = int (length buf) + (if neg then 1 else 0);
          s1 = (if zeropad then pad_to put width len 0x30 (if neg then put 0x2d s else s)
                else let s0 = pad_to put width len 0x20 s in if neg then put 0x2d s0 else s0)
      in fold put (rev buf) s1)"

definition printlongint_to :: "(u8 \<Rightarrow> 's \<Rightarrow> 's) \<Rightarrow> u32 \<Rightarrow> nat \<Rightarrow> bool \<Rightarrow> int \<Rightarrow> bool \<Rightarrow> 's \<Rightarrow> 's" where
  "printlongint_to put xx base sign width zeropad s = printint_to put xx base sign width zeropad s"

fun ptr_loop :: "(u8 \<Rightarrow> 's \<Rightarrow> 's) \<Rightarrow> nat \<Rightarrow> u32 \<Rightarrow> 's \<Rightarrow> 's" where
  "ptr_loop put 0 x s = s"
| "ptr_loop put (Suc n) x s = ptr_loop put n (push_bit 4 x) (put (digit (unat (drop_bit 28 x))) s)"

definition printptr_to :: "(u8 \<Rightarrow> 's \<Rightarrow> 's) \<Rightarrow> u32 \<Rightarrow> 's \<Rightarrow> 's" where
  "printptr_to put x s = ptr_loop put 8 x (put 0x78 (put 0x30 s))"

text \<open>The field width: \<open>None\<close> when the format ends within it.\<close>

fun parse_width :: "int \<Rightarrow> u8 \<Rightarrow> u8 list \<Rightarrow> (int \<times> u8 \<times> u8 list) option kres" where
  "parse_width w c rest =
     (if 0x30 \<le> c \<and> c \<le> 0x39 then
        let w' = w * 10 + (int (unat c) - 0x30)
        in if 2 ^ 31 \<le> w' then Inl ''signed overflow''
           else (case rest of [] \<Rightarrow> Inr None | c' # rest' \<Rightarrow> parse_width w' c' rest')
      else Inr (Some (w, c, rest)))"

declare parse_width.simps [simp del]

text \<open>One conversion, after the width; the result is the rest of the format, of the arguments, and the state.\<close>

definition conversion :: "(u8 \<Rightarrow> 's \<Rightarrow> 's) \<Rightarrow> u8 \<Rightarrow> int \<Rightarrow> bool \<Rightarrow> u8 list \<Rightarrow> va list \<Rightarrow> 's \<Rightarrow> (u8 list \<times> va list \<times> 's) kres" where
  "conversion put c width zeropad rest ap s =
     (let int_conv = (\<lambda>base sign r. case va_int ap of
                         Inl e \<Rightarrow> Inl e | Inr (w, ap') \<Rightarrow> Inr (r, ap', printint_to put w base sign width zeropad s));
          long_conv = (\<lambda>base r. case va_int ap of
                         Inl e \<Rightarrow> Inl e | Inr (w, ap') \<Rightarrow> Inr (r, ap', printlongint_to put w base True width zeropad s))
      in if c = 0x63 then (case va_int ap of
                             Inl e \<Rightarrow> Inl e
                           | Inr (w, ap') \<Rightarrow> Inr (rest, ap', put (ucast w) (pad_to put width 1 0x20 s)))
      else if c = 0x6f then int_conv 8 True rest
      else if c = 0x64 \<or> c = 0x69 then int_conv 10 True rest
      else if c = 0x75 then int_conv 10 False rest
      else if c = 0x78 then int_conv 16 False rest
      else if c = 0x6c then
        (if hd0 rest = 0x64 then long_conv 10 (tl rest)
         else if hd0 rest = 0x78 then long_conv 16 (tl rest)
         else Inr (rest, ap, put c s))
      else if c = 0x70 then (case va_int ap of
                               Inl e \<Rightarrow> Inl e | Inr (w, ap') \<Rightarrow> Inr (rest, ap', printptr_to put w s))
      else if c = 0x73 then (case va_str ap of
                               Inl e \<Rightarrow> Inl e
                             | Inr (t, ap') \<Rightarrow>
                                 let bs = (case t of None \<Rightarrow> [0x28, 0x6e, 0x75, 0x6c, 0x6c, 0x29] | Some bs \<Rightarrow> bs)
                                 in Inr (rest, ap', fold put bs (pad_to put width (int (length bs)) 0x20 s)))
      else if c = 0x25 then Inr (rest, ap, put 0x25 s)
      else Inr (rest, ap, put c (put 0x25 s)))"

lemma parse_width_length:
  "parse_width w c rest = Inr (Some (w', c', rest')) \<Longrightarrow> length rest' \<le> length rest"
proof (induction rest arbitrary: w c)
  case Nil
  then show ?case by (simp add: parse_width.simps [of w c] Let_def split: if_splits)
next
  case (Cons d rest)
  from Cons.prems show ?case
    by (subst (asm) parse_width.simps [of w c]) (auto simp: Let_def split: if_splits dest!: Cons.IH)
qed

lemma conversion_length:
  "conversion put c width zeropad rest ap s = Inr (rest', ap', s') \<Longrightarrow> length rest' \<le> length rest"
  by (auto simp: conversion_def Let_def split: if_splits sum.splits prod.splits)

text \<open>What follows a percent sign up to the conversion character; \<open>None\<close> when the format ends there.\<close>

definition parse_spec :: "u8 list \<Rightarrow> (bool \<times> int \<times> u8 \<times> u8 list) option kres" where
  "parse_spec fmt =
     (case fmt of
        [] \<Rightarrow> Inr None
      | c # rest \<Rightarrow>
          if c = 0x30 \<and> rest = [] then Inr None
          else let zeropad = (c = 0x30)
               in case (if zeropad then parse_width 0 (hd rest) (tl rest) else parse_width 0 c rest) of
                    Inl e \<Rightarrow> Inl e
                  | Inr None \<Rightarrow> Inr None
                  | Inr (Some (width, c', rest')) \<Rightarrow> Inr (Some (zeropad, width, c', rest')))"

lemma parse_spec_length: "parse_spec fmt = Inr (Some (z, w, c, rest)) \<Longrightarrow> length rest < length fmt"
  by (auto simp: parse_spec_def Let_def split: list.splits if_splits sum.splits option.splits dest!: parse_width_length)

function vprintf_to :: "(u8 \<Rightarrow> 's \<Rightarrow> 's) \<Rightarrow> u8 list \<Rightarrow> va list \<Rightarrow> 's \<Rightarrow> 's kres" where
  "vprintf_to put [] ap s = Inr s"
| "vprintf_to put (c # rest) ap s =
     (if c \<noteq> 0x25 then vprintf_to put rest ap (put c s)
      else case parse_spec rest of
             Inl e \<Rightarrow> Inl e
           | Inr None \<Rightarrow> Inr s
           | Inr (Some (zeropad, width, c', rest')) \<Rightarrow>
               (case conversion put c' width zeropad rest' ap s of
                  Inl e \<Rightarrow> Inl e
                | Inr (rest'', ap', s') \<Rightarrow> vprintf_to put rest'' ap' s'))"
  by pat_completeness auto
termination
  by (relation "measure (\<lambda>(put, fmt, ap, s). length fmt)") (auto dest!: parse_spec_length conversion_length)

text \<open>The buffer of \<open>snprintf\<close>: offsets from \<open>buf\<close>, \<open>None\<close> for a null pointer.\<close>

record snbuf =
  sn_buf :: "(nat \<Rightarrow> u8) option"
  sn_size :: u32
  sn_len :: u32

definition sn_putc :: "u8 \<Rightarrow> snbuf \<Rightarrow> snbuf" where
  "sn_putc c b =
     (let b1 = (case sn_buf b of
                  Some m \<Rightarrow> if 0 < sn_size b \<and> sn_len b + 1 < sn_size b
                            then b\<lparr>sn_buf := Some (m(unat (sn_len b) := c))\<rparr> else b
                | None \<Rightarrow> b)
      in b1\<lparr>sn_len := sn_len b + 1\<rparr>)"

definition vsnprintf :: "(nat \<Rightarrow> u8) option \<Rightarrow> u32 \<Rightarrow> u8 list option \<Rightarrow> va list \<Rightarrow> (int \<times> (nat \<Rightarrow> u8) option) kres" where
  "vsnprintf buf sz fmt ap =
     (case fmt of
        None \<Rightarrow> Inl ''null fmt''
      | Some f \<Rightarrow>
          (case vprintf_to sn_putc f ap \<lparr>sn_buf = buf, sn_size = sz, sn_len = 0\<rparr> of
             Inl e \<Rightarrow> Inl e
           | Inr b \<Rightarrow>
               Inr (sint (sn_len b),
                 (case sn_buf b of
                    None \<Rightarrow> None
                  | Some m \<Rightarrow>
                      if 0 < sz then
                        (if sn_len b < sz then Some (m(unat (sn_len b) := 0)) else Some (m(unat (sz - 1) := 0)))
                      else Some m))))"

definition vsprintf :: "(nat \<Rightarrow> u8) option \<Rightarrow> u8 list option \<Rightarrow> va list \<Rightarrow> (int \<times> (nat \<Rightarrow> u8) option) kres" where
  "vsprintf buf fmt ap = vsnprintf buf (- 1) fmt ap"

definition LOGLEVEL_INFO :: nat where "LOGLEVEL_INFO = 6"

definition printk_get_level :: "u8 list \<Rightarrow> nat \<times> u8 list" where
  "printk_get_level fmt =
     (case fmt of
        a # n # z # r \<Rightarrow> if a = 0x3c \<and> 0x30 \<le> n \<and> n \<le> 0x37 \<and> z = 0x3e then (unat n - 0x30, r) else (LOGLEVEL_INFO, fmt)
      | _ \<Rightarrow> (LOGLEVEL_INFO, fmt))"

text \<open>\<open>printk\<close> on a console that \<open>put\<close> writes to, with the level \<open>console_loglevel\<close>.\<close>

definition printk :: "(u8 \<Rightarrow> 's \<Rightarrow> 's) \<Rightarrow> nat \<Rightarrow> u8 list option \<Rightarrow> va list \<Rightarrow> 's \<Rightarrow> 's kres" where
  "printk put loglevel fmt ap s =
     (case fmt of
        None \<Rightarrow> Inr s
      | Some f \<Rightarrow>
          (case printk_get_level f of
             (level, f') \<Rightarrow> if loglevel < level then Inr s else vprintf_to put f' ap s))"


section \<open>The characters of a call\<close>

text \<open>With \<open>app\<close> for \<open>put\<close> a call returns the characters it puts out, in order.\<close>

definition app :: "u8 \<Rightarrow> u8 list \<Rightarrow> u8 list" where
  "app c out = out @ [c]"

lemma fold_app [simp]: "fold app cs out = out @ cs"
  by (induction cs arbitrary: out) (simp_all add: app_def)

lemma pad_to_chars: "pad_to put width len pad s = fold put (pad_to app width len pad []) s"
  by (simp add: pad_to_def del: fold_replicate)

lemma printint_chars: "printint_to put xx base sign width zeropad s = fold put (printint_to app xx base sign width zeropad []) s"
  by (simp add: printint_to_def Let_def pad_to_def app_def del: fold_replicate)

lemma ptr_loop_app: "ptr_loop app n x out = out @ ptr_loop app n x []"
proof (induction n arbitrary: x out)
  case (Suc n)
  let ?d = "digit (unat (drop_bit 28 x))"
  show ?case using Suc.IH [of "push_bit 4 x" "app ?d out"] Suc.IH [of "push_bit 4 x" "app ?d []"] by (simp add: app_def)
qed simp

lemma ptr_loop_chars: "ptr_loop put n x s = fold put (ptr_loop app n x []) s"
proof (induction n arbitrary: x s)
  case (Suc n)
  let ?d = "digit (unat (drop_bit 28 x))"
  show ?case using Suc.IH [of "push_bit 4 x" "put ?d s"] ptr_loop_app [of n "push_bit 4 x" "app ?d []"]
    by (simp add: app_def [of ?d "[]"])
qed simp

lemma printptr_chars: "printptr_to put x s = fold put (printptr_to app x []) s"
  using ptr_loop_chars [of put 8 x "put 0x78 (put 0x30 s)"] ptr_loop_app [of 8 x "app 0x78 (app 0x30 [])"]
  unfolding printptr_to_def by (simp add: app_def [of _ "[]"] app_def [of _ "[_]"] del: ptr_loop.simps)

lemma conversion_chars:
  "conversion put c width zeropad rest ap s =
     (case conversion app c width zeropad rest ap [] of
        Inl e \<Rightarrow> Inl e | Inr (r, a, out) \<Rightarrow> Inr (r, a, fold put out s))"
  unfolding conversion_def Let_def printlongint_to_def printint_chars [of put] printptr_chars [of put] pad_to_chars [of put]
  by (auto simp: app_def split: sum.splits)

text \<open>The state at the end depends on the characters only, whatever \<open>put\<close> is.\<close>

abbreviation chars :: "u8 list \<Rightarrow> va list \<Rightarrow> u8 list kres" where
  "chars fmt ap \<equiv> vprintf_to app fmt ap []"

lemma vprintf_step:
  assumes app: "\<And>r a out. length r < length fmt \<Longrightarrow>
      vprintf_to app r a out = (case chars r a of Inl e \<Rightarrow> Inl e | Inr cs \<Rightarrow> Inr (out @ cs))"
    and put: "\<And>r a s'. length r < length fmt \<Longrightarrow>
      vprintf_to put r a s' = (case chars r a of Inl e \<Rightarrow> Inl e | Inr cs \<Rightarrow> Inr (fold put cs s'))"
  shows "vprintf_to put fmt ap s = (case chars fmt ap of Inl e \<Rightarrow> Inl e | Inr cs \<Rightarrow> Inr (fold put cs s))"
proof (cases fmt)
  case (Cons c rest)
  consider (plain) "c \<noteq> 0x25" | (stop) "c = 0x25" "\<nexists>z w c' r. parse_spec rest = Inr (Some (z, w, c', r))"
    | (spec) z w c' r where "c = 0x25" "parse_spec rest = Inr (Some (z, w, c', r))" by blast
  then show ?thesis
  proof cases
    case plain
    then show ?thesis
      using put [of rest ap "put c s"] app [of rest ap "app c []"] Cons by (simp add: app_def [of c] split: sum.splits)
  next
    case stop
    then show ?thesis using Cons by (auto split: sum.splits option.splits)
  next
    case spec
    note cc = conversion_chars [of put c' w z r ap s]
    show ?thesis
    proof (cases "conversion app c' w z r ap []")
      case (Inl e)
      then show ?thesis using Cons spec cc by simp
    next
      case (Inr t)
      obtain r' ap' cs where t: "t = (r', ap', cs)" by (cases t)
      have l: "length r' < length fmt"
        using conversion_length [OF Inr [unfolded t]] parse_spec_length [OF spec(2)] Cons by simp
      show ?thesis
        using put [OF l, of ap' "fold put cs s"] app [OF l, of ap' cs] Cons spec cc Inr t by (simp split: sum.splits)
    qed
  qed
qed simp

lemma vprintf_app:
  "vprintf_to app fmt ap out = (case chars fmt ap of Inl e \<Rightarrow> Inl e | Inr cs \<Rightarrow> Inr (out @ cs))"
proof (induction "length fmt" arbitrary: fmt ap out rule: less_induct)
  case less
  show ?case by (rule vprintf_step [of fmt app ap out, unfolded fold_app]) (rule less, assumption)+
qed

lemma vprintf_chars:
  "vprintf_to put fmt ap s = (case chars fmt ap of Inl e \<Rightarrow> Inl e | Inr cs \<Rightarrow> Inr (fold put cs s))"
proof (induction "length fmt" arbitrary: fmt ap s rule: less_induct)
  case less
  then show ?case using vprintf_step [of fmt put] vprintf_app by blast
qed

section \<open>The bounded buffer\<close>

lemma fold_sn_putc:
  assumes "length cs < 2 ^ 32"
  shows "fold sn_putc cs \<lparr>sn_buf = Some m, sn_size = sz, sn_len = 0\<rparr> =
    \<lparr>sn_buf = Some (\<lambda>i. if i < length cs \<and> i + 1 < unat sz then cs ! i else m i), sn_size = sz, sn_len = of_nat (length cs)\<rparr>"
  using assms
proof (induction cs rule: rev_induct)
  case (snoc c cs)
  have l: "unat (of_nat (length cs) :: u32) = length cs" "unat (of_nat (length cs) + 1 :: u32) = length cs + 1 \<or> length cs + 1 = 2 ^ 32"
    using snoc.prems by (simp_all add: unat_of_nat unat_word_ariths)
  then have w: "of_nat (length cs) + 1 < sz \<longleftrightarrow> length cs + 1 < unat sz"
    using snoc.prems by (auto simp: word_less_nat_alt)
  show ?case
    using snoc l(1) w by (auto simp: sn_putc_def Let_def fun_eq_iff nth_append word_less_nat_alt)
qed simp

section \<open>Numbers\<close>

text \<open>Reading back: \<open>undigit\<close> inverts \<open>digit\<close>, \<open>read_nat\<close> a numeral in a base, \<open>read_int\<close> skips blanks and takes a sign.\<close>

definition undigit :: "u8 \<Rightarrow> nat" where
  "undigit c = (if c < 0x3a then unat c - 0x30 else unat c - 0x57)"

definition read_nat :: "nat \<Rightarrow> u8 list \<Rightarrow> nat" where
  "read_nat b cs = foldl (\<lambda>n c. n * b + undigit c) 0 cs"

definition read_int :: "nat \<Rightarrow> u8 list \<Rightarrow> int" where
  "read_int b cs =
     (let ds = dropWhile (\<lambda>c. c = 0x20) cs
      in if hd0 ds = 0x2d then - int (read_nat b (tl ds)) else int (read_nat b ds))"

lemma undigit_digit: "d < 16 \<Longrightarrow> undigit (digit d) = d \<and> digit d \<noteq> 0x20 \<and> digit d \<noteq> 0x2d"
proof -
  assume "d < 16"
  then have "d \<in> set [0..<16]" by simp
  moreover have "\<forall>d \<in> set [0..<16]. undigit (digit d) = d \<and> digit d \<noteq> 0x20 \<and> digit d \<noteq> 0x2d"
    by (simp add: upt_rec undigit_def digit_def)
  ultimately show ?thesis by blast
qed

lemma read_nat_snoc: "read_nat b (cs @ [c]) = read_nat b cs * b + undigit c"
  by (simp add: read_nat_def)

lemma read_digits:
  assumes "1 < b" and "b \<le> 16"
  shows "read_nat b (rev (digits_loop b x)) = x \<and> set (digits_loop b x) \<subseteq> digit ` {..<16}"
proof (induction x rule: less_induct)
  case (less x)
  have m: "x mod b < 16" using assms mod_less_divisor [of b x] by linarith
  show ?case
  proof (cases "x div b = 0")
    case True
    then show ?thesis using assms m undigit_digit [OF m]
      by (auto simp: digits_loop.simps [of b x] read_nat_def div_eq_0_iff)
  next
    case False
    have "x div b < x" using False assms by (intro div_less_dividend) (auto intro: Nat.gr0I)
    from less [OF this] show ?thesis
      using False assms m undigit_digit [OF m] by (auto simp: digits_loop.simps [of b x] read_nat_snoc)
  qed
qed

lemma length_digits: "1 < b \<Longrightarrow> 0 < k \<Longrightarrow> x < b ^ k \<Longrightarrow> length (digits_loop b x) \<le> k"
proof (induction k arbitrary: x)
  case (Suc k)
  show ?case
  proof (cases "x div b = 0")
    case True
    then show ?thesis by (simp add: digits_loop.simps [of b x])
  next
    case False
    have k: "x div b < b ^ k" using Suc.prems by (simp add: less_mult_imp_div_less mult.commute)
    with False have "0 < k" by (cases k) auto
    with Suc.IH [OF Suc.prems(1) this k] Suc.prems False show ?thesis by (simp add: digits_loop.simps [of b x])
  qed
qed simp

lemma read_nat_zeros: "read_nat b (replicate n 0x30 @ ds) = read_nat b ds"
  by (induction n) (simp_all add: read_nat_def undigit_def)

lemma read_int_plain:
  assumes "ds \<noteq> []" and "set ds \<subseteq> digit ` {..<16}"
  shows "read_int b (replicate n 0x20 @ ds) = int (read_nat b ds)"
    and "read_int b (replicate n 0x20 @ 0x2d # ds) = - int (read_nat b ds)"
proof -
  have "hd ds \<in> digit ` {..<16}" using assms by (cases ds) auto
  then have "hd ds \<noteq> 0x20" "hd ds \<noteq> 0x2d" using undigit_digit by auto
  then show "read_int b (replicate n 0x20 @ ds) = int (read_nat b ds)"
    and "read_int b (replicate n 0x20 @ 0x2d # ds) = - int (read_nat b ds)"
    using assms(1) by (cases ds; induction n; simp add: read_int_def hd0_def)+
qed

lemma uint_u32: "uint (w :: u32) < 2 ^ 32"
proof -
  have "int (unat w) < int (2 ^ 32)" using unat_u32 [of w] by (simp only: of_nat_less_iff)
  then show ?thesis by simp
qed

lemma sint_u32: "sint (w :: u32) = (if unat w < 2 ^ 31 then int (unat w) else int (unat w) - 2 ^ 32)"
proof -
  have "sint w = (int (unat w) + 2 ^ 31) mod 2 ^ 32 - 2 ^ 31" using int_word_sint [where 'a = 32, of "uint w"] by simp
  moreover have "unat w < 2 ^ 31 \<longleftrightarrow> uint w < 2 ^ 31"
    by (simp only: of_nat_less_iff [where 'a = int, symmetric] uint_nat) simp
  moreover have "(uint w + 2 ^ 31) mod 2 ^ 32 = (if uint w < 2 ^ 31 then uint w + 2 ^ 31 else uint w - 2 ^ 31)"
    using uint_u32 [of w] by (auto simp: mod_pos_pos_trivial mod_pos_geq)
  ultimately show ?thesis by simp
qed

lemma unat_neg: "sint (xx :: u32) < 0 \<Longrightarrow> int (unat (- (xx + 1) + 1)) = - sint xx"
proof -
  assume n: "sint xx < 0"
  have "- (xx + 1) + 1 = - xx" by simp
  moreover have "unat xx \<noteq> 0" "sint xx = int (unat xx) - 2 ^ 32" using n by (auto simp: sint_u32 split: if_splits)
  moreover have "uint (- xx) = (- uint xx) mod 2 ^ 32" by (simp add: uint_word_ariths)
  ultimately show ?thesis using uint_u32 [of xx] by (auto simp: zmod_zminus1_eq_if uint_0_iff)
qed

section \<open>Properties\<close>

text \<open>C29: \<open>vsnprintf\<close> agrees with unbounded output and stays in its buffer: it returns the number of characters
  that the format and the arguments give, stores as many of them as fit, always with a terminating NUL,
  and touches no byte beyond; with size 0 it stores nothing.\<close>

theorem vsnprintf_bounded:
  assumes "vprintf_to app fmt ap [] = Inr cs" and "length cs < 2 ^ 31"
  shows "\<exists>m'. vsnprintf (Some m) sz (Some fmt) ap = Inr (int (length cs), Some m')
    \<and> (if sz = 0 then m' = m
       else \<forall>i. m' i = (if i < min (length cs) (unat sz - 1) then cs ! i
                        else if i = min (length cs) (unat sz - 1) then 0 else m i))"
proof -
  have l: "unat (of_nat (length cs) :: u32) = length cs" "sint (of_nat (length cs) :: u32) = int (length cs)"
    using assms(2) by (simp_all add: unat_of_nat sint_u32)
  show ?thesis
  proof (cases "sz = 0")
    case True
    then show ?thesis using assms l by (simp add: vsnprintf_def vprintf_chars [of sn_putc] fold_sn_putc)
  next
    case False
    then have z: "0 < unat sz" "unat (sz - 1) = unat sz - 1" by (simp_all add: unat_gt_0 unat_minus_one)
    then show ?thesis
      using assms l False by (auto simp: vsnprintf_def vprintf_chars [of sn_putc] fold_sn_putc word_less_nat_alt min_def)
  qed
qed

text \<open>\<open>''%3d''\<close> of -5, and room for three bytes: blank, minus and the NUL.\<close>

theorem vsnprintf_bounded_witness:
  "\<exists>m'. vsnprintf (Some (\<lambda>_. 0xff)) 3 (Some [0x25, 0x33, 0x64]) [VInt (- 5)] = Inr (3, Some m')
    \<and> m' 0 = 0x20 \<and> m' 1 = 0x2d \<and> m' 2 = 0 \<and> m' 3 = 0xff"
proof -
  have d: "digits_loop 10 5 = [0x35]" by (simp add: digits_loop.simps digit_def)
  have "printint_to app (- 5) 10 True 3 False [] = [0x20, 0x2d, 0x35]"
    by (simp add: printint_to_def pad_to_def d app_def)
  moreover have "parse_spec [0x33, 0x64] = Inr (Some (False, 3, 0x64, []))"
    by (simp add: parse_spec_def parse_width.simps)
  ultimately have "vprintf_to app [0x25, 0x33, 0x64] [VInt (- 5)] [] = Inr [0x20, 0x2d, 0x35]"
    by (simp add: conversion_def va_int_def)
  from vsnprintf_bounded [OF this, of "\<lambda>_. 0xff" 3] show ?thesis by fastforce
qed

text \<open>Numbers are printed so that they can be read back: in each of the bases 8, 10 and 16 the characters of
  a number, after blanks and with the sign, denote its value, also for the smallest \<open>int\<close>; they fill the
  field width and the digits never exceed the 16 bytes of the buffer they are collected in.\<close>

theorem printint_roundtrip:
  assumes "base \<in> {8, 10, 16}"
  shows "read_int base (printint_to app xx base sign width zeropad []) = (if sign then sint xx else uint xx)
    \<and> width \<le> int (length (printint_to app xx base sign width zeropad []))
    \<and> length (digits_loop base (unat (x :: u32))) \<le> 16"
proof -
  have b: "1 < base" "base \<le> 16" using assms by auto
  define neg where "neg = (sign \<and> sint xx < 0)"
  define x where "x = (if neg then - (xx + 1) + 1 else xx)"
  define ds where "ds = rev (digits_loop base (unat x))"
  have ds: "read_nat base ds = unat x" "ds \<noteq> []" "set ds \<subseteq> digit ` {..<16}"
    using read_digits [OF b, of "unat x"] by (auto simp: ds_def digits_loop.simps [of base "unat x"])
  have v: "(if neg then - int (unat x) else int (unat x)) = (if sign then sint xx else uint xx)"
    using unat_neg [of xx] uint_u32 [of xx] by (auto simp: neg_def x_def sint_u32)
  define n where "n = nat (width - (int (length ds) + (if neg then 1 else 0)))"
  have out: "printint_to app xx base sign width zeropad [] =
    (if zeropad then (if neg then [0x2d] else []) @ replicate n 0x30 @ ds
     else replicate n 0x20 @ (if neg then [0x2d] else []) @ ds)"
    by (simp add: printint_to_def Let_def pad_to_def ds_def n_def neg_def x_def app_def [of _ "[]"] app_def [of _ "replicate _ _"]
        del: fold_replicate)
  have z: "replicate n 0x30 @ ds \<noteq> []" "set (replicate n 0x30 @ ds) \<subseteq> digit ` {..<16}"
    using ds(2,3) by (auto simp: digit_def image_iff intro!: bexI [of _ 0])
  have "read_int base (printint_to app xx base sign width zeropad []) = (if neg then - int (unat x) else int (unat x))"
    using read_int_plain [OF ds(2,3), of base n] read_int_plain [OF z, of base 0] ds(1)
    by (simp add: out read_nat_zeros)
  moreover have "width \<le> int (length (printint_to app xx base sign width zeropad []))" by (simp add: out n_def)
  moreover have "2 ^ 32 \<le> base ^ 16" using assms by auto
  ultimately show ?thesis using v length_digits [OF b(1)] unat_u32 by (metis less_le_trans zero_less_numeral)
qed

theorem printint_roundtrip_witness:
  "read_int 10 (printint_to app 0x80000000 10 True 0 False []) = - 2147483648"
  using printint_roundtrip [of 10 "0x80000000" True 0 False] by (simp add: sint_u32)

end
