(* ===== verification/Vfs.thy ===== *)
theory Vfs
  imports Pipe Kprintf
begin

text \<open>
  Inodes and directories: src/arch/x86/kernel/fs/inode.c, dcache.c and super.c, the inodes of pipes in
  fs/pipe.c, and the back end of the root file system, fs/ramfs/inode.c.

  A pointer to an inode is its number: the inodes of ramfs come first, then those of pipes; the
  inodes of ext2 and procfs are not modelled. The singly linked list of directory entries is a list of
  entries with their addresses on the heap. The contents of a file are bytes of kernel memory at
  \<open>i_data\<close>, which is 0 for a null pointer. Entries, contents and pipes are allocated from the kernel heap.
  Names are lists of bytes without the terminating NUL.
\<close>

section \<open>Sequencing of steps that may panic\<close>

definition kbind :: "'a kres \<Rightarrow> ('a \<Rightarrow> 'b kres) \<Rightarrow> 'b kres" where
  "kbind m f = (case m of Inl e \<Rightarrow> Inl e | Inr x \<Rightarrow> f x)"

lemma kbind_simps [simp]: "kbind (Inl e) f = Inl e" "kbind (Inr x) f = f x"
  by (simp_all add: kbind_def)

lemma kbind_Inr_iff: "kbind m f = Inr y \<longleftrightarrow> (\<exists>x. m = Inr x \<and> f x = Inr y)"
  by (cases m) auto

section \<open>State\<close>

definition NINODE :: nat where "NINODE = 64"
definition NPIPE :: nat where "NPIPE = 32"
definition NFILE :: nat where "NFILE = 64"
definition NAME_MAX :: nat where "NAME_MAX = 27"
definition DIRSIZ :: nat where "DIRSIZ = NAME_MAX + 1"
definition TIMER_HZ :: u32 where "TIMER_HZ = 100"
definition VFS_DEF_FILE_MODE :: u32 where "VFS_DEF_FILE_MODE = 0x1a4"
definition VFS_DEF_DIR_MODE :: u32 where "VFS_DEF_DIR_MODE = 0x1ed"

text \<open>The types of inodes; \<open>T_NONE\<close> is the value 0 of a free one.\<close>

datatype inode_type = T_NONE | T_DIR | T_FILE | T_CHAR | T_BLK | T_FIFO | T_LNK

datatype inode_operations = Ramfs_iops | Pipe_iops

record dentry =
  de_at :: u32
  de_name :: "u8 list"
  de_ip :: nat

record inode =
  inum :: u32
  i_type :: inode_type
  rdev :: u32
  i_ref :: u32
  i_size :: u32
  i_mode :: u32
  nlink :: u32
  i_uid :: u32
  i_gid :: u32
  i_atime :: u32
  i_mtime :: u32
  i_ctime :: u32
  i_data :: u32
  i_pipe :: u32
  dents :: "dentry list"
  i_parent :: "nat option"
  i_name :: "u8 list"
  i_op :: "inode_operations option"

definition zero_inode :: inode where
  "zero_inode = \<lparr>inum = 0, i_type = T_NONE, rdev = 0, i_ref = 0, i_size = 0, i_mode = 0, nlink = 0, i_uid = 0, i_gid = 0,
     i_atime = 0, i_mtime = 0, i_ctime = 0, i_data = 0, i_pipe = 0, dents = [], i_parent = None, i_name = [], i_op = None\<rparr>"

datatype file_type = FD_NONE | FD_INODE | FD_CHAR | FD_BLOCK

record open_file =
  f_type :: file_type
  f_ref :: int
  f_readable :: bool
  f_writable :: bool
  f_flags :: u32
  f_flock :: u32
  f_ip :: "nat option"
  f_off :: u32

record vfs = pipesys +
  inodes :: "nat \<Rightarrow> inode"
  ftable :: "nat \<Rightarrow> open_file"
  vfs_root_inode :: "nat option"
  pipe_next_inum :: u32

definition upd_inode :: "nat \<Rightarrow> (inode \<Rightarrow> inode) \<Rightarrow> 'z vfs_scheme \<Rightarrow> 'z vfs_scheme" where
  "upd_inode i f s = s\<lparr>inodes := (inodes s)(i := f (inodes s i))\<rparr>"

lemma upd_inode_simps [simp]:
  "inodes (upd_inode i f s) j = (if j = i then f (inodes s i) else inodes s j)"
  "ftable (upd_inode i f s) = ftable s" "vfs_root_inode (upd_inode i f s) = vfs_root_inode s"
  "pipe_next_inum (upd_inode i f s) = pipe_next_inum s" "pipes (upd_inode i f s) = pipes s"
  "ptab (upd_inode i f s) = ptab s" "rq (upd_inode i f s) = rq s" "kmem (upd_inode i f s) = kmem s" "kslab (upd_inode i f s) = kslab s"
  "ticks (upd_inode i f s) = ticks s" "cpus (upd_inode i f s) = cpus s" "heap_of (upd_inode i f s) = heap_of s"
  by (simp_all add: upd_inode_def heap_of_def)

definition do_kmalloc :: "u32 \<Rightarrow> 'z sched_scheme \<Rightarrow> (u32 option \<times> 'z sched_scheme) kres" where
  "do_kmalloc sz s = (case kmalloc sz (heap_of s) of Inl e \<Rightarrow> Inl e | Inr (p, h) \<Rightarrow> Inr (p, set_heap h s))"

definition do_kfree :: "u32 \<Rightarrow> 'z sched_scheme \<Rightarrow> 'z sched_scheme kres" where
  "do_kfree a s = (case kfree a (heap_of s) of Inl e \<Rightarrow> Inl e | Inr h \<Rightarrow> Inr (set_heap h s))"

section \<open>Inodes\<close>

definition vfs_now_sec :: "'z sched_scheme \<Rightarrow> u32" where
  "vfs_now_sec s = ticks s div TIMER_HZ"

definition fs_inode_init_meta :: "nat \<Rightarrow> inode_type \<Rightarrow> u32 \<Rightarrow> 'z vfs_scheme \<Rightarrow> 'z vfs_scheme" where
  "fs_inode_init_meta ip ty mode s =
     upd_inode ip (\<lambda>x. x\<lparr>i_type := ty, i_mode := mode AND 0xfff, nlink := (if ty = T_DIR then 2 else 1), i_uid := 0, i_gid := 0,
       i_atime := vfs_now_sec s, i_mtime := vfs_now_sec s, i_ctime := vfs_now_sec s\<rparr>) s"

definition fs_inode_touch :: "nat \<Rightarrow> bool \<Rightarrow> bool \<Rightarrow> 'z vfs_scheme \<Rightarrow> 'z vfs_scheme" where
  "fs_inode_touch ip set_mtime set_atime s =
     (let now = vfs_now_sec s;
          s1 = (if set_atime then upd_inode ip (\<lambda>x. x\<lparr>i_atime := now\<rparr>) s else s)
      in if set_mtime then upd_inode ip (\<lambda>x. x\<lparr>i_mtime := now, i_ctime := now\<rparr>) s1 else s1)"

definition fs_idup :: "nat \<Rightarrow> 'z vfs_scheme \<Rightarrow> 'z vfs_scheme" where
  "fs_idup ip s = upd_inode ip (\<lambda>x. x\<lparr>i_ref := i_ref x + 1\<rparr>) s"

definition pipe_evict :: "nat \<Rightarrow> 'z vfs_scheme \<Rightarrow> 'z vfs_scheme kres" where
  "pipe_evict ip s =
     kbind (if i_pipe (inodes s ip) \<noteq> 0 then do_kfree (i_pipe (inodes s ip)) s else Inr s)
       (\<lambda>s1. Inr (upd_inode ip (\<lambda>x. x\<lparr>i_pipe := 0, i_type := T_NONE, i_op := None, i_size := 0, inum := 0\<rparr>) s1))"

text \<open>
  \<open>fs_iput\<close> and \<open>ramfs_evict\<close> call each other: dropping the last reference to a directory drops those its
  entries hold. The work still to do after each call is kept as a list: an \<open>fs_iput\<close>, the \<open>kfree\<close> of an entry
  after it, the end of \<open>ramfs_evict\<close>.
\<close>

datatype iwork = IPut nat | IKfree u32 | IClear nat

definition evict_clear :: "nat \<Rightarrow> 'z vfs_scheme \<Rightarrow> 'z vfs_scheme" where
  "evict_clear ip s =
     upd_inode ip (\<lambda>x. x\<lparr>dents := [], i_parent := None, i_name := [], i_op := None, rdev := 0, i_type := T_NONE, i_size := 0, inum := 0\<rparr>) s"

definition ramfs_evict :: "nat \<Rightarrow> 'z vfs_scheme \<Rightarrow> (iwork list \<times> 'z vfs_scheme) kres" where
  "ramfs_evict ip s =
     kbind (if i_data (inodes s ip) \<noteq> 0 then do_kfree (i_data (inodes s ip)) s else Inr s)
       (\<lambda>s1. Inr (concat (map (\<lambda>d. [IPut (de_ip d), IKfree (de_at d)]) (dents (inodes s ip))) @ [IClear ip],
                 upd_inode ip (\<lambda>x. x\<lparr>i_data := 0\<rparr>) s1))"

text \<open>One step of the work list; pointers range over the two tables of inodes.\<close>

definition iput_step :: "iwork \<Rightarrow> 'z vfs_scheme \<Rightarrow> (iwork list \<times> 'z vfs_scheme) kres" where
  "iput_step w s =
     (case w of
        IPut ip \<Rightarrow>
          if NINODE + NPIPE \<le> ip then Inl ''bad inode pointer''
          else if i_ref (inodes s ip) = 0 then Inl ''fs_iput''
          else let s1 = upd_inode ip (\<lambda>x. x\<lparr>i_ref := i_ref x - 1\<rparr>) s
               in if i_ref (inodes s1 ip) = 0 \<and> Some ip \<noteq> vfs_root_inode s1 then
                    (case i_op (inodes s1 ip) of
                       None \<Rightarrow> Inr ([], s1)
                     | Some Ramfs_iops \<Rightarrow> ramfs_evict ip s1
                     | Some Pipe_iops \<Rightarrow> kbind (pipe_evict ip s1) (\<lambda>s2. Inr ([], s2)))
                  else Inr ([], s1)
      | IKfree a \<Rightarrow> kbind (do_kfree a s) (\<lambda>s1. Inr ([], s1))
      | IClear ip \<Rightarrow> Inr ([], evict_clear ip s))"

definition total_refs :: "'z vfs_scheme \<Rightarrow> nat" where
  "total_refs s = (\<Sum>i < NINODE + NPIPE. unat (i_ref (inodes s i)))"

lemma set_heap_inodes [simp]:
  "inodes (set_heap h s) = inodes s" "ftable (set_heap h s) = ftable s" "vfs_root_inode (set_heap h s) = vfs_root_inode s"
  "pipes (set_heap h s) = pipes s" "pipe_next_inum (set_heap h s) = pipe_next_inum s"
  by (simp_all add: set_heap_def)

lemma do_kfree_inodes: "do_kfree a s = Inr s' \<Longrightarrow> inodes s' = inodes s"
  by (auto simp: do_kfree_def split: sum.splits)

lemma total_refs_cong: "(\<And>i. i_ref (inodes s' i) = i_ref (inodes s i)) \<Longrightarrow> total_refs s' = total_refs s"
  by (simp add: total_refs_def)

lemma total_refs_drop:
  assumes "i < NINODE + NPIPE" and "i_ref (inodes s i) \<noteq> 0" and "\<And>j. i_ref (inodes s' j) = (if j = i then i_ref (inodes s i) - 1 else i_ref (inodes s j))"
  shows "total_refs s' < total_refs s"
proof -
  have "unat (i_ref (inodes s' i)) < unat (i_ref (inodes s i))" using assms(2,3) by (simp add: unat_minus_one unat_gt_0)
  then show ?thesis unfolding total_refs_def using assms(1,3) by (intro sum_strict_mono_ex1) (auto intro: less_imp_le)
qed

lemma iput_step_refs:
  assumes "iput_step w s = Inr (ws, s')"
  shows "total_refs s' < total_refs s \<or> ws = [] \<and> total_refs s' = total_refs s"
proof (cases w)
  case (IPut ip)
  have "i_ref (inodes s' j) = (if j = ip then i_ref (inodes s ip) - 1 else i_ref (inodes s j))" for j
    using assms IPut
    by (auto simp: iput_step_def ramfs_evict_def pipe_evict_def Let_def kbind_Inr_iff dest!: do_kfree_inodes
        split: if_splits option.splits inode_operations.splits)
  then show ?thesis using total_refs_drop [of ip s s'] assms IPut by (auto simp: iput_step_def Let_def split: if_splits)
next
  case (IKfree a)
  then show ?thesis using assms by (auto simp: iput_step_def kbind_Inr_iff dest!: do_kfree_inodes intro!: total_refs_cong)
next
  case (IClear ip)
  then show ?thesis using assms by (auto simp: iput_step_def evict_clear_def intro!: total_refs_cong)
qed

function iput_run :: "iwork list \<Rightarrow> 'z vfs_scheme \<Rightarrow> 'z vfs_scheme kres" where
  "iput_run [] s = Inr s"
| "iput_run (w # ws) s = (case iput_step w s of Inl e \<Rightarrow> Inl e | Inr (ws', s') \<Rightarrow> iput_run (ws' @ ws) s')"
  by pat_completeness auto
termination
  by (relation "measures [\<lambda>(ws, s). total_refs s, \<lambda>(ws, s). length ws]") (auto dest: iput_step_refs)

definition fs_iput :: "nat \<Rightarrow> 'z vfs_scheme \<Rightarrow> 'z vfs_scheme kres" where
  "fs_iput ip s = iput_run [IPut ip] s"

end
