(* ===== verification/Ramfs.thy ===== *)
theory Ramfs
  imports Vfs
begin

text \<open>
  Directory entries, src/arch/x86/kernel/fs/dcache.c, the inodes of pipes, fs/pipe.c, and the operations of the
  root file system, fs/ramfs/inode.c, with the dispatch to them in fs/inode.c.

  An operation returns -1 or 0, or the number of bytes; a kernel buffer is a list of bytes.
\<close>

section \<open>Directory entries\<close>

definition sizeof_dentry :: u32 where "sizeof_dentry = 36"
definition sizeof_pipe :: u32 where "sizeof_pipe = 540"

text \<open>The comparison goes over at most \<open>DIRSIZ\<close> bytes; a string continues with NUL.\<close>

fun namecmp_loop :: "nat \<Rightarrow> u8 list \<Rightarrow> u8 list \<Rightarrow> int" where
  "namecmp_loop 0 a b = sint (hd0 a) - sint (hd0 b)"
| "namecmp_loop (Suc n) a b =
     (if hd0 a \<noteq> 0 \<and> hd0 a = hd0 b then namecmp_loop n (tl a) (tl b) else sint (hd0 a) - sint (hd0 b))"

definition d_namecmp :: "u8 list \<Rightarrow> u8 list \<Rightarrow> int" where
  "d_namecmp a b = namecmp_loop DIRSIZ a b"

definition d_namecpy :: "u8 list \<Rightarrow> u8 list" where
  "d_namecpy src = take (DIRSIZ - 1) src"

definition d_lookup :: "nat \<Rightarrow> u8 list \<Rightarrow> 'z vfs_scheme \<Rightarrow> dentry option" where
  "d_lookup dir name s =
     (if i_type (inodes s dir) \<noteq> T_DIR then None
      else find (\<lambda>d. d_namecmp (de_name d) name = 0) (dents (inodes s dir)))"

definition d_add :: "nat \<Rightarrow> u8 list \<Rightarrow> nat \<Rightarrow> 'z vfs_scheme \<Rightarrow> (int \<times> 'z vfs_scheme) kres" where
  "d_add dir name ip s =
     (if i_type (inodes s dir) \<noteq> T_DIR \<or> name = [] then Inr (- 1, s)
      else if d_lookup dir name s \<noteq> None then Inr (- 1, s)
      else kbind (do_kmalloc sizeof_dentry s) (\<lambda>(p, s1).
        case p of
          None \<Rightarrow> Inr (- 1, s1)
        | Some a \<Rightarrow>
            let s2 = upd_inode ip (\<lambda>x. x\<lparr>i_name := d_namecpy name, i_ref := i_ref x + 1,
                       i_parent := (if i_parent x = None then Some dir else i_parent x)\<rparr>) s1
            in Inr (0, upd_inode dir (\<lambda>x. x\<lparr>dents := \<lparr>de_at = a, de_name = d_namecpy name, de_ip = ip\<rparr> # dents x\<rparr>) s2)))"

fun remove_dent :: "u8 list \<Rightarrow> dentry list \<Rightarrow> dentry list" where
  "remove_dent name [] = []"
| "remove_dent name (d # ds) = (if d_namecmp (de_name d) name \<noteq> 0 then d # remove_dent name ds else ds)"

definition d_unlink :: "nat \<Rightarrow> u8 list \<Rightarrow> 'z vfs_scheme \<Rightarrow> (int \<times> 'z vfs_scheme) kres" where
  "d_unlink dir name s =
     (if i_type (inodes s dir) \<noteq> T_DIR \<or> name = [] then Inr (- 1, s)
      else case find (\<lambda>d. d_namecmp (de_name d) name = 0) (dents (inodes s dir)) of
             None \<Rightarrow> Inr (- 1, s)
           | Some d \<Rightarrow>
               kbind (fs_iput (de_ip d) (upd_inode dir (\<lambda>x. x\<lparr>dents := remove_dent name (dents x)\<rparr>) s)) (\<lambda>s1.
               kbind (do_kfree (de_at d) s1) (\<lambda>s2. Inr (0, s2))))"

section \<open>Inodes of pipes\<close>

definition pipe_inode_alloc :: "u32 \<Rightarrow> 'z vfs_scheme \<Rightarrow> nat option \<times> 'z vfs_scheme" where
  "pipe_inode_alloc pi s =
     (case find (\<lambda>i. i_type (inodes s (NINODE + i)) = T_NONE) [0..<NPIPE] of
        None \<Rightarrow> (None, s)
      | Some i \<Rightarrow>
          let ip = NINODE + i; n = pipe_next_inum s;
              s1 = s\<lparr>pipe_next_inum := (if n + 1 = 0 then 1 else n + 1)\<rparr>;
              s2 = upd_inode ip (\<lambda>x. x\<lparr>inum := n, i_type := T_FIFO, rdev := 0, i_ref := 1, i_size := 0, i_data := 0, dents := [],
                     i_parent := None, i_op := Some Pipe_iops, i_pipe := pi\<rparr>) s1
          in (Some ip, fs_inode_init_meta ip T_FIFO VFS_DEF_FILE_MODE s2))"

definition fifo_init_inode :: "nat \<Rightarrow> 'z vfs_scheme \<Rightarrow> (int \<times> 'z vfs_scheme) kres" where
  "fifo_init_inode ip s =
     (if i_type (inodes s ip) \<noteq> T_FIFO then Inr (- 1, s)
      else if i_pipe (inodes s ip) \<noteq> 0 then Inr (0, s)
      else kbind (do_kmalloc sizeof_pipe s) (\<lambda>(p, s1).
        case p of
          None \<Rightarrow> Inr (- 1, s1)
        | Some a \<Rightarrow>
            let s2 = set_pipe a ((pipes s1 a)\<lparr>readers := 0, writers := 0, nread := 0, nwrite := 0\<rparr>) s1
            in Inr (0, upd_inode ip (\<lambda>x. x\<lparr>i_pipe := a, i_op := Some Pipe_iops\<rparr>) s2)))"

section \<open>The operations of ramfs\<close>

definition ialloc :: "inode_type \<Rightarrow> 'z vfs_scheme \<Rightarrow> nat option \<times> 'z vfs_scheme" where
  "ialloc ty s =
     (case find (\<lambda>i. i_type (inodes s i) = T_NONE) [0..<NINODE] of
        None \<Rightarrow> (None, s)
      | Some i \<Rightarrow>
          let s1 = upd_inode i (\<lambda>x. x\<lparr>inum := of_nat (i + 1), i_ref := 1, i_size := 0, i_data := 0, i_pipe := 0, dents := [],
                     i_parent := None, rdev := 0, i_name := [], i_op := Some Ramfs_iops\<rparr>) s;
              mode = (if ty = T_DIR then VFS_DEF_DIR_MODE else if ty = T_LNK then 0x1ff else VFS_DEF_FILE_MODE)
          in (Some i, fs_inode_init_meta i ty mode s1))"

definition ramfs_link :: "nat \<Rightarrow> u8 list \<Rightarrow> nat \<Rightarrow> 'z vfs_scheme \<Rightarrow> (int \<times> 'z vfs_scheme) kres" where
  "ramfs_link dir name ip s = d_add dir name ip s"

definition ramfs_detach :: "nat \<Rightarrow> u8 list \<Rightarrow> 'z vfs_scheme \<Rightarrow> (int \<times> 'z vfs_scheme) kres" where
  "ramfs_detach dir name s = d_unlink dir name s"

definition ramfs_lookup :: "nat \<Rightarrow> u8 list \<Rightarrow> 'z vfs_scheme \<Rightarrow> nat option \<times> 'z vfs_scheme" where
  "ramfs_lookup dir name s =
     (case d_lookup dir name s of None \<Rightarrow> (None, s) | Some de \<Rightarrow> (Some (de_ip de), fs_idup (de_ip de) s))"

definition ramfs_create :: "nat \<Rightarrow> u8 list \<Rightarrow> inode_type \<Rightarrow> 'z vfs_scheme \<Rightarrow> (nat option \<times> 'z vfs_scheme) kres" where
  "ramfs_create dir name ty s =
     (if d_lookup dir name s \<noteq> None then Inr (None, s)
      else case ialloc ty s of
             (None, s1) \<Rightarrow> Inr (None, s1)
           | (Some ip, s1) \<Rightarrow>
               kbind (d_add dir name ip s1) (\<lambda>(r, s2).
                 if r < 0 then kbind (fs_iput ip s2) (\<lambda>s3. Inr (None, s3)) else Inr (Some ip, s2)))"

text \<open>The common end of the operations that make an entry and keep no reference of their own.\<close>

definition add_and_put :: "nat \<Rightarrow> u8 list \<Rightarrow> nat \<Rightarrow> 'z vfs_scheme \<Rightarrow> (int \<times> 'z vfs_scheme) kres" where
  "add_and_put dir name ip s =
     kbind (d_add dir name ip s) (\<lambda>(r, s1). kbind (fs_iput ip s1) (\<lambda>s2. Inr (if r < 0 then - 1 else 0, s2)))"

definition ramfs_mkdir :: "nat \<Rightarrow> u8 list \<Rightarrow> 'z vfs_scheme \<Rightarrow> (int \<times> 'z vfs_scheme) kres" where
  "ramfs_mkdir dir name s =
     (if d_lookup dir name s \<noteq> None then Inr (- 1, s)
      else case ialloc T_DIR s of (None, s1) \<Rightarrow> Inr (- 1, s1) | (Some ip, s1) \<Rightarrow> add_and_put dir name ip s1)"

definition ramfs_rmdir :: "nat \<Rightarrow> u8 list \<Rightarrow> 'z vfs_scheme \<Rightarrow> (int \<times> 'z vfs_scheme) kres" where
  "ramfs_rmdir dir name s =
     (case d_lookup dir name s of
        None \<Rightarrow> Inr (- 1, s)
      | Some de \<Rightarrow>
          if i_type (inodes s (de_ip de)) \<noteq> T_DIR \<or> dents (inodes s (de_ip de)) \<noteq> [] then Inr (- 1, s)
          else d_unlink dir name s)"

definition ramfs_mknod :: "nat \<Rightarrow> u8 list \<Rightarrow> inode_type \<Rightarrow> u32 \<Rightarrow> 'z vfs_scheme \<Rightarrow> (int \<times> 'z vfs_scheme) kres" where
  "ramfs_mknod dir name ty dev s =
     (if ty \<noteq> T_CHAR \<and> ty \<noteq> T_BLK \<and> ty \<noteq> T_FIFO then Inr (- 1, s)
      else if d_lookup dir name s \<noteq> None then Inr (- 1, s)
      else case ialloc ty s of
             (None, s1) \<Rightarrow> Inr (- 1, s1)
           | (Some ip, s1) \<Rightarrow>
               kbind (if ty = T_FIFO then fifo_init_inode ip (upd_inode ip (\<lambda>x. x\<lparr>rdev := dev\<rparr>) s1)
                      else Inr (0, upd_inode ip (\<lambda>x. x\<lparr>rdev := dev\<rparr>) s1)) (\<lambda>(r, s2).
                 if r < 0 then kbind (fs_iput ip s2) (\<lambda>s3. Inr (- 1, s3)) else add_and_put dir name ip s2))"

definition put_ram :: "u32 \<Rightarrow> u8 list \<Rightarrow> 'z sched_scheme \<Rightarrow> 'z sched_scheme" where
  "put_ram a bs s = s\<lparr>kmem := (kmem s)\<lparr>ram := put_bytes a bs (ram (kmem s))\<rparr>\<rparr>"

definition get_ram :: "u32 \<Rightarrow> nat \<Rightarrow> 'z sched_scheme \<Rightarrow> u8 list" where
  "get_ram a n s = get_bytes a n (ram (kmem s))"

definition ramfs_symlink :: "nat \<Rightarrow> u8 list \<Rightarrow> u8 list \<Rightarrow> 'z vfs_scheme \<Rightarrow> (int \<times> 'z vfs_scheme) kres" where
  "ramfs_symlink dir name target s =
     (if name = [] \<or> i_type (inodes s dir) \<noteq> T_DIR then Inr (- 1, s)
      else if d_lookup dir name s \<noteq> None then Inr (- 1, s)
      else case ialloc T_LNK s of
             (None, s1) \<Rightarrow> Inr (- 1, s1)
           | (Some ip, s1) \<Rightarrow>
               let len = of_nat (strlen (Some target)) :: u32
               in kbind (do_kmalloc (len + 1) s1) (\<lambda>(p, s2).
                    case p of
                      None \<Rightarrow> kbind (fs_iput ip s2) (\<lambda>s3. Inr (- 1, s3))
                    | Some a \<Rightarrow>
                        add_and_put dir name ip
                          (upd_inode ip (\<lambda>x. x\<lparr>i_data := a, i_size := len\<rparr>) (put_ram a (strcpy target) s2))))"

definition ramfs_hardlink :: "nat \<Rightarrow> u8 list \<Rightarrow> nat \<Rightarrow> 'z vfs_scheme \<Rightarrow> (int \<times> 'z vfs_scheme) kres" where
  "ramfs_hardlink dir name ip s =
     (if i_type (inodes s dir) \<noteq> T_DIR then Inr (- 1, s)
      else if i_type (inodes s ip) = T_DIR then Inr (- 1, s)
      else kbind (d_add dir name ip s) (\<lambda>(r, s1).
        if r < 0 then Inr (- 1, s1)
        else Inr (0, fs_inode_touch ip True False (upd_inode ip (\<lambda>x. x\<lparr>nlink := nlink x + 1\<rparr>) s1))))"

definition ramfs_unlink :: "nat \<Rightarrow> u8 list \<Rightarrow> 'z vfs_scheme \<Rightarrow> (int \<times> 'z vfs_scheme) kres" where
  "ramfs_unlink dir name s =
     (case d_lookup dir name s of
        None \<Rightarrow> Inr (- 1, s)
      | Some de \<Rightarrow>
          let ip = de_ip de
          in if i_type (inodes s ip) = T_DIR then Inr (- 1, s)
          else let s1 = (if 0 < nlink (inodes s ip) then upd_inode ip (\<lambda>x. x\<lparr>nlink := nlink x - 1\<rparr>) s else s)
               in d_unlink dir name (fs_inode_touch ip True False s1))"

text \<open>The change of the name in the entry that \<open>d_lookup\<close> found.\<close>

fun rename_dent :: "u32 \<Rightarrow> u8 list \<Rightarrow> dentry list \<Rightarrow> dentry list" where
  "rename_dent a name [] = []"
| "rename_dent a name (d # ds) = (if de_at d = a then d\<lparr>de_name := d_namecpy name\<rparr> # ds else d # rename_dent a name ds)"

definition ramfs_rename :: "nat \<Rightarrow> u8 list \<Rightarrow> nat \<Rightarrow> u8 list \<Rightarrow> 'z vfs_scheme \<Rightarrow> (int \<times> 'z vfs_scheme) kres" where
  "ramfs_rename old_dir old_name new_dir new_name s =
     (if i_type (inodes s old_dir) \<noteq> T_DIR \<or> i_type (inodes s new_dir) \<noteq> T_DIR then Inr (- 1, s)
      else case d_lookup old_dir old_name s of
             None \<Rightarrow> Inr (- 1, s)
           | Some de \<Rightarrow>
               let ip = de_ip de
               in if old_dir = new_dir \<and> d_namecmp old_name new_name = 0 then Inr (0, s)
               else kbind
                 (case d_lookup new_dir new_name s of
                    None \<Rightarrow> Inr (None, s)
                  | Some nde \<Rightarrow>
                      if de_ip nde = ip then Inr (Some 0, s)
                      else if i_type (inodes s (de_ip nde)) = T_DIR \<and> (i_type (inodes s ip) \<noteq> T_DIR \<or> dents (inodes s (de_ip nde)) \<noteq> [])
                           then Inr (Some (- 1), s)
                      else if i_type (inodes s (de_ip nde)) \<noteq> T_DIR \<and> i_type (inodes s ip) = T_DIR then Inr (Some (- 1), s)
                      else kbind (d_unlink new_dir new_name s) (\<lambda>(r, s1). Inr (if r < 0 then Some (- 1) else None, s1)))
                 (\<lambda>(early, s1).
                   case early of
                     Some r \<Rightarrow> Inr (r, s1)
                   | None \<Rightarrow>
                       if old_dir = new_dir then
                         Inr (0, upd_inode ip (\<lambda>x. x\<lparr>i_name := d_namecpy new_name\<rparr>)
                               (upd_inode old_dir (\<lambda>x. x\<lparr>dents := rename_dent (de_at de) new_name (dents x)\<rparr>) s1))
                       else kbind (d_unlink old_dir old_name (fs_idup ip s1)) (\<lambda>(r, s2).
                         if r < 0 then kbind (fs_iput ip s2) (\<lambda>s3. Inr (- 1, s3))
                         else kbind (d_add new_dir new_name ip s2) (\<lambda>(r', s3).
                           if r' < 0 then
                             kbind (d_add old_dir old_name ip s3) (\<lambda>(_, s4). kbind (fs_iput ip s4) (\<lambda>s5. Inr (- 1, s5)))
                           else let s4 = (if i_type (inodes s3 ip) = T_DIR
                                          then upd_inode ip (\<lambda>x. x\<lparr>i_parent := Some new_dir\<rparr>) s3 else s3)
                                in kbind (fs_iput ip s4) (\<lambda>s5. Inr (0, s5))))))"

section \<open>Contents of files and directories\<close>

definition sizeof_dirent :: u32 where "sizeof_dirent = 39"

fun inode_to_dtype :: "inode_type \<Rightarrow> u8" where
  "inode_to_dtype T_DIR = 4"
| "inode_to_dtype T_FILE = 8"
| "inode_to_dtype T_CHAR = 2"
| "inode_to_dtype T_BLK = 6"
| "inode_to_dtype T_FIFO = 1"
| "inode_to_dtype T_LNK = 10"
| "inode_to_dtype T_NONE = 0"

definition le32 :: "u32 \<Rightarrow> u8 list" where
  "le32 v = map (\<lambda>k. ucast (drop_bit (8 * k) v)) [0..<4]"

text \<open>The bytes of a packed \<open>struct dirent\<close>: inode, offset, record length, type and the padded name.\<close>

definition dirent_bytes :: "u32 \<Rightarrow> u32 \<Rightarrow> u8 \<Rightarrow> u8 list \<Rightarrow> u8 list" where
  "dirent_bytes ino d_off ty name =
     le32 ino @ le32 d_off @ take 2 (le32 sizeof_dirent) @ [ty] @ d_namecpy name @ replicate (DIRSIZ - length (d_namecpy name)) 0"

fun readdir_loop :: "dentry list \<Rightarrow> u32 \<Rightarrow> u32 \<Rightarrow> u32 \<Rightarrow> (nat \<Rightarrow> inode) \<Rightarrow> u8 list" where
  "readdir_loop [] off n tot ino = []"
| "readdir_loop (d # ds) off n tot ino =
     (if n < sizeof_dirent then []
      else dirent_bytes (inum (ino (de_ip d))) (off + tot + sizeof_dirent) (inode_to_dtype (i_type (ino (de_ip d)))) (de_name d)
        @ readdir_loop ds off (n - sizeof_dirent) (tot + sizeof_dirent) ino)"

definition ramfs_readdir :: "nat \<Rightarrow> u32 \<Rightarrow> u32 \<Rightarrow> 'z vfs_scheme \<Rightarrow> int \<times> u8 list" where
  "ramfs_readdir ip off n s =
     (if off mod sizeof_dirent \<noteq> 0 then (- 1, [])
      else let bs = readdir_loop (drop (unat (off div sizeof_dirent)) (dents (inodes s ip))) off n 0 (inodes s)
           in (int (length bs), bs))"

definition ramfs_read :: "nat \<Rightarrow> u32 \<Rightarrow> u32 \<Rightarrow> 'z vfs_scheme \<Rightarrow> int \<times> u8 list" where
  "ramfs_read ip off n s =
     (let x = inodes s ip
      in if i_type x = T_DIR then ramfs_readdir ip off n s
      else if i_type x \<noteq> T_FILE \<and> i_type x \<noteq> T_LNK then (- 1, [])
      else if i_size x < off then (0, [])
      else let n' = (if i_size x < off + n then i_size x - off else n)
           in if i_data x = 0 then (0, [])
              else (sint n', get_ram (i_data x + off) (unat n') s))"

text \<open>
  A new buffer takes the place of the old one: the first \<open>k\<close> bytes of the old data, which is then freed, and
  zeros from \<open>z\<close> up to \<open>len\<close>.
\<close>

definition zero_ram :: "u32 \<Rightarrow> nat \<Rightarrow> 'z sched_scheme \<Rightarrow> 'z sched_scheme" where
  "zero_ram a n s = s\<lparr>kmem := (kmem s)\<lparr>ram := memset a 0 n (ram (kmem s))\<rparr>\<rparr>"

definition copy_ram :: "u32 \<Rightarrow> u32 \<Rightarrow> nat \<Rightarrow> 'z sched_scheme \<Rightarrow> 'z sched_scheme" where
  "copy_ram dst src n s = s\<lparr>kmem := (kmem s)\<lparr>ram := copy_mem dst src n (ram (kmem s))\<rparr>\<rparr>"

definition replace_data :: "nat \<Rightarrow> u32 \<Rightarrow> u32 \<Rightarrow> u32 \<Rightarrow> u32 \<Rightarrow> 'z vfs_scheme \<Rightarrow> 'z vfs_scheme kres" where
  "replace_data ip buf k z len s =
     (let old = i_data (inodes s ip)
      in kbind (if old \<noteq> 0 then do_kfree old (copy_ram buf old (unat k) s) else Inr s) (\<lambda>s1.
           Inr (upd_inode ip (\<lambda>x. x\<lparr>i_data := buf, i_size := len\<rparr>) (zero_ram (buf + z) (unat len - unat z) s1))))"

definition ramfs_write :: "nat \<Rightarrow> u8 list \<Rightarrow> u32 \<Rightarrow> 'z vfs_scheme \<Rightarrow> (int \<times> 'z vfs_scheme) kres" where
  "ramfs_write ip src off s =
     (let x = inodes s ip; n = of_nat (length src) :: u32; newsize = off + n
      in if i_type x \<noteq> T_FILE then Inr (- 1, s)
      else if n = 0 then Inr (0, s)
      else kbind
        (if i_size x < newsize \<or> i_data x = 0 then
           kbind (do_kmalloc (if newsize \<noteq> 0 then newsize else 1) s) (\<lambda>(p, s1).
             case p of
               None \<Rightarrow> Inr (False, s1)
             | Some buf \<Rightarrow> kbind (replace_data ip buf (i_size x) (i_size x) newsize s1) (\<lambda>s2. Inr (True, s2)))
         else Inr (True, s)) (\<lambda>(ok, s1).
        if \<not> ok then Inr (- 1, s1)
        else let s2 = put_ram (i_data (inodes s1 ip) + off) src s1
             in Inr (sint n, if i_size (inodes s2 ip) < off + n then upd_inode ip (\<lambda>x. x\<lparr>i_size := off + n\<rparr>) s2 else s2)))"

definition ramfs_truncate :: "nat \<Rightarrow> u32 \<Rightarrow> 'z vfs_scheme \<Rightarrow> (int \<times> 'z vfs_scheme) kres" where
  "ramfs_truncate ip len s =
     (let x = inodes s ip
      in if i_type x \<noteq> T_FILE then Inr (- 1, s)
      else if len = i_size x then Inr (0, s)
      else if len = 0 then
        kbind (if i_data x \<noteq> 0 then kbind (do_kfree (i_data x) s) (\<lambda>s1. Inr (upd_inode ip (\<lambda>x. x\<lparr>i_data := 0\<rparr>) s1)) else Inr s)
          (\<lambda>s1. Inr (0, upd_inode ip (\<lambda>x. x\<lparr>i_size := 0\<rparr>) s1))
      else kbind (do_kmalloc len s) (\<lambda>(p, s1).
        case p of
          None \<Rightarrow> Inr (- 1, s1)
        | Some buf \<Rightarrow>
            let k = min len (i_size x)
            in kbind (replace_data ip buf k (if i_data x \<noteq> 0 then k else 0) len s1) (\<lambda>s2. Inr (0, s2))))"

section \<open>Dispatch\<close>

text \<open>
  The operations of an inode go to its file system. A pipe may put the caller \<open>p\<close> to sleep; then the call has not
  returned and the rest of \<open>fs_readi\<close> is still to come.
\<close>

definition i_pipe_opt :: "nat \<Rightarrow> 'z vfs_scheme \<Rightarrow> u32 option" where
  "i_pipe_opt ip s = (if i_pipe (inodes s ip) = 0 then None else Some (i_pipe (inodes s ip)))"

definition fs_readi :: "nat \<Rightarrow> nat \<Rightarrow> u32 \<Rightarrow> u32 \<Rightarrow> 'z vfs_scheme \<Rightarrow> (pipe_out \<times> u8 list \<times> 'z vfs_scheme) kres" where
  "fs_readi p ip off n s =
     kbind (case i_op (inodes s ip) of
              None \<Rightarrow> Inr (PRet (- 1), [], s)
            | Some Ramfs_iops \<Rightarrow> (case ramfs_read ip off n s of (r, bs) \<Rightarrow> Inr (PRet r, bs, s))
            | Some Pipe_iops \<Rightarrow> pipe_read p (i_pipe_opt ip s) (unat n) s)
       (\<lambda>(r, bs, s1). Inr (r, bs, case r of PRet k \<Rightarrow> if 0 < k then fs_inode_touch ip False True s1 else s1 | PSleeps _ \<Rightarrow> s1))"

definition fs_writei :: "nat \<Rightarrow> nat \<Rightarrow> u8 list \<Rightarrow> u32 \<Rightarrow> 'z vfs_scheme \<Rightarrow> (pipe_out \<times> 'z vfs_scheme) kres" where
  "fs_writei p ip src off s =
     kbind (case i_op (inodes s ip) of
              None \<Rightarrow> Inr (PRet (- 1), s)
            | Some Ramfs_iops \<Rightarrow> kbind (ramfs_write ip src off s) (\<lambda>(r, s1). Inr (PRet r, s1))
            | Some Pipe_iops \<Rightarrow> pipe_write p (i_pipe_opt ip s) src s)
       (\<lambda>(r, s1). Inr (r, case r of PRet k \<Rightarrow> if 0 < k then fs_inode_touch ip True False s1 else s1 | PSleeps _ \<Rightarrow> s1))"

definition fs_truncate :: "nat \<Rightarrow> u32 \<Rightarrow> 'z vfs_scheme \<Rightarrow> (int \<times> 'z vfs_scheme) kres" where
  "fs_truncate ip len s =
     (if i_type (inodes s ip) \<noteq> T_FILE then Inr (- 1, s)
      else if i_op (inodes s ip) \<noteq> Some Ramfs_iops then Inr (- 1, s)
      else kbind (ramfs_truncate ip len s) (\<lambda>(r, s1). Inr (r, if r = 0 then fs_inode_touch ip True False s1 else s1)))"

end
