(* ===== verification/Namei.thy ===== *)
theory Namei
  imports Ramfs
begin

text \<open>
  Path lookup and the operations on paths, src/arch/x86/kernel/fs/namei.c.

  A path is a list of bytes without NUL. Looking up an absolute symbolic link starts \<open>namex\<close> anew, and nothing in
  the code bounds how often; so \<open>namex\<close> takes as fuel the number of nested calls, and its result is \<open>None\<close> when they do
  not end within it. The loop over the components of a path and the loop over the links of one component end by
  themselves. The operations of an inode are those of ramfs or those of a pipe, which have no lookup, creation or
  other directory operation.
\<close>

section \<open>Results of operations that need fuel\<close>

type_synonym 'a fres = "'a kres option"

definition fret :: "'a \<Rightarrow> 'a fres" where
  "fret x = Some (Inr x)"

definition fbind :: "'a fres \<Rightarrow> ('a \<Rightarrow> 'b fres) \<Rightarrow> 'b fres" where
  "fbind m f = (case m of None \<Rightarrow> None | Some (Inl e) \<Rightarrow> Some (Inl e) | Some (Inr x) \<Rightarrow> f x)"

lemma fbind_simps [simp]: "fbind None f = None" "fbind (Some (Inl e)) f = Some (Inl e)" "fbind (Some (Inr x)) f = f x" "fbind (fret x) f = f x"
  by (simp_all add: fbind_def fret_def)

lemma fbind_Inr_iff: "fbind m f = Some (Inr y) \<longleftrightarrow> (\<exists>x. m = Some (Inr x) \<and> f x = Some (Inr y))"
  by (auto simp: fbind_def split: option.splits sum.splits)

lemma fret_eq [simp]: "fret x = Some (Inr y) \<longleftrightarrow> x = y" "fret x = fret y \<longleftrightarrow> x = y"
  by (simp_all add: fret_def)

lemma fret_not [simp]: "fret x \<noteq> None" "fret x \<noteq> Some (Inl e)"
  by (simp_all add: fret_def)

section \<open>Components of a path\<close>

definition MAXSYMLINKS :: nat where "MAXSYMLINKS = 8"

definition skipelem :: "u8 list \<Rightarrow> (u8 list \<times> u8 list) option" where
  "skipelem path =
     (let p = dropWhile (\<lambda>c. c = 0x2f) path
      in if p = [] then None
         else Some (take (DIRSIZ - 1) (takeWhile (\<lambda>c. c \<noteq> 0x2f) p),
                    dropWhile (\<lambda>c. c = 0x2f) (dropWhile (\<lambda>c. c \<noteq> 0x2f) p)))"

lemma skipelem_shorter: "skipelem path = Some (name, rest) \<Longrightarrow> length rest < length path"
proof -
  assume a: "skipelem path = Some (name, rest)"
  define p where "p = dropWhile (\<lambda>c. c = 0x2f) path"
  have p: "p \<noteq> []" "rest = dropWhile (\<lambda>c. c = 0x2f) (dropWhile (\<lambda>c. c \<noteq> 0x2f) p)"
    using a by (auto simp: skipelem_def p_def Let_def split: if_splits)
  have "hd p \<noteq> 0x2f" using p(1) hd_dropWhile [of "\<lambda>c. c = 0x2f" path] by (simp add: p_def)
  then have "dropWhile (\<lambda>c. c \<noteq> 0x2f) p = dropWhile (\<lambda>c. c \<noteq> 0x2f) (tl p)" using p(1) by (cases p) auto
  then have "length rest \<le> length (tl p)" using p(2) length_dropWhile_le le_trans by metis
  also have "\<dots> < length p" using p(1) by simp
  also have "\<dots> \<le> length path" by (simp add: p_def length_dropWhile_le)
  finally show ?thesis .
qed

section \<open>Lookup\<close>

text \<open>
  \<open>follow_symlink\<close> with the nested call of \<open>namex\<close> as argument. The caller counts \<open>depth\<close>; the number passed is the
  one before the increment.
\<close>

definition put_ret :: "nat \<Rightarrow> 'a \<Rightarrow> 'z vfs_scheme \<Rightarrow> ('a \<times> 'z vfs_scheme) fres" where
  "put_ret ip r s = fbind (Some (fs_iput ip s)) (\<lambda>s1. fret (r, s1))"

definition follow_symlink :: "(u8 list \<Rightarrow> 'z vfs_scheme \<Rightarrow> (nat option \<times> 'z vfs_scheme) fres) \<Rightarrow> nat \<Rightarrow> nat \<Rightarrow> nat \<Rightarrow> 'z vfs_scheme \<Rightarrow> (nat option \<times> 'z vfs_scheme) fres" where
  "follow_symlink rec p link depth s =
     (if MAXSYMLINKS < depth + 1 then put_ret link None s
      else fbind (Some (fs_readi p link 0 (of_nat NNAME - 1) s)) (\<lambda>(r, bs, s1).
        case r of
          PSleeps _ \<Rightarrow> Some (Inl ''follow_symlink: link is a pipe'')
        | PRet n \<Rightarrow>
            if n \<le> 0 then put_ret link None s1
            else let target = takeWhile (\<lambda>c. c \<noteq> 0) bs
            in if hd0 target = 0x2f then fbind (Some (fs_iput link s1)) (rec target)
            else if 0x2f \<in> set target then put_ret link None s1
            else (case i_parent (inodes s1 link) of
                    None \<Rightarrow> put_ret link None s1
                  | Some par \<Rightarrow>
                      if i_op (inodes s1 par) \<noteq> Some Ramfs_iops then put_ret link None s1
                      else fbind (Some (fs_iput link (fs_idup par s1))) (\<lambda>s2.
                        case ramfs_lookup par target s2 of (nx, s3) \<Rightarrow> put_ret par nx s3))))"

lemma follow_symlink_depth: "follow_symlink rec p link depth s = Some (Inr (Some nx, s')) \<Longrightarrow> depth < MAXSYMLINKS"
  by (auto simp: follow_symlink_def put_ret_def fbind_Inr_iff split: if_splits)

function follow_loop :: "(u8 list \<Rightarrow> 'z vfs_scheme \<Rightarrow> (nat option \<times> 'z vfs_scheme) fres) \<Rightarrow> nat \<Rightarrow> bool \<Rightarrow> nat \<Rightarrow> nat \<Rightarrow> 'z vfs_scheme \<Rightarrow> (nat option \<times> 'z vfs_scheme) fres" where
  "follow_loop rec p stop nx depth s =
     (if i_type (inodes s nx) \<noteq> T_LNK \<or> stop then fret (Some nx, s)
      else case follow_symlink rec p nx depth s of
             None \<Rightarrow> None
           | Some (Inl e) \<Rightarrow> Some (Inl e)
           | Some (Inr (None, s1)) \<Rightarrow> fret (None, s1)
           | Some (Inr (Some nx', s1)) \<Rightarrow> follow_loop rec p stop nx' (depth + 1) s1)"
  by pat_completeness auto
termination
  by (relation "measure (\<lambda>(rec, p, stop, nx, depth, s). MAXSYMLINKS - depth)") (auto dest: follow_symlink_depth)

declare follow_loop.simps [simp del]

text \<open>The loop of \<open>namex\<close>, from the inode \<open>ip\<close> it holds a reference to.\<close>

function namex_loop :: "(u8 list \<Rightarrow> 'z vfs_scheme \<Rightarrow> (nat option \<times> 'z vfs_scheme) fres) \<Rightarrow> nat \<Rightarrow> bool \<Rightarrow> bool \<Rightarrow> u8 list \<Rightarrow> nat \<Rightarrow> 'z vfs_scheme \<Rightarrow> (nat option \<times> u8 list \<times> 'z vfs_scheme) fres" where
  "namex_loop rec p nameiparent follow path ip s =
     (case skipelem path of
        None \<Rightarrow> if nameiparent then fbind (Some (fs_iput ip s)) (\<lambda>s1. fret (None, [], s1)) else fret (Some ip, [], s)
      | Some (name, rest) \<Rightarrow>
          if i_type (inodes s ip) \<noteq> T_DIR then fbind (Some (fs_iput ip s)) (\<lambda>s1. fret (None, name, s1))
          else if nameiparent \<and> rest = [] then fret (Some ip, name, s)
          else if d_namecmp name [0x2e] = 0 then namex_loop rec p nameiparent follow rest ip s
          else if d_namecmp name [0x2e, 0x2e] = 0 then
            let nx = (case i_parent (inodes s ip) of Some q \<Rightarrow> q | None \<Rightarrow> ip)
            in fbind (Some (fs_iput ip (fs_idup nx s))) (\<lambda>s1. namex_loop rec p nameiparent follow rest nx s1)
          else if i_op (inodes s ip) \<noteq> Some Ramfs_iops then fbind (Some (fs_iput ip s)) (\<lambda>s1. fret (None, name, s1))
          else case ramfs_lookup ip name s of
                 (r, s1) \<Rightarrow> fbind (Some (fs_iput ip s1)) (\<lambda>s2.
                   case r of
                     None \<Rightarrow> fret (None, name, s2)
                   | Some nx \<Rightarrow>
                       fbind (follow_loop rec p (rest = [] \<and> \<not> follow) nx 0 s2) (\<lambda>(r', s3).
                         case r' of
                           None \<Rightarrow> fret (None, name, s3)
                         | Some nx' \<Rightarrow> namex_loop rec p nameiparent follow rest nx' s3)))"
  by pat_completeness auto
termination
  by (relation "measure (\<lambda>(rec, p, np, follow, path, ip, s). length path)") (auto dest: skipelem_shorter)

declare namex_loop.simps [simp del]

definition namex_body :: "(u8 list \<Rightarrow> 'z vfs_scheme \<Rightarrow> (nat option \<times> 'z vfs_scheme) fres) \<Rightarrow> nat \<Rightarrow> u8 list \<Rightarrow> bool \<Rightarrow> bool \<Rightarrow> 'z vfs_scheme \<Rightarrow> (nat option \<times> u8 list \<times> 'z vfs_scheme) fres" where
  "namex_body rec p path nameiparent follow s =
     (if path = [] then fret (None, [], s)
      else case (if hd path = 0x2f then vfs_root_inode s else cwd (ptab s p)) of
             None \<Rightarrow> fret (None, [], s)
           | Some ip \<Rightarrow> namex_loop rec p nameiparent follow path ip (fs_idup ip s))"

fun namex :: "nat \<Rightarrow> nat \<Rightarrow> u8 list \<Rightarrow> bool \<Rightarrow> bool \<Rightarrow> 'z vfs_scheme \<Rightarrow> (nat option \<times> u8 list \<times> 'z vfs_scheme) fres" where
  "namex 0 p path nameiparent follow s = None"
| "namex (Suc n) p path nameiparent follow s =
     namex_body (\<lambda>t s1. fbind (namex n p t False True s1) (\<lambda>(r, _, s2). fret (r, s2))) p path nameiparent follow s"

definition fs_namei :: "nat \<Rightarrow> nat \<Rightarrow> u8 list \<Rightarrow> 'z vfs_scheme \<Rightarrow> (nat option \<times> 'z vfs_scheme) fres" where
  "fs_namei n p path s = fbind (namex n p path False True s) (\<lambda>(r, _, s1). fret (r, s1))"

definition fs_namei_nofollow :: "nat \<Rightarrow> nat \<Rightarrow> u8 list \<Rightarrow> 'z vfs_scheme \<Rightarrow> (nat option \<times> 'z vfs_scheme) fres" where
  "fs_namei_nofollow n p path s = fbind (namex n p path False False s) (\<lambda>(r, _, s1). fret (r, s1))"

section \<open>The current directory\<close>

text \<open>The chain of parents from \<open>ip\<close> up to the root, innermost first; \<open>None\<close> when it has more than \<open>k\<close> members.\<close>

fun cwd_chain :: "nat \<Rightarrow> nat \<Rightarrow> 'z vfs_scheme \<Rightarrow> nat list option" where
  "cwd_chain k ip s =
     (if Some ip \<noteq> vfs_root_inode s \<and> i_parent (inodes s ip) \<noteq> None \<and> i_parent (inodes s ip) \<noteq> Some ip then
        (case k of
           0 \<Rightarrow> None
         | Suc k' \<Rightarrow> map_option ((#) ip) (cwd_chain k' (the (i_parent (inodes s ip))) s))
      else Some [])"

declare cwd_chain.simps [simp del]

fun cwd_print :: "u8 list list \<Rightarrow> nat \<Rightarrow> u8 list \<Rightarrow> u8 list option" where
  "cwd_print [] mx out = Some (out @ [0])"
| "cwd_print (nm # nms) mx out =
     (if nm = [] \<or> mx < length out + 1 + length nm + 1 then None else cwd_print nms mx (out @ 0x2f # nm))"

text \<open>The bytes written to the buffer, with the terminating NUL; \<open>None\<close> for -1.\<close>

definition fs_getcwd :: "nat \<Rightarrow> int \<Rightarrow> 'z vfs_scheme \<Rightarrow> u8 list option" where
  "fs_getcwd p mx s =
     (if mx < 2 then None
      else case cwd (ptab s p) of
             None \<Rightarrow> None
           | Some ip \<Rightarrow>
               if vfs_root_inode s = None then None
               else (case cwd_chain NINODE ip s of
                       None \<Rightarrow> None
                     | Some st \<Rightarrow> if st = [] then Some [0x2f, 0]
                                  else cwd_print (map (\<lambda>i. i_name (inodes s i)) (rev st)) (nat mx) []))"

section \<open>Operations on paths\<close>

definition MKDEV :: "u32 \<Rightarrow> u32 \<Rightarrow> u32" where
  "MKDEV ma mi = (push_bit 20 ma) OR (mi AND 0xFFFFF)"

definition dot_name :: "u8 list \<Rightarrow> bool" where
  "dot_name name \<longleftrightarrow> name = [] \<or> d_namecmp name [0x2e] = 0 \<or> d_namecmp name [0x2e, 0x2e] = 0"

definition fs_create :: "nat \<Rightarrow> nat \<Rightarrow> u8 list \<Rightarrow> inode_type \<Rightarrow> 'z vfs_scheme \<Rightarrow> (nat option \<times> 'z vfs_scheme) fres" where
  "fs_create n p path ty s =
     fbind (namex n p path True True s) (\<lambda>(dp, name, s1).
       case dp of
         None \<Rightarrow> fret (None, s1)
       | Some d \<Rightarrow>
           if name = [] \<or> i_op (inodes s1 d) \<noteq> Some Ramfs_iops then put_ret d None s1
           else fbind (Some (ramfs_create d name ty s1)) (\<lambda>(r, s2). put_ret d r s2))"

definition fs_mknod :: "nat \<Rightarrow> nat \<Rightarrow> u8 list \<Rightarrow> inode_type \<Rightarrow> u32 \<Rightarrow> u32 \<Rightarrow> 'z vfs_scheme \<Rightarrow> (nat option \<times> 'z vfs_scheme) fres" where
  "fs_mknod n p path ty ma mi s =
     (if ty \<noteq> T_CHAR \<and> ty \<noteq> T_BLK \<and> ty \<noteq> T_FIFO then fret (None, s)
      else fbind (namex n p path True True s) (\<lambda>(dp, name, s1).
        case dp of
          None \<Rightarrow> fret (None, s1)
        | Some d \<Rightarrow>
            if name = [] \<or> i_op (inodes s1 d) \<noteq> Some Ramfs_iops then put_ret d None s1
            else fbind (Some (ramfs_mknod d name ty (if ty = T_FIFO then 0 else MKDEV ma mi) s1)) (\<lambda>(r, s2).
              if r < 0 then put_ret d None s2
              else fbind (Some (fs_iput d s2)) (\<lambda>s3. fs_namei n p path s3))))"

definition inode_is_cwd :: "nat \<Rightarrow> 'z vfs_scheme \<Rightarrow> bool" where
  "inode_is_cwd ip s \<longleftrightarrow> find (\<lambda>i. state (ptab s i) \<noteq> UNUSED \<and> cwd (ptab s i) = Some ip) [0..<NPROC] \<noteq> None"

definition fs_mkdir :: "nat \<Rightarrow> nat \<Rightarrow> u8 list \<Rightarrow> 'z vfs_scheme \<Rightarrow> (int \<times> 'z vfs_scheme) fres" where
  "fs_mkdir n p path s =
     fbind (namex n p path True True s) (\<lambda>(dp, name, s1).
       case dp of
         None \<Rightarrow> fret (- 1, s1)
       | Some d \<Rightarrow>
           if dot_name name \<or> i_op (inodes s1 d) \<noteq> Some Ramfs_iops then put_ret d (- 1) s1
           else fbind (Some (ramfs_mkdir d name s1)) (\<lambda>(r, s2). put_ret d (if r < 0 then - 1 else 0) s2))"

definition fs_rmdir :: "nat \<Rightarrow> nat \<Rightarrow> u8 list \<Rightarrow> 'z vfs_scheme \<Rightarrow> (int \<times> 'z vfs_scheme) fres" where
  "fs_rmdir n p path s =
     fbind (namex n p path True True s) (\<lambda>(dp, name, s1).
       case dp of
         None \<Rightarrow> fret (- 1, s1)
       | Some d \<Rightarrow>
           if dot_name name \<or> i_op (inodes s1 d) \<noteq> Some Ramfs_iops then put_ret d (- 1) s1
           else (case ramfs_lookup d name s1 of
                   (None, s2) \<Rightarrow> put_ret d (- 1) s2
                 | (Some ip, s2) \<Rightarrow>
                     if i_type (inodes s2 ip) \<noteq> T_DIR \<or> Some ip = vfs_root_inode s2 \<or> inode_is_cwd ip s2
                     then fbind (Some (fs_iput ip s2)) (put_ret d (- 1))
                     else fbind (Some (fs_iput ip s2)) (\<lambda>s3.
                       fbind (Some (ramfs_rmdir d name s3)) (\<lambda>(r, s4). put_ret d (if r < 0 then - 1 else 0) s4))))"

definition fs_link :: "nat \<Rightarrow> nat \<Rightarrow> u8 list \<Rightarrow> u8 list \<Rightarrow> 'z vfs_scheme \<Rightarrow> (int \<times> 'z vfs_scheme) fres" where
  "fs_link n p oldpath newpath s =
     (if oldpath = [] \<or> newpath = [] then fret (- 1, s)
      else fbind (fs_namei n p oldpath s) (\<lambda>(r, s1).
        case r of
          None \<Rightarrow> fret (- 1, s1)
        | Some ip \<Rightarrow>
            if i_type (inodes s1 ip) = T_DIR then put_ret ip (- 1) s1
            else fbind (namex n p newpath True True s1) (\<lambda>(dp, name, s2).
              case dp of
                None \<Rightarrow> put_ret ip (- 1) s2
              | Some d \<Rightarrow>
                  if dot_name name \<or> i_op (inodes s2 d) \<noteq> Some Ramfs_iops \<or> i_op (inodes s2 d) \<noteq> i_op (inodes s2 ip)
                  then fbind (Some (fs_iput d s2)) (put_ret ip (- 1))
                  else fbind (Some (ramfs_hardlink d name ip s2)) (\<lambda>(r, s3).
                    fbind (Some (fs_iput d s3)) (put_ret ip (if r < 0 then - 1 else 0))))))"

definition fs_symlink :: "nat \<Rightarrow> nat \<Rightarrow> u8 list \<Rightarrow> u8 list \<Rightarrow> 'z vfs_scheme \<Rightarrow> (int \<times> 'z vfs_scheme) fres" where
  "fs_symlink n p target linkpath s =
     (if linkpath = [] then fret (- 1, s)
      else fbind (namex n p linkpath True True s) (\<lambda>(dp, name, s1).
        case dp of
          None \<Rightarrow> fret (- 1, s1)
        | Some d \<Rightarrow>
            if dot_name name \<or> i_op (inodes s1 d) \<noteq> Some Ramfs_iops then put_ret d (- 1) s1
            else fbind (Some (ramfs_symlink d name target s1)) (\<lambda>(r, s2). put_ret d (if r < 0 then - 1 else 0) s2)))"

definition fs_unlink :: "nat \<Rightarrow> nat \<Rightarrow> u8 list \<Rightarrow> 'z vfs_scheme \<Rightarrow> (int \<times> 'z vfs_scheme) fres" where
  "fs_unlink n p path s =
     (if path = [] then fret (- 1, s)
      else fbind (namex n p path True True s) (\<lambda>(dp, name, s1).
        case dp of
          None \<Rightarrow> fret (- 1, s1)
        | Some d \<Rightarrow>
            if dot_name name \<or> i_op (inodes s1 d) \<noteq> Some Ramfs_iops then put_ret d (- 1) s1
            else (case ramfs_lookup d name s1 of
                    (None, s2) \<Rightarrow> put_ret d (- 1) s2
                  | (Some ip, s2) \<Rightarrow>
                      if i_type (inodes s2 ip) = T_DIR then fbind (Some (fs_iput ip s2)) (put_ret d (- 1))
                      else fbind (Some (fs_iput ip s2)) (\<lambda>s3.
                        fbind (Some (ramfs_unlink d name s3)) (\<lambda>(r, s4). put_ret d (if r < 0 then - 1 else 0) s4)))))"

definition fs_rename :: "nat \<Rightarrow> nat \<Rightarrow> u8 list \<Rightarrow> u8 list \<Rightarrow> 'z vfs_scheme \<Rightarrow> (int \<times> 'z vfs_scheme) fres" where
  "fs_rename n p oldpath newpath s =
     (if oldpath = [] \<or> newpath = [] then fret (- 1, s)
      else fbind (namex n p oldpath True True s) (\<lambda>(od, oldname, s1).
        case od of
          None \<Rightarrow> fret (- 1, s1)
        | Some o_dir \<Rightarrow>
            if dot_name oldname then put_ret o_dir (- 1) s1
            else fbind (namex n p newpath True True s1) (\<lambda>(nd, newname, s2).
              case nd of
                None \<Rightarrow> put_ret o_dir (- 1) s2
              | Some n_dir \<Rightarrow>
                  if dot_name newname \<or> i_op (inodes s2 o_dir) \<noteq> Some Ramfs_iops
                     \<or> i_op (inodes s2 o_dir) \<noteq> i_op (inodes s2 n_dir)
                  then fbind (Some (fs_iput n_dir s2)) (put_ret o_dir (- 1))
                  else fbind (Some (ramfs_rename o_dir oldname n_dir newname s2)) (\<lambda>(r, s3).
                    fbind (Some (fs_iput n_dir s3)) (put_ret o_dir (if r < 0 then - 1 else 0))))))"

definition fs_access :: "nat \<Rightarrow> nat \<Rightarrow> u8 list \<Rightarrow> u32 \<Rightarrow> 'z vfs_scheme \<Rightarrow> (int \<times> 'z vfs_scheme) fres" where
  "fs_access n p path amode s =
     fbind (fs_namei n p path s) (\<lambda>(r, s1).
       case r of
         None \<Rightarrow> fret (- 1, s1)
       | Some ip \<Rightarrow>
           let m = i_mode (inodes s1 ip)
           in if amode = 0 then put_ret ip 0 s1
           else put_ret ip (if amode AND 4 \<noteq> 0 \<and> m AND 0x124 = 0 then - 1
                            else if amode AND 2 \<noteq> 0 \<and> m AND 0x92 = 0 then - 1
                            else if amode AND 1 \<noteq> 0 \<and> m AND 0x49 = 0 then - 1 else 0) s1)"

definition fs_chmod :: "nat \<Rightarrow> nat \<Rightarrow> u8 list \<Rightarrow> u32 \<Rightarrow> 'z vfs_scheme \<Rightarrow> (int \<times> 'z vfs_scheme) fres" where
  "fs_chmod n p path mode s =
     fbind (fs_namei n p path s) (\<lambda>(r, s1).
       case r of
         None \<Rightarrow> fret (- 1, s1)
       | Some ip \<Rightarrow> put_ret ip 0 (fs_inode_touch ip True False (upd_inode ip (\<lambda>x. x\<lparr>i_mode := mode AND 0xfff\<rparr>) s1)))"

definition fs_chown :: "nat \<Rightarrow> nat \<Rightarrow> u8 list \<Rightarrow> u32 \<Rightarrow> u32 \<Rightarrow> 'z vfs_scheme \<Rightarrow> (int \<times> 'z vfs_scheme) fres" where
  "fs_chown n p path uid gid s =
     fbind (fs_namei n p path s) (\<lambda>(r, s1).
       case r of
         None \<Rightarrow> fret (- 1, s1)
       | Some ip \<Rightarrow> put_ret ip 0 (fs_inode_touch ip True False (upd_inode ip (\<lambda>x. x\<lparr>i_uid := uid, i_gid := gid\<rparr>) s1)))"

definition fs_utime :: "nat \<Rightarrow> nat \<Rightarrow> u8 list \<Rightarrow> u32 \<Rightarrow> u32 \<Rightarrow> 'z vfs_scheme \<Rightarrow> (int \<times> 'z vfs_scheme) fres" where
  "fs_utime n p path atime mtime s =
     fbind (fs_namei n p path s) (\<lambda>(r, s1).
       case r of
         None \<Rightarrow> fret (- 1, s1)
       | Some ip \<Rightarrow> put_ret ip 0 (upd_inode ip (\<lambda>x. x\<lparr>i_atime := atime, i_mtime := mtime, i_ctime := mtime\<rparr>) s1))"

section \<open>Set-up of the root file system\<close>

text \<open>\<open>fs_init\<close> of fs/ramfs/inode.c, up to the set-up of procfs; names and contents are those of the source.\<close>

definition seed_file :: "nat \<Rightarrow> nat \<Rightarrow> u8 list \<Rightarrow> u8 list \<Rightarrow> 'z vfs_scheme \<Rightarrow> 'z vfs_scheme fres" where
  "seed_file n p path txt s =
     fbind (fs_create n p path T_FILE s) (\<lambda>(r, s1).
       case r of
         None \<Rightarrow> fret s1
       | Some ip \<Rightarrow> fbind (Some (fs_writei p ip txt 0 s1)) (\<lambda>(_, s2). Some (fs_iput ip s2)))"

definition bytes_of :: "string \<Rightarrow> u8 list" where
  "bytes_of xs = map (\<lambda>c. of_nat (of_char c)) xs"

definition fs_init :: "nat \<Rightarrow> nat \<Rightarrow> 'z vfs_scheme \<Rightarrow> 'z vfs_scheme fres" where
  "fs_init n p s0 =
     (let s = s0\<lparr>inodes := (\<lambda>i. if i < NINODE then zero_inode else inodes s0 i)\<rparr>
      in case ialloc T_DIR s of
           (None, s1) \<Rightarrow> Some (Inl ''fs_init: root'')
         | (Some root, s1) \<Rightarrow>
             let s2 = (upd_inode root (\<lambda>x. x\<lparr>i_parent := Some root\<rparr>) s1)\<lparr>vfs_root_inode := Some root\<rparr>
             in case ialloc T_DIR s2 of
                  (None, s3) \<Rightarrow> Some (Inl ''fs_init: /dev'')
                | (Some dev, s3) \<Rightarrow>
                    fbind (Some (d_add root (bytes_of ''dev'') dev s3)) (\<lambda>(r, s4).
                      if r < 0 then Some (Inl ''fs_init: /dev'')
                      else fbind (Some (fs_iput dev s4)) (\<lambda>s5.
                        case ialloc T_CHAR s5 of
                          (None, s6) \<Rightarrow> Some (Inl ''fs_init: console'')
                        | (Some con, s6) \<Rightarrow>
                            fbind (Some (d_add dev (bytes_of ''console'') con (upd_inode con (\<lambda>x. x\<lparr>rdev := MKDEV 1 0\<rparr>) s6))) (\<lambda>(r, s7).
                              if r < 0 then Some (Inl ''fs_init: /dev/console'')
                              else fbind (Some (fs_iput con s7)) (\<lambda>s8.
                                fbind (seed_file n p (bytes_of ''/hello'') (bytes_of ''Hello from Tiny-OS ramfs!'' @ [0xa]) s8) (\<lambda>s9.
                                  fret (s9\<lparr>ftable := (\<lambda>i. if i < NFILE then (ftable s9 i)\<lparr>f_type := FD_NONE\<rparr> else ftable s9 i)\<rparr>)))))))"

end
