(* ===== verification/Heap.thy ===== *)
theory Heap
  imports Vm
begin

text \<open>
  The kernel heap as its clients see it. The interface \<open>heap_allocator\<close> names what \<open>kmalloc\<close> and \<open>kfree\<close> of
  src/arch/x86/kernel/mm/slab.c promise about blocks and about the bytes of memory; the file system relies on
  nothing else.
\<close>

section \<open>Contents of a block\<close>

text \<open>The payload of a block starts behind its header.\<close>

definition holds :: "(u32 \<Rightarrow> u8) \<Rightarrow> u32 \<times> nat \<Rightarrow> u8 list \<Rightarrow> bool" where
  "holds f b xs \<longleftrightarrow> length xs + 16 \<le> snd b \<and> get_bytes (fst b + sizeof_khdr) (length xs) f = xs"

lemma payload_span: "i + 16 < n \<Longrightarrow> a + sizeof_khdr + of_nat i \<in> span a n"
proof -
  assume i: "i + 16 < n"
  have e: "a + sizeof_khdr + of_nat i - a = (of_nat (i + 16) :: u32)" by (simp add: sizeof_khdr_def)
  have "unat (of_nat (i + 16) :: u32) \<le> i + 16" by (simp only: unat_of_nat) (rule mod_less_eq_dividend)
  then have "unat (of_nat (i + 16) :: u32) < n" using i by linarith
  then show ?thesis unfolding span_def mem_Collect_eq e .
qed

lemma payload_sub: "k + 16 \<le> n \<Longrightarrow> span (a + sizeof_khdr) k \<subseteq> span a n"
proof
  fix x assume k: "k + 16 \<le> n" and x: "x \<in> span (a + sizeof_khdr) k"
  then have "unat (x - (a + sizeof_khdr)) + 16 < n" by (simp add: span_def)
  from payload_span [OF this, of a] show "x \<in> span a n" by simp
qed

lemma holds_cong: "holds f b xs \<Longrightarrow> (\<And>x. x \<in> span (fst b) (snd b) \<Longrightarrow> g x = f x) \<Longrightarrow> holds g b xs"
proof -
  assume h: "holds f b xs" and g: "\<And>x. x \<in> span (fst b) (snd b) \<Longrightarrow> g x = f x"
  have l: "length xs + 16 \<le> snd b" using h by (simp add: holds_def)
  have "get_bytes (fst b + sizeof_khdr) (length xs) g = get_bytes (fst b + sizeof_khdr) (length xs) f"
    unfolding get_bytes_def using l by (intro map_cong [OF refl] g payload_span) simp
  with h show ?thesis by (simp add: holds_def)
qed

section \<open>The interface\<close>

locale heap_allocator =
  fixes owns :: "'h \<Rightarrow> (u32 \<times> nat) set \<Rightarrow> bool"
    and al :: "u32 \<Rightarrow> 'h \<Rightarrow> (u32 option \<times> 'h) kres"
    and fr :: "u32 \<Rightarrow> 'h \<Rightarrow> 'h kres"
    and bytes :: "'h \<Rightarrow> u32 \<Rightarrow> u8"
    and put :: "(u32 \<Rightarrow> u8) \<Rightarrow> 'h \<Rightarrow> 'h"
  assumes owns_apart: "owns h U \<Longrightarrow> u \<in> U \<Longrightarrow> v \<in> U \<Longrightarrow> u \<noteq> v \<Longrightarrow> span (fst u) (snd u) \<inter> span (fst v) (snd v) = {}"
    and al_block: "owns h U \<Longrightarrow> al sz h = Inr (Some p, h') \<Longrightarrow> unat sz + 16 + 4095 < 2 ^ 32 \<Longrightarrow>
      \<exists>a n. p = a + sizeof_khdr \<and> owns h' (insert (a, n) U) \<and> unat sz + 16 \<le> n
        \<and> (\<forall>u \<in> U. span a n \<inter> span (fst u) (snd u) = {})"
    and al_none: "owns h U \<Longrightarrow> al sz h = Inr (None, h') \<Longrightarrow> owns h' U"
    and al_bytes: "owns h U \<Longrightarrow> al sz h = Inr (r, h') \<Longrightarrow> u \<in> U \<Longrightarrow> x \<in> span (fst u) (snd u) \<Longrightarrow> bytes h' x = bytes h x"
    and fr_block: "owns h U \<Longrightarrow> (a, n) \<in> U \<Longrightarrow>
      \<exists>h'. fr (a + sizeof_khdr) h = Inr h' \<and> owns h' (U - {(a, n)}) \<and> bytes h' = bytes h"
    and al_panics: "owns h U \<Longrightarrow> al sz h = Inl e \<Longrightarrow> e = ''kmem: out of memory'' \<or> e = ''kmalloc: size too large''"
    and payload: "owns h U \<Longrightarrow> (a, n) \<in> U \<Longrightarrow> a + sizeof_khdr \<noteq> 0"
    and owns_put: "owns (put f h) U = owns h U"
    and bytes_put: "bytes (put f h) = f"
begin

text \<open>A block \<open>b\<close> in use holds the bytes \<open>xs\<close> from its payload on; a fresh block lets the others keep what they hold.\<close>

lemma al_fresh:
  assumes "owns h U" and "al sz h = Inr (Some p, h')" and "unat sz + 16 + 4095 < 2 ^ 32"
  shows "\<exists>a n. p = a + sizeof_khdr \<and> owns h' (insert (a, n) U) \<and> unat sz + 16 \<le> n \<and> (a, n) \<notin> U
    \<and> (\<forall>u \<in> U. span a n \<inter> span (fst u) (snd u) = {})
    \<and> (\<forall>u \<in> U. \<forall>xs. holds (bytes h) u xs \<longrightarrow> holds (bytes h') u xs)"
proof -
  from al_block [OF assms] obtain a n where r: "p = a + sizeof_khdr" "owns h' (insert (a, n) U)" "unat sz + 16 \<le> n"
    "\<forall>u \<in> U. span a n \<inter> span (fst u) (snd u) = {}" by blast
  moreover have "(a, n) \<notin> U" using r(3,4) span_self [of n a] by fastforce
  moreover have "holds (bytes h') u xs" if "u \<in> U" "holds (bytes h) u xs" for u xs
    using that(2) al_bytes [OF assms(1,2) that(1)] by (rule holds_cong)
  ultimately show ?thesis by blast
qed

text \<open>Writing the contents of one block leaves those of the others alone.\<close>

lemma put_payload:
  assumes "owns h U" and "(a, n) \<in> U" and "length xs + 16 \<le> n"
    and "u \<in> U" and "u \<noteq> (a, n)"
    and f: "\<And>x. x \<notin> span (a + sizeof_khdr) (length xs) \<Longrightarrow> f x = bytes h x" and "holds (bytes h) u ys"
  shows "holds f u ys"
proof (rule holds_cong [OF \<open>holds (bytes h) u ys\<close>])
  fix x assume x: "x \<in> span (fst u) (snd u)"
  have "span (fst u) (snd u) \<inter> span a n = {}" using owns_apart [OF assms(1,4,2,5)] by simp
  then have "x \<notin> span (a + sizeof_khdr) (length xs)"
    using x payload_sub [OF assms(3)] by blast
  then show "f x = bytes h x" by (rule f)
qed

end

section \<open>The kernel's allocator provides it\<close>

definition heap_owns :: "slab \<times> pmm \<Rightarrow> (u32 \<times> nat) set \<Rightarrow> bool" where
  "heap_owns st U \<longleftrightarrow> (\<exists>pg big live. slab_inv st pg big live \<and> kused big live = U)"

lemma used_in_page:
  assumes inv: "slab_inv st pg big live" and u: "u \<in> kused big live"
  shows "\<exists>b \<in> (\<lambda>(a, i). (a, 0)) ` pg \<union> big. span (fst u) (snd u) \<subseteq> block_addrs b"
proof -
  obtain fl where l: "heap_lists (fst st) pg live fl" and hd: "heap_headers (fst st) big live"
    using inv by (auto simp: slab_inv_def)
  from u consider (small) h i where "u = (h, unat (cache_bsize i))" "(h, i) \<in> live" | (large) h k where "u = (h, 4096 * 2 ^ k)" "(h, k) \<in> big"
    by (auto simp: kused_def)
  then show ?thesis
  proof cases
    case small
    have "i < NCACHE" using hd small(2) by (auto simp: heap_headers_def)
    from block_in_page [OF live_block [OF l hd small(2)] this]
    obtain a where "(a, i) \<in> pg" "span h (unat (cache_bsize i)) \<subseteq> block_addrs (a, 0)" by blast
    then show ?thesis using small(1) by force
  next
    case large
    then show ?thesis using span_block_addrs [of h k] by force
  qed
qed

lemma kmalloc_alloc:
  assumes "kmalloc sz st = Inr (r, st')"
  shows "snd st' = snd st \<or> (\<exists>k a. alloc_pages k (snd st) = (a, snd st'))"
proof -
  have "\<exists>a. alloc_pages 0 (snd st) = (a, snd t)" if "cache_refill i st = Inr t" for i t
    using that by (auto simp: cache_refill_def alloc_page_def split: prod.splits option.splits)
  with assms show ?thesis
    by (auto simp: kmalloc_def Let_def split: if_splits sum.splits prod.splits option.splits snode.splits) metis+
qed

lemma kmalloc_bytes:
  assumes inv: "slab_inv st pg big live" and r: "kmalloc sz st = Inr (r, st')"
    and u: "u \<in> kused big live" and x: "x \<in> span (fst u) (snd u)"
  shows "ram (snd st') x = ram (snd st) x"
proof -
  let ?B = "(\<lambda>(a, i). (a, 0 :: nat)) ` pg \<union> big"
  have own: "pmm_owns (snd st) ?B" using inv by (simp add: slab_inv_def slab_pages_def)
  obtain b where b: "b \<in> ?B" "x \<in> block_addrs b" using used_in_page [OF inv u] x by blast
  from kmalloc_alloc [OF r] consider "snd st' = snd st" | k where "alloc_pages k (snd st) = (None, snd st')"
    | k a where "alloc_pages k (snd st) = (Some a, snd st')" by (metis not_Some_eq)
  then show ?thesis
    by cases (auto dest: pages.owns_alloc_fails [OF own] pages.alloc_keeps_bytes [OF own _ b])
qed

lemma kmalloc_none:
  assumes inv: "slab_inv st pg big live" and r: "kmalloc sz st = Inr (None, st')"
  shows "slab_inv st' pg big live"
proof -
  have own: "pmm_owns (snd st) ((\<lambda>(a, i). (a, 0)) ` pg \<union> big)" using inv by (simp add: slab_inv_def slab_pages_def)
  from r have "fst st' = fst st \<and> (snd st' = snd st \<or> (\<exists>k. alloc_pages k (snd st) = (None, snd st')))"
    by (auto simp: kmalloc_def Let_def split: if_splits sum.splits prod.splits option.splits snode.splits)
  then have "st' = st" using pages.owns_alloc_fails [OF own] by (metis prod_eqI)
  with inv show ?thesis by simp
qed

lemma kfree_bytes:
  assumes inv: "slab_inv st pg big live" and u: "(h, n) \<in> kused big live" and r: "kfree (h + sizeof_khdr) st = Inr st'"
  shows "ram (snd st') = ram (snd st)"
proof -
  have own: "pmm_owns (snd st) ((\<lambda>(a, i). (a, 0)) ` pg \<union> big)" and hd: "heap_headers (fst st) big live"
    using inv by (simp_all add: slab_inv_def slab_pages_def)
  from u consider (small) i where "(h, i) \<in> live" | (large) k where "(h, k) \<in> big" by (auto simp: kused_def)
  then show ?thesis
  proof cases
    case small
    then have "h_size (fst st) h AND KFLAG_PAGE = 0" using hd class_flag by (auto simp: heap_headers_def)
    with r show ?thesis by (auto simp: kfree_def Let_def split: if_splits option.splits)
  next
    case large
    then have k: "k < MAX_ORDER" and hk: "h_size (fst st) h = KFLAG_PAGE OR of_nat k" using hd by (auto simp: heap_headers_def)
    have "(h, k) \<in> (\<lambda>(a, i). (a, 0)) ` pg \<union> big" using large by simp
    from pages.owns_free [OF own this] r show ?thesis
      using page_flag [OF k] by (auto simp: kfree_def Let_def hk split: if_splits sum.splits)
  qed
qed

lemma kused_unique:
  assumes inv: "slab_inv st pg big live" and u: "(h, n) \<in> kused big live" "(h, n') \<in> kused big live"
  shows "n = n'"
  using u kused_inj [OF inv u] by (auto simp: kused_def)

lemma slab_inv_ram: "slab_inv (sl, m\<lparr>ram := f\<rparr>) pg big live = slab_inv (sl, m) pg big live"
  by (simp add: slab_inv_def slab_pages_def pmm_owns_def pmm_inv_ram page_to_addr_def)

interpretation heap: heap_allocator heap_owns kmalloc kfree "\<lambda>st. ram (snd st)" "\<lambda>f st. (fst st, (snd st)\<lparr>ram := f\<rparr>)"
proof
  fix h U u v
  show "heap_owns h U \<Longrightarrow> u \<in> U \<Longrightarrow> v \<in> U \<Longrightarrow> u \<noteq> v \<Longrightarrow> span (fst u) (snd u) \<inter> span (fst v) (snd v) = {}"
    unfolding heap_owns_def using kused_apart kused_unique by (metis prod.collapse)
next
  fix h U sz p h'
  assume "heap_owns h U" "kmalloc sz h = Inr (Some p, h')" "unat sz + 16 + 4095 < 2 ^ 32"
  then show "\<exists>a n. p = a + sizeof_khdr \<and> heap_owns h' (insert (a, n) U) \<and> unat sz + 16 \<le> n
      \<and> (\<forall>u \<in> U. span a n \<inter> span (fst u) (snd u) = {})"
    using kmalloc_block unfolding heap_owns_def by metis
next
  fix h U sz h'
  show "heap_owns h U \<Longrightarrow> kmalloc sz h = Inr (None, h') \<Longrightarrow> heap_owns h' U"
    using kmalloc_none unfolding heap_owns_def by metis
next
  fix h U sz r h' u x
  show "heap_owns h U \<Longrightarrow> kmalloc sz h = Inr (r, h') \<Longrightarrow> u \<in> U \<Longrightarrow> x \<in> span (fst u) (snd u) \<Longrightarrow> ram (snd h') x = ram (snd h) x"
    using kmalloc_bytes unfolding heap_owns_def by metis
next
  fix h U a n
  assume "heap_owns h U" "(a, n) \<in> U"
  then obtain pg big live where i: "slab_inv h pg big live" "(a, n) \<in> kused big live" "kused big live = U" by (auto simp: heap_owns_def)
  from kfree_block [OF i(1,2)] kfree_bytes [OF i(1,2)] i(3)
  show "\<exists>h'. kfree (a + sizeof_khdr) h = Inr h' \<and> heap_owns h' (U - {(a, n)}) \<and> ram (snd h') = ram (snd h)"
    unfolding heap_owns_def by metis
next
  fix h U a n
  show "heap_owns h U \<Longrightarrow> (a, n) \<in> U \<Longrightarrow> a + sizeof_khdr \<noteq> 0"
    unfolding heap_owns_def using payload_not_null by metis
next
  fix h U sz e
  show "heap_owns h U \<Longrightarrow> kmalloc sz h = Inl e \<Longrightarrow> e = ''kmem: out of memory'' \<or> e = ''kmalloc: size too large''"
    unfolding heap_owns_def using kmalloc_fails by metis
next
  fix f and h :: "slab \<times> pmm" and U
  show "heap_owns (fst h, (snd h)\<lparr>ram := f\<rparr>) U = heap_owns h U"
    by (simp add: heap_owns_def slab_inv_ram)
qed simp

end
