(* ===== verification/Ramfs_Props.thy ===== *)
theory Ramfs_Props
  imports Ramfs Heap
begin

text \<open>
  The contents of ramfs files. Each file behaves like a list of bytes of its own, whatever sequence of reads, writes
  and truncations goes through \<open>fs_readi\<close>, \<open>fs_writei\<close> and \<open>fs_truncate\<close>; the buffers move on the kernel heap, and
  neither another file nor another block of the heap is touched.
\<close>

section \<open>Byte loops at an offset\<close>

lemma offset_index:
  assumes "i < 2 ^ 32" and "k + l \<le> 2 ^ 32"
  shows "unat (p + of_nat i - (p + of_nat k) :: u32) < l \<longleftrightarrow> k \<le> i \<and> i < k + l"
    and "k \<le> i \<Longrightarrow> unat (p + of_nat i - (p + of_nat k) :: u32) = i - k"
proof -
  have up: "unat (p + of_nat i - (p + of_nat k) :: u32) = i - k" if "k \<le> i"
  proof -
    have "p + of_nat i - (p + of_nat k) = (of_nat (i - k) :: u32)" using that by (simp add: of_nat_diff)
    then show ?thesis using assms(1) by (simp add: unat_of_nat)
  qed
  have dn: "unat (p + of_nat i - (p + of_nat k) :: u32) = 2 ^ 32 + i - k" if "i < k" "0 < l"
  proof -
    have "of_nat (2 ^ 32 + i - k) = (of_nat (2 ^ 32 + i) - of_nat k :: u32)" using that assms(2) by (intro of_nat_diff) simp
    also have "\<dots> = p + of_nat i - (p + of_nat k)" by simp
    finally have "p + of_nat i - (p + of_nat k) = (of_nat (2 ^ 32 + i - k) :: u32)" by simp
    moreover have "2 ^ 32 + i - k < 2 ^ 32" using that by simp
    ultimately show ?thesis by (simp add: unat_of_nat)
  qed
  show "unat (p + of_nat i - (p + of_nat k) :: u32) < l \<longleftrightarrow> k \<le> i \<and> i < k + l"
    using up dn assms(2) by (cases "k \<le> i"; cases "l = 0") auto
  show "k \<le> i \<Longrightarrow> unat (p + of_nat i - (p + of_nat k) :: u32) = i - k" by (rule up)
qed

lemma put_bytes_at:
  assumes "i < 2 ^ 32" and "k + length bs \<le> 2 ^ 32"
  shows "put_bytes (p + of_nat k) bs m (p + of_nat i) = (if k \<le> i \<and> i < k + length bs then bs ! (i - k) else m (p + of_nat i))"
  using assms(2) offset_index [OF assms, of p] by (auto simp: put_bytes_apply)

lemma memset_at:
  assumes "i < 2 ^ 32" and "k + l \<le> 2 ^ 32"
  shows "memset (p + of_nat k) c l m (p + of_nat i) = (if k \<le> i \<and> i < k + l then c else m (p + of_nat i))"
  using assms(2) offset_index [OF assms, of p] by (auto simp: memset_apply)

lemma copy_mem_apply:
  assumes "n \<le> 2 ^ 32" and sep: "\<And>j. j < n \<Longrightarrow> \<not> unat (src + of_nat j - dst) < n"
  shows "copy_mem dst src n m x = (if unat (x - dst) < n then m (src + (x - dst)) else m x)"
proof -
  define g where "g = (\<lambda>i (m :: u32 \<Rightarrow> u8). m(dst + of_nat i := m (src + of_nat i)))"
  have g: "g k f x = (if x = dst + of_nat k then f (src + of_nat k) else f x)" for k f x by (simp add: g_def)
  have "k \<le> n \<Longrightarrow> fold g [0..<k] m x =
      (if unat (x - dst) < k then m (src + (x - dst)) else m x)" for k x
  proof (induction k arbitrary: x)
    case (Suc k)
    have k: "unat (of_nat k :: u32) = k" using Suc.prems assms(1) by (simp add: unat_of_nat)
    have "\<not> unat (src + of_nat k - dst) < k" using sep [of k] Suc.prems by simp
    then have src: "fold g [0..<k] m (src + of_nat k) = m (src + of_nat k)"
      using Suc by simp
    show ?case
    proof (cases "x = dst + of_nat k")
      case True
      then show ?thesis using src k by (simp add: g [of k])
    next
      case False
      then have "x - dst \<noteq> of_nat k" by (simp add: algebra_simps)
      then have "unat (x - dst) \<noteq> k" using k by (metis unsigned_word_eqI)
      then show ?thesis using Suc False by (auto simp: g [of k])
    qed
  qed simp
  from this [of n x] show ?thesis by (simp add: copy_mem_def g_def)
qed

section \<open>Files as lists of bytes\<close>

definition file_rep :: "'z vfs_scheme \<Rightarrow> (u32 \<times> nat) set \<Rightarrow> nat \<Rightarrow> u8 list \<Rightarrow> bool" where
  "file_rep s U ip xs \<longleftrightarrow> i_type (inodes s ip) = T_FILE \<and> i_op (inodes s ip) = Some Ramfs_iops \<and> unat (i_size (inodes s ip)) = length xs
     \<and> (if i_data (inodes s ip) = 0 then xs = []
        else \<exists>b \<in> U. i_data (inodes s ip) = fst b + sizeof_khdr \<and> holds (ram (kmem s)) b xs)"

text \<open>The files \<open>F\<close> have the contents \<open>m\<close> in blocks of their own, and each block of \<open>K\<close> is in use with its contents.\<close>

definition files_in :: "'z vfs_scheme \<Rightarrow> (u32 \<times> nat) set \<Rightarrow> nat set \<Rightarrow> (nat \<Rightarrow> u8 list) \<Rightarrow> ((u32 \<times> nat) \<times> u8 list) set \<Rightarrow> bool" where
  "files_in s U F m K \<longleftrightarrow> heap_owns (heap_of s) U \<and> (\<forall>ip \<in> F. file_rep s U ip (m ip))
     \<and> (\<forall>ip \<in> F. \<forall>jp \<in> F. ip \<noteq> jp \<longrightarrow> i_data (inodes s ip) \<noteq> 0 \<longrightarrow> i_data (inodes s ip) \<noteq> i_data (inodes s jp))
     \<and> (\<forall>(b, ys) \<in> K. b \<in> U \<and> holds (ram (kmem s)) b ys \<and> (\<forall>ip \<in> F. i_data (inodes s ip) \<noteq> fst b + sizeof_khdr))"

definition files_rep :: "'z vfs_scheme \<Rightarrow> nat set \<Rightarrow> (nat \<Rightarrow> u8 list) \<Rightarrow> ((u32 \<times> nat) \<times> u8 list) set \<Rightarrow> bool" where
  "files_rep s F m K \<longleftrightarrow> (\<exists>U. files_in s U F m K)"

text \<open>One file changes: the other blocks stay in use with what they hold, and the file's block is none of them.\<close>

lemma files_in_upd:
  assumes r: "files_in s U F m K" and ip: "ip \<in> F" and own: "heap_owns (heap_of s') U'"
    and others: "\<And>jp. jp \<noteq> ip \<Longrightarrow> inodes s' jp = inodes s jp"
    and keep: "\<And>b ys. b \<in> U \<Longrightarrow> fst b + sizeof_khdr \<noteq> i_data (inodes s ip) \<Longrightarrow> holds (ram (kmem s)) b ys \<Longrightarrow>
      b \<in> U' \<and> holds (ram (kmem s')) b ys \<and> fst b + sizeof_khdr \<noteq> i_data (inodes s' ip)"
    and new: "file_rep s' U' ip xs"
  shows "files_in s' U' F (m(ip := xs)) K"
proof -
  have rep: "file_rep s U jp (m jp)" if "jp \<in> F" for jp using r that by (auto simp: files_in_def)
  have apart: "i_data (inodes s jp) \<noteq> i_data (inodes s ip)" if "jp \<in> F" "jp \<noteq> ip" "i_data (inodes s jp) \<noteq> 0" for jp
    using r ip that by (auto simp: files_in_def)
  have blk: "i_data (inodes s jp) \<noteq> i_data (inodes s' ip) \<and> file_rep s' U' jp (m jp)" if jp: "jp \<in> F" "jp \<noteq> ip" "i_data (inodes s jp) \<noteq> 0" for jp
  proof -
    obtain b where b: "b \<in> U" "i_data (inodes s jp) = fst b + sizeof_khdr" "holds (ram (kmem s)) b (m jp)"
      using rep [OF jp(1)] jp(3) by (auto simp: file_rep_def)
    from keep [OF b(1) _ b(3)] apart [OF jp] b(2) have "b \<in> U'" "holds (ram (kmem s')) b (m jp)" "fst b + sizeof_khdr \<noteq> i_data (inodes s' ip)"
      by simp_all
    with b(2) rep [OF jp(1)] others [OF jp(2)] show ?thesis by (auto simp: file_rep_def)
  qed
  have "file_rep s' U' jp ((m(ip := xs)) jp)" if "jp \<in> F" for jp
    using rep [OF that] blk [OF that] new others [of jp] by (cases "jp = ip"; cases "i_data (inodes s jp) = 0") (auto simp: file_rep_def)
  moreover have "i_data (inodes s' jp) \<noteq> i_data (inodes s' kp)" if "jp \<in> F" "kp \<in> F" "jp \<noteq> kp" "i_data (inodes s' jp) \<noteq> 0" for jp kp
  proof (cases "jp = ip \<or> kp = ip")
    case True
    then show ?thesis using that blk [of jp] blk [of kp] others [of jp] others [of kp] by auto
  next
    case False
    then show ?thesis using that r others [of jp] others [of kp] by (auto simp: files_in_def)
  qed
  moreover have "b \<in> U' \<and> holds (ram (kmem s')) b ys \<and> (\<forall>jp \<in> F. i_data (inodes s' jp) \<noteq> fst b + sizeof_khdr)" if k: "(b, ys) \<in> K" for b ys
  proof -
    have b: "b \<in> U" "holds (ram (kmem s)) b ys" "\<And>jp. jp \<in> F \<Longrightarrow> i_data (inodes s jp) \<noteq> fst b + sizeof_khdr"
      using r k by (auto simp: files_in_def)
    note n = keep [OF b(1) _ b(2)] b(3) [OF ip]
    have "i_data (inodes s' jp) \<noteq> fst b + sizeof_khdr" if "jp \<in> F" for jp
      using n b(3) [OF that] others [of jp] by (cases "jp = ip") auto
    with n show ?thesis by auto
  qed
  ultimately show ?thesis using own unfolding files_in_def by blast
qed

section \<open>The operations\<close>

lemma ram_ops_simps [simp]:
  "heap_of (put_ram a bs s) = (kslab s, (kmem s)\<lparr>ram := put_bytes a bs (ram (kmem s))\<rparr>)"
  "heap_of (copy_ram d c n s) = (kslab s, (kmem s)\<lparr>ram := copy_mem d c n (ram (kmem s))\<rparr>)"
  "heap_of (zero_ram a n s) = (kslab s, (kmem s)\<lparr>ram := memset a 0 n (ram (kmem s))\<rparr>)"
  "inodes (put_ram a bs t) = inodes t" "inodes (copy_ram d c n t) = inodes t" "inodes (zero_ram a n t) = inodes t"
  "ram (kmem (put_ram a bs s)) = put_bytes a bs (ram (kmem s))"
  "ram (kmem (copy_ram d c n s)) = copy_mem d c n (ram (kmem s))"
  "ram (kmem (zero_ram a n s)) = memset a 0 n (ram (kmem s))"
  by (simp_all add: put_ram_def copy_ram_def zero_ram_def heap_of_def)

lemma heap_owns_ram [simp]:
  "heap_owns (kslab s, (kmem s)\<lparr>ram := f\<rparr>) U = heap_owns (heap_of s) U"
  using heap.owns_put [of "heap_of s" f U] by simp

lemma get_bytes_eq: "length xs = n \<Longrightarrow> (\<And>i. i < n \<Longrightarrow> m (a + of_nat i) = xs ! i) \<Longrightarrow> get_bytes a n m = xs"
  by (rule nth_equalityI) (simp_all add: get_bytes_def)

lemma holds_nth: "holds f b xs \<Longrightarrow> i < length xs \<Longrightarrow> f (fst b + sizeof_khdr + of_nat i) = xs ! i"
proof -
  assume h: "holds f b xs" and i: "i < length xs"
  have "f (fst b + sizeof_khdr + of_nat i) = get_bytes (fst b + sizeof_khdr) (length xs) f ! i" using i by (simp add: get_bytes_def)
  then show ?thesis using h by (simp add: holds_def)
qed

text \<open>Writing inside the file.\<close>

lemma put_inside:
  assumes r: "files_rep s F m K" and ip: "ip \<in> F" and d: "i_data (inodes s ip) \<noteq> 0"
    and off: "unat off + length bs \<le> length (m ip)"
  shows "files_rep (put_ram (i_data (inodes s ip) + off) bs s) F
    (m(ip := take (unat off) (m ip) @ bs @ drop (unat off + length bs) (m ip))) K"
proof -
  obtain U where u: "files_in s U F m K" using r by (auto simp: files_rep_def)
  have fr: "file_rep s U ip (m ip)" using u ip by (auto simp: files_in_def)
  then obtain a n where b: "(a, n) \<in> U" "i_data (inodes s ip) = a + sizeof_khdr" "holds (ram (kmem s)) (a, n) (m ip)"
    using d by (auto simp: file_rep_def)
  have len: "length (m ip) < 2 ^ 32" using fr unat_u32 [of "i_size (inodes s ip)"] by (simp add: file_rep_def)
  have sz: "length (m ip) + 16 \<le> n" using b(3) by (simp add: holds_def)
  let ?p = "a + sizeof_khdr" and ?xs = "take (unat off) (m ip) @ bs @ drop (unat off + length bs) (m ip)"
  let ?s' = "put_ram (?p + off) bs s"
  have at: "put_bytes (?p + off) bs f (?p + of_nat i) = (if unat off \<le> i \<and> i < unat off + length bs then bs ! (i - unat off) else f (?p + of_nat i))"
    if "i < 2 ^ 32" for i f
    using put_bytes_at [OF that, of "unat off" bs ?p f] off len by simp
  have own: "heap_owns (heap_of s) U" using u by (simp add: files_in_def)
  have out: "ram (kmem ?s') x = ram (kmem s) x" if "x \<notin> span ?p (length (m ip))" for x
    using at [of "unat (x - ?p)" "ram (kmem s)"] that off unat_u32 [of "x - ?p"] by (simp add: span_def)
  have new: "holds (ram (kmem ?s')) (a, n) ?xs"
  proof -
    have "get_bytes ?p (length ?xs) (ram (kmem ?s')) = ?xs"
    proof (rule get_bytes_eq [OF refl])
      fix i assume i: "i < length ?xs"
      then have "i < length (m ip)" "i < 2 ^ 32" using off len by auto
      then show "ram (kmem ?s') (?p + of_nat i) = ?xs ! i"
        using at [of i "ram (kmem s)"] holds_nth [OF b(3), of i] off by (auto simp: nth_append min_def)
    qed
    then show ?thesis using sz off by (simp add: holds_def)
  qed
  have "files_in ?s' U F (m(ip := ?xs)) K"
  proof (rule files_in_upd [OF u ip])
    show "heap_owns (heap_of ?s') U" using own by simp
    show "file_rep ?s' U ip ?xs" using fr b(1,2) new off by (auto simp: file_rep_def intro: bexI [of _ "(a, n)"])
    fix v ys assume v: "v \<in> U" "fst v + sizeof_khdr \<noteq> i_data (inodes s ip)" "holds (ram (kmem s)) v ys"
    have "v \<noteq> (a, n)" using v(2) b(2) by auto
    from heap.put_payload [OF own b(1) sz v(1) this, where f = "ram (kmem ?s')" and ys = ys] out v(3)
    have "holds (ram (kmem ?s')) v ys" by simp
    then show "v \<in> U \<and> holds (ram (kmem ?s')) v ys \<and> fst v + sizeof_khdr \<noteq> i_data (inodes ?s' ip)" using v by simp
  qed simp
  then show ?thesis using b(2) by (auto simp: files_rep_def)
qed

text \<open>A new buffer in place of the old one: the old data is moved to the fresh block \<open>(a, n)\<close> and its block freed.\<close>

lemma move_old:
  assumes fr: "file_rep s U ip xs" and own: "heap_owns h1 (insert (a, n) U)" and new: "(a, n) \<notin> U"
    and sep: "\<forall>u \<in> U. span a n \<inter> span (fst u) (snd u) = {}"
    and keep: "\<forall>u \<in> U. \<forall>xs. holds (ram (kmem s)) u xs \<longrightarrow> holds (ram (snd h1)) u xs"
    and k: "k \<le> length xs" "k + 16 \<le> n" and old: "old = i_data (inodes s ip)" and buf: "buf = a + sizeof_khdr"
  shows "\<exists>h2 U2. (if old \<noteq> 0 then do_kfree old (copy_ram buf old k (set_heap h1 s)) else Inr (set_heap h1 s)) = Inr (set_heap h2 s)
    \<and> heap_owns h2 (insert (a, n) U2) \<and> (\<forall>v \<in> U. fst v + sizeof_khdr \<noteq> old \<longrightarrow> v \<in> U2)
    \<and> (\<forall>i < k. ram (snd h2) (buf + of_nat i) = xs ! i) \<and> (\<forall>x. x \<notin> span buf k \<longrightarrow> ram (snd h2) x = ram (snd h1) x)"
proof (cases "old = 0")
  case True
  then have "k = 0" using fr k(1) old by (simp add: file_rep_def)
  then show ?thesis using True own by (intro exI [of _ h1] exI [of _ U]) simp
next
  case False
  then obtain oa on where ob: "(oa, on) \<in> U" "old = oa + sizeof_khdr" "holds (ram (kmem s)) (oa, on) xs"
    using fr old by (auto simp: file_rep_def)
  have hold: "holds (ram (snd h1)) (oa, on) xs" using keep ob by blast
  then have sz: "length xs + 16 \<le> on" by (simp add: holds_def)
  have k32: "k \<le> 2 ^ 32" using fr k(1) unat_u32 [of "i_size (inodes s ip)"] by (simp add: file_rep_def)
  let ?f = "copy_mem buf old k (ram (snd h1))"
  have f: "?f x = (if unat (x - buf) < k then ram (snd h1) (old + (x - buf)) else ram (snd h1) x)" for x
  proof (rule copy_mem_apply [OF k32])
    fix j assume j: "j < k"
    then have "old + of_nat j \<in> span oa on" unfolding ob(2) using k(1) sz by (intro payload_span) simp
    then have "old + of_nat j \<notin> span a n" using sep ob(1) by fastforce
    then have "old + of_nat j \<notin> span buf k" using payload_sub [OF k(2), of a] buf by blast
    then show "\<not> unat (old + of_nat j - buf) < k" by (simp add: span_def)
  qed
  have "heap_owns (fst h1, (snd h1)\<lparr>ram := ?f\<rparr>) (insert (a, n) U)" using own heap.owns_put by simp
  from heap.fr_block [OF this, of oa on] ob(1) obtain h2 where h2: "kfree old (fst h1, (snd h1)\<lparr>ram := ?f\<rparr>) = Inr h2"
    "heap_owns h2 (insert (a, n) U - {(oa, on)})" "ram (snd h2) = ?f" unfolding ob(2) by auto
  have "insert (a, n) U - {(oa, on)} = insert (a, n) (U - {(oa, on)})" using new ob(1) by auto
  with h2(2) have own2: "heap_owns h2 (insert (a, n) (U - {(oa, on)}))" by simp
  have "do_kfree old (copy_ram buf old k (set_heap h1 s)) = Inr (set_heap h2 s)"
    using h2(1) by (simp add: do_kfree_def) (simp add: copy_ram_def set_heap_def)
  moreover have "?f (buf + of_nat i) = xs ! i" if "i < k" for i
    unfolding f using that k(1) k32 holds_nth [OF hold, of i] by (simp add: ob(2) unat_of_nat)
  ultimately show ?thesis using own2 h2(3) ob(2) False f
    by (intro exI [of _ h2] exI [of _ "U - {(oa, on)}"]) (auto simp: span_def)
qed

lemma fresh_buffer:
  assumes r: "files_rep s F m K" and ip: "ip \<in> F" and al: "do_kmalloc len s = Inr (Some buf, s1)"
    and bound: "unat len + 16 + 4095 < 2 ^ 32" and k: "unat k \<le> length (m ip)" "unat k \<le> unat len"
  shows "\<exists>s2. replace_data ip buf k k len s1 = Inr s2
    \<and> files_rep s2 F (m(ip := take (unat k) (m ip) @ replicate (unat len - unat k) 0)) K
    \<and> i_data (inodes s2 ip) = buf \<and> buf \<noteq> 0 \<and> i_size (inodes s2 ip) = len"
proof -
  obtain U where u: "files_in s U F m K" using r by (auto simp: files_rep_def)
  have fr: "file_rep s U ip (m ip)" using u ip by (auto simp: files_in_def)
  have own: "heap_owns (heap_of s) U" using u by (simp add: files_in_def)
  obtain h1 where h1: "kmalloc len (heap_of s) = Inr (Some buf, h1)" "s1 = set_heap h1 s"
    using al by (auto simp: do_kmalloc_def split: sum.splits)
  from heap.al_fresh [OF own h1(1) bound] obtain a n where b: "buf = a + sizeof_khdr" "heap_owns h1 (insert (a, n) U)"
    "unat len + 16 \<le> n" "(a, n) \<notin> U" "\<forall>u \<in> U. span a n \<inter> span (fst u) (snd u) = {}"
    "\<forall>u \<in> U. \<forall>xs. holds (ram (kmem s)) u xs \<longrightarrow> holds (ram (snd h1)) u xs" by auto
  have nz: "buf \<noteq> 0" using heap.payload [OF b(2), of a n] b(1) by simp
  have kn: "unat k + 16 \<le> n" using b(3) k(2) by simp
  from move_old [OF fr b(2,4,5,6) k(1) kn refl b(1)] obtain h2 U2 where m2:
    "(if i_data (inodes s ip) \<noteq> 0 then do_kfree (i_data (inodes s ip)) (copy_ram buf (i_data (inodes s ip)) (unat k) (set_heap h1 s)) else Inr (set_heap h1 s)) = Inr (set_heap h2 s)"
    "heap_owns h2 (insert (a, n) U2)" "\<forall>v \<in> U. fst v + sizeof_khdr \<noteq> i_data (inodes s ip) \<longrightarrow> v \<in> U2"
    "\<forall>i < unat k. ram (snd h2) (buf + of_nat i) = m ip ! i" "\<forall>x. x \<notin> span buf (unat k) \<longrightarrow> ram (snd h2) x = ram (snd h1) x"
    by blast
  define s2 where "s2 = upd_inode ip (\<lambda>x. x\<lparr>i_data := buf, i_size := len\<rparr>) (zero_ram (buf + k) (unat len - unat k) (set_heap h2 s))"
  let ?xs = "take (unat k) (m ip) @ replicate (unat len - unat k) 0"
  have s2: "replace_data ip buf k k len s1 = Inr s2" using m2(1) by (simp add: replace_data_def h1(2) Let_def s2_def)
  have ram2: "ram (kmem s2) = memset (buf + k) 0 (unat len - unat k) (ram (snd h2))" by (simp add: s2_def)
  have at: "ram (kmem s2) (buf + of_nat i) = (if unat k \<le> i \<and> i < unat len then 0 else ram (snd h2) (buf + of_nat i))" if "i < 2 ^ 32" for i
    using memset_at [OF that, of "unat k" "unat len - unat k" buf] k(2) unat_u32 [of len] by (simp add: ram2)
  have out: "ram (kmem s2) x = ram (snd h1) x" if x: "x \<notin> span buf (unat len)" for x
  proof -
    have "x \<notin> span buf (unat k)" using x k(2) by (auto simp: span_def)
    then show ?thesis using x at [of "unat (x - buf)"] m2(5) unat_u32 [of "x - buf"] by (simp add: span_def)
  qed
  have len: "length ?xs = unat len" using k by simp
  have new: "holds (ram (kmem s2)) (a, n) ?xs"
  proof -
    have "get_bytes buf (length ?xs) (ram (kmem s2)) = ?xs"
    proof (rule get_bytes_eq [OF refl])
      fix i assume i: "i < length ?xs"
      then have "i < unat len" "i < 2 ^ 32" using len unat_u32 [of len] by auto
      then show "ram (kmem s2) (buf + of_nat i) = ?xs ! i" using at [of i] m2(4) k by (auto simp: nth_append)
    qed
    then show ?thesis using b(1,3) len by (simp add: holds_def)
  qed
  have "files_in s2 (insert (a, n) U2) F (m(ip := ?xs)) K"
  proof (rule files_in_upd [OF u ip])
    show "heap_owns (heap_of s2) (insert (a, n) U2)" using m2(2) heap.owns_put by (simp add: s2_def)
    show "file_rep s2 (insert (a, n) U2) ip ?xs"
      using fr new b(1) len nz by (auto simp: file_rep_def s2_def)
    show "inodes s2 jp = inodes s jp" if "jp \<noteq> ip" for jp using that by (simp add: s2_def)
    fix v ys assume v: "v \<in> U" "fst v + sizeof_khdr \<noteq> i_data (inodes s ip)" "holds (ram (kmem s)) v ys"
    have "v \<noteq> (a, n)" using v(1) b(4) by auto
    have h: "holds (ram (snd h1)) v ys" using b(6) v by blast
    have "holds (ram (kmem s2)) v ys"
      using heap.put_payload [OF b(2), of a n ?xs v "ram (kmem s2)" ys] b(3) len out h v(1) \<open>v \<noteq> (a, n)\<close> b(1) by simp
    moreover have "fst v \<noteq> a"
    proof
      assume "fst v = a"
      moreover have "0 < snd v" using v(3) by (simp add: holds_def)
      ultimately show False using b(3,5) v(1) span_self [of n a] span_self [of "snd v" a] by fastforce
    qed
    ultimately show "v \<in> insert (a, n) U2 \<and> holds (ram (kmem s2)) v ys \<and> fst v + sizeof_khdr \<noteq> i_data (inodes s2 ip)"
      using m2(3) v(1,2) b(1) by (simp add: s2_def)
  qed
  then show ?thesis using s2 nz by (auto simp: files_rep_def s2_def)
qed

section \<open>What the operations do to the contents\<close>

definition spec_read :: "nat \<Rightarrow> nat \<Rightarrow> 'b list \<Rightarrow> 'b list" where
  "spec_read off n xs = take n (drop off xs)"

definition spec_truncate :: "nat \<Rightarrow> 'b::zero list \<Rightarrow> 'b list" where
  "spec_truncate len xs = take len xs @ replicate (len - length xs) 0"

definition spec_write :: "nat \<Rightarrow> 'b::zero list \<Rightarrow> 'b list \<Rightarrow> 'b list" where
  "spec_write off bs xs =
     (if bs = [] then xs
      else let ys = spec_truncate (max (length xs) (off + length bs)) xs in take off ys @ bs @ drop (off + length bs) ys)"

definition heap_panic :: "string \<Rightarrow> bool" where
  "heap_panic e \<longleftrightarrow> e = ''kmem: out of memory'' \<or> e = ''kmalloc: size too large''"

lemma files_rep_same:
  assumes r: "files_rep s F m K" and h: "heap_of s' = heap_of s"
    and same: "\<And>ip. i_type (inodes s' ip) = i_type (inodes s ip) \<and> i_op (inodes s' ip) = i_op (inodes s ip)
      \<and> i_data (inodes s' ip) = i_data (inodes s ip) \<and> i_size (inodes s' ip) = i_size (inodes s ip)"
  shows "files_rep s' F m K"
proof -
  have k: "kmem s' = kmem s" using h by (simp add: heap_of_def)
  have "files_in s' U F m K = files_in s U F m K" for U
    by (simp add: files_in_def file_rep_def h k same)
  then show ?thesis using r by (simp add: files_rep_def)
qed

lemma files_rep_touch: "files_rep s F m K \<Longrightarrow> files_rep (fs_inode_touch ip a b s) F m K"
  by (erule files_rep_same) (simp_all add: fs_inode_touch_def Let_def)

lemma do_kmalloc_none:
  assumes r: "files_rep s F m K" and al: "do_kmalloc sz s = Inr (None, s1)"
  shows "files_rep s1 F m K"
proof -
  obtain U where u: "files_in s U F m K" using r by (auto simp: files_rep_def)
  then have own: "heap_owns (heap_of s) U" by (simp add: files_in_def)
  obtain h1 where h1: "kmalloc sz (heap_of s) = Inr (None, h1)" "s1 = set_heap h1 s"
    using al by (auto simp: do_kmalloc_def split: sum.splits)
  have hold: "holds (ram (snd h1)) b xs" if "b \<in> U" "holds (ram (kmem s)) b xs" for b xs
    using holds_cong [OF that(2)] heap.al_bytes [OF own h1(1) that(1)] by simp
  have "file_rep s1 U ip (m ip)" if "file_rep s U ip (m ip)" for ip
    using that by (cases "i_data (inodes s ip) = 0") (auto simp: file_rep_def h1(2) intro: hold)
  then have "files_in s1 U F m K"
    unfolding files_in_def using u [unfolded files_in_def] hold heap.al_none [OF own h1(1)]
    by (simp add: h1(2) split_beta)
  then show ?thesis by (auto simp: files_rep_def)
qed

lemma do_kmalloc_panic: "files_rep s F m K \<Longrightarrow> do_kmalloc sz s = Inl e \<Longrightarrow> heap_panic e"
  using heap.al_panics by (auto simp: files_rep_def files_in_def do_kmalloc_def heap_panic_def split: sum.splits)

lemma length_rep:
  assumes "files_rep s F m K" and "ip \<in> F"
  shows "length (m ip) = unat (i_size (inodes s ip))" and "i_type (inodes s ip) = T_FILE" and "i_op (inodes s ip) = Some Ramfs_iops"
    and "i_data (inodes s ip) = 0 \<Longrightarrow> m ip = []"
  using assms by (auto simp: files_rep_def files_in_def file_rep_def)

lemma spec_write_inside:
  assumes "bs \<noteq> []" and "off + length bs \<le> length xs"
  shows "spec_write off bs xs = take off xs @ bs @ drop (off + length bs) xs"
  using assms by (simp add: spec_write_def spec_truncate_def max_def Let_def)

lemma ramfs_write_ok:
  assumes r: "files_rep s F m K" and ip: "ip \<in> F"
    and bound: "unat off + length bs + 16 + 4095 < 2 ^ 32" and len: "length bs < 2 ^ 31"
  shows "case ramfs_write ip bs off s of
      Inl e \<Rightarrow> heap_panic e
    | Inr (k, s') \<Rightarrow> (k = int (length bs) \<and> files_rep s' F (m(ip := spec_write (unat off) bs (m ip))) K)
        \<or> (k = - 1 \<and> files_rep s' F m K)"
proof -
  let ?n = "of_nat (length bs) :: u32"
  note l = length_rep [OF r ip]
  have n: "unat ?n = length bs" using len by (simp add: unat_of_nat)
  have sn: "sint ?n = int (length bs)" using len by (simp add: sint_u32 n)
  have new: "unat (off + ?n) = unat off + length bs" using bound n by (simp add: unat_word_ariths)
  consider (none) "bs = []" | (grow) "bs \<noteq> []" "i_size (inodes s ip) < off + ?n \<or> i_data (inodes s ip) = 0"
    | (inside) "bs \<noteq> []" "\<not> i_size (inodes s ip) < off + ?n" "i_data (inodes s ip) \<noteq> 0" by blast
  then show ?thesis
  proof cases
    case none
    then show ?thesis using r l by (simp add: ramfs_write_def Let_def spec_write_def)
  next
    case grow
    have nz: "?n \<noteq> 0" "off + ?n \<noteq> 0" using grow(1) n new by (auto simp: unat_eq_0 [symmetric])
    have le: "length (m ip) \<le> unat off + length bs" using grow(2) l(1,4) new by (auto simp: word_less_nat_alt)
    show ?thesis
    proof (cases "do_kmalloc (off + ?n) s")
      case (Inl e)
      then show ?thesis using do_kmalloc_panic [OF r Inl] nz grow l by (simp add: ramfs_write_def Let_def)
    next
      case (Inr q)
      obtain p s1 where q: "q = (p, s1)" by force
      show ?thesis
      proof (cases p)
        case None
        then show ?thesis using do_kmalloc_none [OF r, of "off + ?n" s1] Inr q nz grow l by (simp add: ramfs_write_def Let_def)
      next
        case (Some buf)
        have al: "do_kmalloc (off + ?n) s = Inr (Some buf, s1)" using Inr q Some by simp
        have "unat (off + ?n) + 16 + 4095 < 2 ^ 32" "unat (i_size (inodes s ip)) \<le> unat (off + ?n)" using bound new le l(1) by simp_all
        from fresh_buffer [OF r ip al this(1) _ this(2)] l(1) obtain s2 where s2:
          "replace_data ip buf (i_size (inodes s ip)) (i_size (inodes s ip)) (off + ?n) s1 = Inr s2"
          "files_rep s2 F (m(ip := m ip @ replicate (unat (off + ?n) - length (m ip)) 0)) K"
          "i_data (inodes s2 ip) = buf" "buf \<noteq> 0" "i_size (inodes s2 ip) = off + ?n" by auto
        let ?m2 = "m(ip := m ip @ replicate (unat (off + ?n) - length (m ip)) 0)"
        have "unat off + length bs \<le> length (?m2 ip)" using le new by simp
        from put_inside [OF s2(2) ip _ this, unfolded fun_upd_upd] s2(3,4)
        have "files_rep (put_ram (buf + off) bs s2) F (m(ip := spec_write (unat off) bs (m ip))) K"
          using le new grow(1) by (simp add: spec_write_def spec_truncate_def max_def)
        then show ?thesis using al s2 nz grow l sn by (simp add: ramfs_write_def Let_def)
      qed
    qed
  next
    case inside
    have "unat off + length bs \<le> length (m ip)" using inside(2) l(1) new by (simp add: word_less_nat_alt)
    from put_inside [OF r ip inside(3) this] spec_write_inside [OF inside(1) this]
    have "files_rep (put_ram (i_data (inodes s ip) + off) bs s) F (m(ip := spec_write (unat off) bs (m ip))) K" by simp
    then show ?thesis using inside l sn n by (auto simp: ramfs_write_def Let_def unat_eq_0 [symmetric])
  qed
qed

lemma drop_data:
  assumes r: "files_rep s F m K" and ip: "ip \<in> F" and d: "i_data (inodes s ip) \<noteq> 0"
  shows "\<exists>s1. do_kfree (i_data (inodes s ip)) s = Inr s1
    \<and> files_rep (upd_inode ip (\<lambda>x. x\<lparr>i_size := 0\<rparr>) (upd_inode ip (\<lambda>x. x\<lparr>i_data := 0\<rparr>) s1)) F (m(ip := [])) K"
proof -
  obtain U where u: "files_in s U F m K" using r by (auto simp: files_rep_def)
  have fr: "file_rep s U ip (m ip)" and own: "heap_owns (heap_of s) U" using u ip by (auto simp: files_in_def)
  then obtain a n where b: "(a, n) \<in> U" "i_data (inodes s ip) = a + sizeof_khdr" using d by (auto simp: file_rep_def)
  from heap.fr_block [OF own b(1)] obtain h where h: "kfree (a + sizeof_khdr) (heap_of s) = Inr h"
    "heap_owns h (U - {(a, n)})" "ram (snd h) = ram (kmem s)" by auto
  let ?s' = "upd_inode ip (\<lambda>x. x\<lparr>i_size := 0\<rparr>) (upd_inode ip (\<lambda>x. x\<lparr>i_data := 0\<rparr>) (set_heap h s))"
  have "files_in ?s' (U - {(a, n)}) F (m(ip := [])) K"
  proof (rule files_in_upd [OF u ip])
    show "heap_owns (heap_of ?s') (U - {(a, n)})" using h(2) by simp
    show "file_rep ?s' (U - {(a, n)}) ip []" using fr by (simp add: file_rep_def)
    show "inodes ?s' jp = inodes s jp" if "jp \<noteq> ip" for jp using that by simp
    fix v ys assume v: "v \<in> U" "fst v + sizeof_khdr \<noteq> i_data (inodes s ip)" "holds (ram (kmem s)) v ys"
    have "fst v + sizeof_khdr \<noteq> 0" using heap.payload [OF own, of "fst v" "snd v"] v(1) by simp
    then show "v \<in> U - {(a, n)} \<and> holds (ram (kmem ?s')) v ys \<and> fst v + sizeof_khdr \<noteq> i_data (inodes ?s' ip)"
      using v b(2) h(3) by auto
  qed
  moreover have "do_kfree (i_data (inodes s ip)) s = Inr (set_heap h s)" using h(1) b(2) by (simp add: do_kfree_def)
  ultimately show ?thesis by (auto simp: files_rep_def)
qed

lemma ramfs_truncate_ok:
  assumes r: "files_rep s F m K" and ip: "ip \<in> F" and bound: "unat len + 16 + 4095 < 2 ^ 32"
  shows "case ramfs_truncate ip len s of
      Inl e \<Rightarrow> heap_panic e
    | Inr (k, s') \<Rightarrow> (k = 0 \<and> files_rep s' F (m(ip := spec_truncate (unat len) (m ip))) K) \<or> (k = - 1 \<and> files_rep s' F m K)"
proof -
  note l = length_rep [OF r ip]
  consider (same) "len = i_size (inodes s ip)" | (zero) "len \<noteq> i_size (inodes s ip)" "len = 0"
    | (change) "len \<noteq> i_size (inodes s ip)" "len \<noteq> 0" by blast
  then show ?thesis
  proof cases
    case same
    then show ?thesis using r l by (simp add: ramfs_truncate_def Let_def spec_truncate_def)
  next
    case zero
    then have "unat (i_size (inodes s ip)) \<noteq> 0" by (simp add: unat_eq_0)
    then have d: "i_data (inodes s ip) \<noteq> 0" using l(1,4) by auto
    from drop_data [OF r ip d] show ?thesis using zero l d by (auto simp: ramfs_truncate_def Let_def spec_truncate_def)
  next
    case change
    show ?thesis
    proof (cases "do_kmalloc len s")
      case (Inl e)
      then show ?thesis using do_kmalloc_panic [OF r Inl] change l by (simp add: ramfs_truncate_def Let_def)
    next
      case (Inr q)
      obtain p s1 where q: "q = (p, s1)" by force
      show ?thesis
      proof (cases p)
        case None
        then show ?thesis using do_kmalloc_none [OF r, of len s1] Inr q change l by (simp add: ramfs_truncate_def Let_def)
      next
        case (Some buf)
        let ?k = "min len (i_size (inodes s ip))"
        have k: "unat ?k = min (unat len) (length (m ip))" using l(1) by (simp add: min_def word_le_nat_alt)
        have al: "do_kmalloc len s = Inr (Some buf, s1)" using Inr q Some by simp
        have z: "(if i_data (inodes s ip) \<noteq> 0 then ?k else 0) = ?k" using l(1,4) by (auto simp: unat_eq_0 min_def)
        have "spec_truncate (unat len) (m ip) = take (unat ?k) (m ip) @ replicate (unat len - unat ?k) 0"
          unfolding k spec_truncate_def by (simp add: min_def)
        with fresh_buffer [OF r ip al bound, of ?k] k obtain s2 where
          "replace_data ip buf ?k ?k len s1 = Inr s2" "files_rep s2 F (m(ip := spec_truncate (unat len) (m ip))) K" by auto
        then show ?thesis using al change l z by (simp add: ramfs_truncate_def Let_def)
      qed
    qed
  qed
qed

lemma ramfs_read_ok:
  assumes r: "files_rep s F m K" and ip: "ip \<in> F" and bound: "unat off + unat n < 2 ^ 32" and n: "unat n < 2 ^ 31"
  shows "ramfs_read ip off n s = (int (length (spec_read (unat off) (unat n) (m ip))), spec_read (unat off) (unat n) (m ip))"
proof -
  note l = length_rep [OF r ip]
  have new: "unat (off + n) = unat off + unat n" using bound by (simp add: unat_word_ariths)
  show ?thesis
  proof (cases "i_size (inodes s ip) < off \<or> i_data (inodes s ip) = 0")
    case True
    then show ?thesis using l by (auto simp: ramfs_read_def Let_def spec_read_def word_less_nat_alt)
  next
    case False
    obtain U where "file_rep s U ip (m ip)" using r ip by (auto simp: files_rep_def files_in_def)
    then obtain b where b: "i_data (inodes s ip) = fst b + sizeof_khdr" "holds (ram (kmem s)) b (m ip)"
      using False by (auto simp: file_rep_def)
    let ?k = "if i_size (inodes s ip) < off + n then i_size (inodes s ip) - off else n"
    have off: "unat off \<le> length (m ip)" using False l(1) by (simp add: word_less_nat_alt)
    have k: "unat ?k = min (unat n) (length (m ip) - unat off)"
      using off l(1) new by (auto simp: word_less_nat_alt unat_sub word_le_nat_alt)
    have "get_ram (i_data (inodes s ip) + off) (unat ?k) s = spec_read (unat off) (unat n) (m ip)"
      unfolding get_ram_def
    proof (rule get_bytes_eq)
      show "length (spec_read (unat off) (unat n) (m ip)) = unat ?k" using k by (simp add: spec_read_def min.commute)
      fix i assume i: "i < unat ?k"
      then have "i < length (m ip) - unat off" using k by simp
      then have lt: "unat off + i < length (m ip)" by simp
      have "i_data (inodes s ip) + off + of_nat i = fst b + sizeof_khdr + of_nat (unat off + i)" using b(1) by (simp add: add.assoc)
      then show "ram (kmem s) (i_data (inodes s ip) + off + of_nat i) = spec_read (unat off) (unat n) (m ip) ! i"
        using holds_nth [OF b(2) lt] i k off by (simp add: spec_read_def add.assoc)
    qed
    moreover have "sint ?k = int (length (spec_read (unat off) (unat n) (m ip)))"
      using k n by (simp add: sint_u32 spec_read_def min.commute)
    ultimately show ?thesis using False l by (simp add: ramfs_read_def Let_def)
  qed
qed

section \<open>Properties\<close>

datatype file_op = FRead nat u32 u32 | FWrite nat "u8 list" u32 | FTruncate nat u32

definition file_op_run :: "nat \<Rightarrow> file_op \<Rightarrow> 'z vfs_scheme \<Rightarrow> ((pipe_out \<times> u8 list) \<times> 'z vfs_scheme) kres" where
  "file_op_run p q s =
     (case q of
        FRead ip off n \<Rightarrow> kbind (fs_readi p ip off n s) (\<lambda>(r, bs, s1). Inr ((r, bs), s1))
      | FWrite ip bs off \<Rightarrow> kbind (fs_writei p ip bs off s) (\<lambda>(r, s1). Inr ((r, []), s1))
      | FTruncate ip len \<Rightarrow> kbind (fs_truncate ip len s) (\<lambda>(r, s1). Inr ((PRet r, []), s1)))"

fun file_run :: "nat \<Rightarrow> file_op list \<Rightarrow> 'z vfs_scheme \<Rightarrow> ((pipe_out \<times> u8 list) list \<times> 'z vfs_scheme) kres" where
  "file_run p [] s = Inr ([], s)"
| "file_run p (q # qs) s =
     kbind (file_op_run p q s) (\<lambda>(r, s1). kbind (file_run p qs s1) (\<lambda>(rs, s2). Inr (r # rs, s2)))"

text \<open>The operations within the range of offsets that the system calls can reach.\<close>

fun file_op_ok :: "nat set \<Rightarrow> file_op \<Rightarrow> bool" where
  "file_op_ok F (FRead ip off n) \<longleftrightarrow> ip \<in> F \<and> unat off + unat n < 2 ^ 32 \<and> unat n < 2 ^ 31"
| "file_op_ok F (FWrite ip bs off) \<longleftrightarrow> ip \<in> F \<and> unat off + length bs + 16 + 4095 < 2 ^ 32 \<and> length bs < 2 ^ 31"
| "file_op_ok F (FTruncate ip len) \<longleftrightarrow> ip \<in> F \<and> unat len + 16 + 4095 < 2 ^ 32"

text \<open>The result of an operation on the lists of bytes; an operation that finds no memory changes nothing.\<close>

fun spec_op :: "file_op \<Rightarrow> pipe_out \<times> u8 list \<Rightarrow> (nat \<Rightarrow> u8 list) \<Rightarrow> (nat \<Rightarrow> u8 list) option" where
  "spec_op (FRead ip off n) (r, bs) m =
     (if bs = spec_read (unat off) (unat n) (m ip) \<and> r = PRet (int (length bs)) then Some m else None)"
| "spec_op (FWrite ip bs off) (r, _) m =
     (if r = PRet (int (length bs)) then Some (m(ip := spec_write (unat off) bs (m ip))) else if r = PRet (- 1) then Some m else None)"
| "spec_op (FTruncate ip len) (r, _) m =
     (if r = PRet 0 then Some (m(ip := spec_truncate (unat len) (m ip))) else if r = PRet (- 1) then Some m else None)"

fun spec_run :: "file_op list \<Rightarrow> (pipe_out \<times> u8 list) list \<Rightarrow> (nat \<Rightarrow> u8 list) \<Rightarrow> (nat \<Rightarrow> u8 list) option" where
  "spec_run [] [] m = Some m"
| "spec_run (q # qs) (r # rs) m = (case spec_op q r m of None \<Rightarrow> None | Some m' \<Rightarrow> spec_run qs rs m')"
| "spec_run _ _ m = None"

lemma file_op_simulates:
  assumes r: "files_rep s F m K" and ok: "file_op_ok F q"
  shows "case file_op_run p q s of Inl e \<Rightarrow> heap_panic e
    | Inr (x, s') \<Rightarrow> \<exists>m'. spec_op q x m = Some m' \<and> files_rep s' F m' K"
proof (cases q)
  case (FRead ip off n)
  then have f: "ip \<in> F" "unat off + unat n < 2 ^ 32" "unat n < 2 ^ 31" using ok by simp_all
  show ?thesis using r length_rep [OF r f(1)] ramfs_read_ok [OF r f]
    by (simp add: file_op_run_def FRead fs_readi_def files_rep_touch)
next
  case (FWrite ip bs off)
  then have f: "ip \<in> F" "unat off + length bs + 16 + 4095 < 2 ^ 32" "length bs < 2 ^ 31" using ok by simp_all
  show ?thesis using length_rep [OF r f(1)] ramfs_write_ok [OF r f]
    by (auto simp: file_op_run_def FWrite fs_writei_def files_rep_touch split: sum.splits prod.splits)
next
  case (FTruncate ip len)
  then have f: "ip \<in> F" "unat len + 16 + 4095 < 2 ^ 32" using ok by simp_all
  show ?thesis using length_rep [OF r f(1)] ramfs_truncate_ok [OF r f]
    by (auto simp: file_op_run_def FTruncate fs_truncate_def files_rep_touch split: sum.splits prod.splits)
qed

text \<open>C2: The contents of ramfs files are those of lists of bytes. Take any number of files and any sequence of reads,
  writes and truncations of them, at offsets that do not wrap. Every read returns exactly the bytes the list holds there;
  a write replaces them and fills a gap with zeros; a truncation cuts the list or extends it with zeros; an operation
  that finds no memory returns -1 and changes nothing. No operation changes another file or any other block of the
  kernel heap, and the only panics are those of the allocator when memory is out or a file outgrows its largest block.\<close>

theorem ramfs_refines_byte_lists:
  assumes "files_rep s F m K" and "list_all (file_op_ok F) qs"
  shows "case file_run p qs s of Inl e \<Rightarrow> heap_panic e
    | Inr (rs, s') \<Rightarrow> \<exists>m'. spec_run qs rs m = Some m' \<and> files_rep s' F m' K"
  using assms
proof (induction qs arbitrary: s m)
  case (Cons q qs)
  then have ok: "file_op_ok F q" "list_all (file_op_ok F) qs" by simp_all
  show ?case
  proof (cases "file_op_run p q s")
    case (Inl e)
    then show ?thesis using file_op_simulates [OF Cons.prems(1) ok(1), of p] by simp
  next
    case (Inr y)
    obtain x s1 where y: "y = (x, s1)" by (cases y)
    from file_op_simulates [OF Cons.prems(1) ok(1), of p] Inr y
    obtain m1 where m1: "spec_op q x m = Some m1" "files_rep s1 F m1 K" by auto
    from Cons.IH [OF m1(2) ok(2)] Inr y m1(1) show ?thesis by (auto split: sum.splits prod.splits)
  qed
qed simp

definition demo_file :: open_file where
  "demo_file = \<lparr>f_type = FD_NONE, f_ref = 0, f_readable = False, f_writable = False, f_flags = 0, f_flock = 0, f_ip = None, f_off = 0\<rparr>"

definition demo_vfs :: "(nat \<Rightarrow> inode) \<Rightarrow> vfs" where
  "demo_vfs ino = \<lparr>ptab = (\<lambda>_. zero_proc)(1 := zero_proc\<lparr>state := RUNNING, pid := 1, mm := Some demo_mm\<rparr>),
     rq = \<lparr>nxt = id, prv = id\<rparr>, nextpid = 3, initproc = None, kthreadd_task = None,
     cpus = (\<lambda>_. \<lparr>c_proc = Some 1, c_last_sched = None, c_need_resched = False, c_noff = 0, c_user_pgdir = 0\<rparr>),
     ticks = 0, fg_pid = 0, kmem = snd demo_heap, kslab = fst demo_heap, shm_table = (\<lambda>_. zero_seg),
     pipes = (\<lambda>_. \<lparr>p_data = (\<lambda>_. 0), nread = 0, nwrite = 0, readers = 1, writers = 1\<rparr>),
     inodes = ino, ftable = (\<lambda>_. demo_file), vfs_root_inode = None, pipe_next_inum = 1\<rparr>"

lemma demo_vfs_simps [simp]:
  "inodes (demo_vfs ino) = ino" "heap_of (demo_vfs ino) = demo_heap" "kmem (demo_vfs ino) = snd demo_heap"
  by (simp_all add: demo_vfs_def heap_of_def)

definition demo_ramfs :: vfs where
  "demo_ramfs = demo_vfs (\<lambda>_. zero_inode\<lparr>i_type := T_FILE, i_op := Some Ramfs_iops\<rparr>)"

lemma demo_ramfs: "files_rep demo_ramfs {0, 1} (\<lambda>_. []) {}"
proof -
  have "heap_owns demo_heap {}" using demo_heap by (auto simp: heap_owns_def kused_def intro!: exI)
  then have "files_in demo_ramfs {} {0, 1} (\<lambda>_. []) {}"
    by (simp add: files_in_def file_rep_def demo_ramfs_def zero_inode_def)
  then show ?thesis by (auto simp: files_rep_def)
qed

lemma demo_write: "\<exists>s1. file_op_run 1 (FWrite 0 (replicate 100 7) 0) demo_ramfs = Inr ((PRet 100, []), s1)
    \<and> i_op (inodes s1 0) = Some Ramfs_iops \<and> i_op (inodes s1 1) = Some Ramfs_iops"
proof -
  obtain p st where k: "kmalloc 100 demo_heap = Inr (Some p, st)" using demo_kmalloc(1) by blast
  then show ?thesis
    by (simp add: file_op_run_def fs_writei_def ramfs_write_def demo_ramfs_def zero_inode_def do_kmalloc_def replace_data_def
        fs_inode_touch_def Let_def)
qed

lemma file_read_returns:
  "i_op (inodes s ip) = Some Ramfs_iops \<Longrightarrow> \<exists>r bs s1. file_op_run p (FRead ip off n) s = Inr ((r, bs), s1)
    \<and> (\<forall>j. i_op (inodes s1 j) = i_op (inodes s j))"
  by (cases "ramfs_read ip off n s") (simp add: file_op_run_def fs_readi_def fs_inode_touch_def Let_def)

theorem ramfs_refines_byte_lists_witness:
  "\<exists>s'. file_run 1 [FWrite 0 (replicate 100 7) 0, FRead 0 98 10, FRead 1 0 5] demo_ramfs = Inr ([(PRet 100, []), (PRet 2, [7, 7]), (PRet 0, [])], s')
    \<and> files_rep s' {0, 1} ((\<lambda>_. [])(0 := replicate 100 7)) {}"
proof -
  let ?qs = "[FWrite 0 (replicate 100 7) 0, FRead 0 98 10, FRead 1 0 5]"
  have ok: "list_all (file_op_ok {0, 1}) ?qs" by simp
  obtain s1 where s1: "file_op_run 1 (FWrite 0 (replicate 100 7) 0) demo_ramfs = Inr ((PRet 100, []), s1)"
    "i_op (inodes s1 0) = Some Ramfs_iops" "i_op (inodes s1 1) = Some Ramfs_iops" using demo_write by blast
  obtain r2 b2 s2 where s2: "file_op_run 1 (FRead 0 98 10) s1 = Inr ((r2, b2), s2)" "i_op (inodes s2 1) = Some Ramfs_iops"
    using file_read_returns [OF s1(2), of 1 98 10] s1(3) by auto
  obtain r3 b3 s3 where s3: "file_op_run 1 (FRead 1 0 5) s2 = Inr ((r3, b3), s3)"
    using file_read_returns [OF s2(2), of 1 0 5] by blast
  have run: "file_run 1 ?qs demo_ramfs = Inr ([(PRet 100, []), (r2, b2), (r3, b3)], s3)" using s1(1) s2(1) s3 by simp
  from ramfs_refines_byte_lists [OF demo_ramfs ok, of 1] run
  obtain m' where m': "spec_run ?qs [(PRet 100, []), (r2, b2), (r3, b3)] (\<lambda>_. []) = Some m'" "files_rep s3 {0, 1} m' {}" by auto
  have w: "spec_write 0 (replicate 100 7) [] = (replicate 100 7 :: u8 list)" by (simp add: spec_write_def spec_truncate_def)
  have "spec_read 98 10 (replicate 100 7) = [7, 7 :: u8]" "spec_read 0 5 [] = ([] :: u8 list)" by (simp_all add: spec_read_def numeral_2_eq_2)
  then have "m' = (\<lambda>_. [])(0 := replicate 100 7)" "b2 = [7, 7]" "r2 = PRet 2" "b3 = []" "r3 = PRet 0"
    using m'(1) w by (simp_all split: if_splits)
  then show ?thesis using run m'(2) by simp
qed

end
