(* ===== verification/Namei_Props.thy ===== *)
theory Namei_Props
  imports Namei Ramfs_Props
begin

text \<open>
  Path lookup. In a tree without symbolic links, \<open>fs_namei\<close> finds exactly the inode reached by following the
  components of the path one by one, takes one reference to it and leaves everything else as it was; it needs one
  unit of fuel. A symbolic link that names itself by an absolute path exhausts any fuel.
\<close>

section \<open>Names\<close>

lemma namecmp_loop_iff:
  "0 \<notin> set a \<Longrightarrow> 0 \<notin> set b \<Longrightarrow> length a \<le> n \<Longrightarrow> length b \<le> n \<Longrightarrow> namecmp_loop n a b = 0 \<longleftrightarrow> a = b"
proof (induction n a b rule: namecmp_loop.induct)
  case (2 n a b)
  have eq: "sint x = sint y \<longleftrightarrow> x = y" for x y :: u8 by (metis signed_word_eqI)
  then have eq0: "sint x = 0 \<longleftrightarrow> x = 0" for x :: u8 by (metis sint_0)
  show ?case
  proof (cases a)
    case Nil
    then show ?thesis using 2 eq eq0 by (cases b) (auto simp: hd0_def)
  next
    case (Cons x a')
    then show ?thesis using 2 eq eq0 by (cases b) (auto simp: hd0_def)
  qed
qed (simp add: hd0_def)

definition good_name :: "u8 list \<Rightarrow> bool" where
  "good_name a \<longleftrightarrow> 0 \<notin> set a \<and> length a \<le> NAME_MAX"

lemma d_namecmp_iff: "good_name a \<Longrightarrow> good_name b \<Longrightarrow> d_namecmp a b = 0 \<longleftrightarrow> a = b"
  using namecmp_loop_iff [of a b DIRSIZ] unfolding d_namecmp_def good_name_def by (simp add: DIRSIZ_def del: namecmp_loop.simps)

text \<open>The components of a path.\<close>

function path_elems :: "u8 list \<Rightarrow> u8 list list" where
  "path_elems path = (case skipelem path of None \<Rightarrow> [] | Some (name, rest) \<Rightarrow> name # path_elems rest)"
  by pat_completeness auto
termination
  by (relation "measure length") (auto dest: skipelem_shorter)

declare path_elems.simps [simp del]

lemma skipelem_good:
  assumes "skipelem path = Some (name, rest)" and "0 \<notin> set path"
  shows "good_name name" and "0 \<notin> set rest"
proof -
  have sub: "set (takeWhile P xs) \<subseteq> set xs" "set (dropWhile P xs) \<subseteq> set xs" for P and xs :: "u8 list"
    by (auto dest: set_takeWhileD set_dropWhileD)
  let ?p = "dropWhile (\<lambda>c. c = 0x2f) path"
  have n: "name = take (DIRSIZ - 1) (takeWhile (\<lambda>c. c \<noteq> 0x2f) ?p)"
    and r: "rest = dropWhile (\<lambda>c. c = 0x2f) (dropWhile (\<lambda>c. c \<noteq> 0x2f) ?p)"
    using assms(1) by (auto simp: skipelem_def Let_def split: if_splits)
  have "set name \<subseteq> set path" unfolding n using sub set_take_subset by (metis (no_types) subset_trans)
  then show "good_name name" using assms(2) n by (auto simp: good_name_def DIRSIZ_def)
  have "set rest \<subseteq> set path" unfolding r using sub by (metis (no_types) subset_trans)
  then show "0 \<notin> set rest" using assms(2) by auto
qed

section \<open>Trees\<close>

definition live :: "'z vfs_scheme \<Rightarrow> nat \<Rightarrow> bool" where
  "live s i \<longleftrightarrow> i < NINODE + NPIPE \<and> 0 < unat (i_ref (inodes s i)) \<and> unat (i_ref (inodes s i)) + 2 < 2 ^ 32"

definition lookup_ok :: "'z vfs_scheme \<Rightarrow> bool" where
  "lookup_ok s \<longleftrightarrow> (\<forall>i. live s i \<longrightarrow> i_type (inodes s i) \<noteq> T_LNK
     \<and> (i_type (inodes s i) = T_DIR \<longrightarrow> i_op (inodes s i) = Some Ramfs_iops)
     \<and> (\<forall>d \<in> set (dents (inodes s i)). live s (de_ip d) \<and> good_name (de_name d))
     \<and> (\<forall>q. i_parent (inodes s i) = Some q \<longrightarrow> live s q))"

text \<open>The inode that a list of components names, from the directory \<open>ip\<close> on.\<close>

fun resolve :: "'z vfs_scheme \<Rightarrow> nat \<Rightarrow> u8 list list \<Rightarrow> nat option" where
  "resolve s ip [] = Some ip"
| "resolve s ip (name # ns) =
     (if i_type (inodes s ip) \<noteq> T_DIR then None
      else if name = [0x2e] then resolve s ip ns
      else if name = [0x2e, 0x2e] then resolve s (case i_parent (inodes s ip) of Some q \<Rightarrow> q | None \<Rightarrow> ip) ns
      else case find (\<lambda>d. de_name d = name) (dents (inodes s ip)) of
             None \<Rightarrow> None
           | Some d \<Rightarrow> resolve s (de_ip d) ns)"

section \<open>References taken and dropped\<close>

lemma upd_inode_id: "f (inodes s i) = inodes s i \<Longrightarrow> upd_inode i f s = s"
  by (simp add: upd_inode_def)

lemma upd_inode_twice: "upd_inode i f (upd_inode i g s) = upd_inode i (\<lambda>x. f (g x)) s"
  by (simp add: upd_inode_def)

lemma upd_inode_swap: "i \<noteq> j \<Longrightarrow> upd_inode i f (upd_inode j g s) = upd_inode j g (upd_inode i f s)"
  by (simp add: upd_inode_def fun_upd_twist)

lemma iput_keeps:
  assumes "ip < NINODE + NPIPE" and "1 < unat (i_ref (inodes s ip))"
  shows "fs_iput ip s = Inr (upd_inode ip (\<lambda>x. x\<lparr>i_ref := i_ref x - 1\<rparr>) s)"
proof -
  have "i_ref (inodes s ip) \<noteq> 0" "i_ref (inodes s ip) \<noteq> 1" using assms(2) by auto
  then show ?thesis using assms(1) by (simp add: fs_iput_def iput_step_def Let_def)
qed

lemma iput_idup:
  assumes "live s ip"
  shows "fs_iput ip (fs_idup ip s) = Inr s"
proof -
  have "1 < unat (i_ref (inodes (fs_idup ip s) ip))" using assms by (simp add: live_def fs_idup_def unat_word_ariths)
  from iput_keeps [OF _ this] assms show ?thesis
    by (simp add: live_def fs_idup_def upd_inode_twice upd_inode_id)
qed

lemma iput_idup_move:
  assumes "live s ip" and "live s nx"
  shows "fs_iput ip (fs_idup nx (fs_idup ip s)) = Inr (fs_idup nx s)"
proof -
  have r: "1 < unat (i_ref (inodes (fs_idup nx (fs_idup ip s)) ip))"
    using assms by (auto simp: live_def fs_idup_def unat_word_ariths)
  show ?thesis
  proof (cases "nx = ip")
    case True
    then show ?thesis using iput_keeps [OF _ r] assms(1) by (simp add: live_def fs_idup_def upd_inode_twice add.commute)
  next
    case False
    then have "fs_idup nx (fs_idup ip s) = fs_idup ip (fs_idup nx s)" by (simp add: fs_idup_def upd_inode_swap)
    moreover have "live (fs_idup nx s) ip" using assms(1) False by (simp add: live_def fs_idup_def)
    ultimately show ?thesis using iput_idup by simp
  qed
qed

section \<open>Lookup follows the components\<close>

lemma lookup_okD:
  assumes "lookup_ok s" and "live s i"
  shows "i_type (inodes s i) \<noteq> T_LNK" and "i_type (inodes s i) = T_DIR \<Longrightarrow> i_op (inodes s i) = Some Ramfs_iops"
    and "d \<in> set (dents (inodes s i)) \<Longrightarrow> live s (de_ip d) \<and> good_name (de_name d)"
    and "i_parent (inodes s i) = Some q \<Longrightarrow> live s q"
  using assms by (auto simp: lookup_ok_def)

lemma lookup_find:
  assumes "lookup_ok s" and "live s ip" and "good_name name" and "i_type (inodes s ip) = T_DIR"
  shows "d_lookup ip name (fs_idup ip s) = find (\<lambda>d. de_name d = name) (dents (inodes s ip))"
proof -
  have "find (\<lambda>d. d_namecmp (de_name d) name = 0) ds = find (\<lambda>d. de_name d = name) ds"
    if "\<forall>d \<in> set ds. good_name (de_name d)" for ds
    using that by (induction ds) (auto simp: d_namecmp_iff [OF _ assms(3)])
  from this [of "dents (inodes s ip)"] show ?thesis
    using assms(4) lookup_okD(3) [OF assms(1,2)] by (simp add: d_lookup_def fs_idup_def)
qed

lemma follow_none: "lookup_ok s \<Longrightarrow> live s nx \<Longrightarrow> follow_loop rec p stop nx 0 (fs_idup nx s) = fret (Some nx, fs_idup nx s)"
  using lookup_okD(1) [of s nx] by (subst follow_loop.simps) (simp add: fs_idup_def)

lemma dot_names: "good_name [0x2e]" "good_name [0x2e, 0x2e]"
  by (simp_all add: good_name_def NAME_MAX_def)

lemma namex_loop_resolves:
  assumes "lookup_ok s"
  shows "live s ip \<Longrightarrow> 0 \<notin> set path \<Longrightarrow> \<exists>nm. namex_loop rec p False follow path ip (fs_idup ip s) =
    fret (case resolve s ip (path_elems path) of None \<Rightarrow> (None, nm, s) | Some i \<Rightarrow> (Some i, nm, fs_idup i s))"
proof (induction path arbitrary: ip rule: path_elems.induct)
  case (1 path)
  show ?case
  proof (cases "skipelem path")
    case None
    then show ?thesis by (subst namex_loop.simps, subst path_elems.simps) simp
  next
    case (Some q)
    obtain name rest where q: "q = (name, rest)" by force
    note g = skipelem_good [OF Some [unfolded q] "1.prems"(2)]
    note IH = "1.IH" [OF Some [unfolded q] refl _ g(2)]
    have ip: "live s ip" by (rule "1.prems")
    have ty: "i_type (inodes (fs_idup ip s) ip) = i_type (inodes s ip)" "i_op (inodes (fs_idup ip s) ip) = i_op (inodes s ip)"
      "i_parent (inodes (fs_idup ip s) ip) = i_parent (inodes s ip)" by (simp_all add: fs_idup_def)
    note dot = d_namecmp_iff [OF g(1) dot_names(1)] d_namecmp_iff [OF g(1) dot_names(2)]
    note step = namex_loop.simps [of rec p False follow path ip "fs_idup ip s"] path_elems.simps [of path]
    consider (nodir) "i_type (inodes s ip) \<noteq> T_DIR" | (dot) "i_type (inodes s ip) = T_DIR" "name = [0x2e]"
      | (up) "i_type (inodes s ip) = T_DIR" "name = [0x2e, 0x2e]"
      | (down) "i_type (inodes s ip) = T_DIR" "name \<noteq> [0x2e]" "name \<noteq> [0x2e, 0x2e]" by blast
    then show ?thesis
    proof cases
      case nodir
      then show ?thesis using iput_idup [OF ip] by (simp add: step Some q ty)
    next
      case dot
      then show ?thesis using IH [OF ip] by (simp add: step Some q ty d_namecmp_iff [OF dot_names(1) dot_names(1)])
    next
      case up
      define nx where "nx = (case i_parent (inodes s ip) of Some q \<Rightarrow> q | None \<Rightarrow> ip)"
      have nx: "live s nx" using lookup_okD(4) [OF assms ip] ip by (auto simp: nx_def split: option.splits)
      show ?thesis using IH [OF nx] iput_idup_move [OF ip nx] up
          d_namecmp_iff [OF dot_names(2) dot_names(1)] d_namecmp_iff [OF dot_names(2) dot_names(2)]
        by (simp add: step Some q ty nx_def [symmetric])
    next
      case down
      note f = lookup_find [OF assms ip g(1) down(1)]
      have ops: "i_op (inodes s ip) = Some Ramfs_iops" using lookup_okD(2) [OF assms ip down(1)] .
      show ?thesis
      proof (cases "find (\<lambda>d. de_name d = name) (dents (inodes s ip))")
        case None
        then show ?thesis using f iput_idup [OF ip] down ops dot by (simp add: step Some q ty ramfs_lookup_def)
      next
        case (Some d)
        have "d \<in> set (dents (inodes s ip))" using Some by (auto simp: find_Some_iff)
        then have nx: "live s (de_ip d)" using lookup_okD(3) [OF assms ip] by blast
        show ?thesis using IH [OF nx] f Some iput_idup_move [OF ip nx] down ops dot follow_none [OF assms nx] \<open>skipelem path = Some q\<close>
          by (simp add: step q ty ramfs_lookup_def)
      qed
    qed
  qed
qed

lemma namei_run:
  assumes "lookup_ok s" and "path \<noteq> []" and "0 \<notin> set path"
    and "(if hd path = 0x2f then vfs_root_inode s else cwd (ptab s p)) = Some start" and "live s start"
  shows "fs_namei (Suc n) p path s =
    Some (Inr (case resolve s start (path_elems path) of None \<Rightarrow> (None, s) | Some i \<Rightarrow> (Some i, fs_idup i s)))"
proof -
  define rec where "rec = (\<lambda>t (s1 :: 'a vfs_scheme). fbind (namex n p t False True s1) (\<lambda>(r, _, s2). fret (r, s2)))"
  obtain nm where "namex_loop rec p False True path start (fs_idup start s) =
    fret (case resolve s start (path_elems path) of None \<Rightarrow> (None, nm, s) | Some i \<Rightarrow> (Some i, nm, fs_idup i s))"
    using namex_loop_resolves [OF assms(1,5,3)] by blast
  then show ?thesis using assms(2,4)
    by (simp add: fs_namei_def namex_body_def rec_def [symmetric] split: option.splits)
qed

section \<open>Properties\<close>


definition demo_dir :: "nat \<Rightarrow> dentry list \<Rightarrow> inode" where
  "demo_dir par ds = zero_inode\<lparr>i_type := T_DIR, i_ref := 2, i_op := Some Ramfs_iops, i_parent := Some par, dents := ds\<rparr>"

definition demo_tree :: vfs where
  "demo_tree = (demo_vfs ((\<lambda>_. zero_inode)(
      0 := demo_dir 0 [\<lparr>de_at = 0x1000, de_name = [0x61], de_ip = 1\<rparr>],
      1 := demo_dir 0 [\<lparr>de_at = 0x2000, de_name = [0x62], de_ip = 2\<rparr>],
      2 := zero_inode\<lparr>i_type := T_FILE, i_ref := 1, i_op := Some Ramfs_iops\<rparr>)))\<lparr>vfs_root_inode := Some 0\<rparr>"

lemma demo_tree: "lookup_ok demo_tree" "live demo_tree 0"
proof -
  have "live demo_tree i \<longleftrightarrow> i \<in> {0, 1, 2}" for i
    by (auto simp: live_def demo_tree_def demo_dir_def zero_inode_def NINODE_def)
  then show "lookup_ok demo_tree" "live demo_tree 0"
    by (auto simp: lookup_ok_def demo_tree_def demo_dir_def zero_inode_def good_name_def NAME_MAX_def)
qed


section \<open>A link to itself\<close>

text \<open>The root has an entry \<open>nm\<close> for the symbolic link \<open>l\<close>, which holds the absolute path of that entry.\<close>

definition self_link :: "'z vfs_scheme \<Rightarrow> nat \<Rightarrow> nat \<Rightarrow> u8 list \<Rightarrow> bool" where
  "self_link s root l nm \<longleftrightarrow> vfs_root_inode s = Some root \<and> live s root \<and> live s l
     \<and> i_type (inodes s root) = T_DIR \<and> i_op (inodes s root) = Some Ramfs_iops
     \<and> i_type (inodes s l) = T_LNK \<and> i_op (inodes s l) = Some Ramfs_iops
     \<and> map_option de_ip (d_lookup root nm s) = Some l \<and> ramfs_read l 0 255 s = (int (length nm) + 1, 0x2f # nm)
     \<and> good_name nm \<and> nm \<noteq> [] \<and> 0x2f \<notin> set nm \<and> nm \<noteq> [0x2e] \<and> nm \<noteq> [0x2e, 0x2e]"

lemma skipelem_single: "good_name nm \<Longrightarrow> nm \<noteq> [] \<Longrightarrow> 0x2f \<notin> set nm \<Longrightarrow> skipelem (0x2f # nm) = Some (nm, [])"
proof -
  assume g: "good_name nm" "nm \<noteq> []" "0x2f \<notin> set nm"
  have "dropWhile (\<lambda>c. c = 0x2f) nm = nm" using g(2,3) by (cases nm) auto
  moreover have tw: "takeWhile (\<lambda>c. c \<noteq> 0x2f) nm = nm" and dw: "dropWhile (\<lambda>c. c \<noteq> 0x2f) nm = []"
    using g(3) by (auto simp: takeWhile_eq_all_conv dropWhile_eq_Nil_conv)
  ultimately show ?thesis using g(1,2) by (simp add: skipelem_def good_name_def DIRSIZ_def tw dw)
qed

lemma touch_idup: "fs_inode_touch i a b (fs_idup i s) = fs_idup i (fs_inode_touch i a b s)"
  by (cases "inodes s i") (simp add: fs_inode_touch_def fs_idup_def upd_inode_def vfs_now_sec_def Let_def)

lemma self_link_touch: "self_link s root l nm \<Longrightarrow> self_link (fs_inode_touch l False True s) root l nm"
  by (auto simp: self_link_def live_def fs_inode_touch_def d_lookup_def ramfs_read_def get_ram_def Let_def)

text \<open>C35: A symbolic link in the root directory that names itself by its absolute path makes lookup recurse without end:
  whatever the number of nested calls allowed, \<open>fs_namei\<close> of that path does not return. The count of links followed starts
  afresh with each nested call, so the limit of eight never stops it.\<close>

theorem namex_symlink_loop:
  assumes "self_link s root l nm"
  shows "fs_namei n p (0x2f # nm) s = None"
proof -
  have "namex n p (0x2f # nm) False True s = None" if "self_link s root l nm" for s :: "'a vfs_scheme"
    using that
  proof (induction n arbitrary: s)
    case (Suc n)
    note sl = Suc.prems [unfolded self_link_def]
    define rec where "rec = (\<lambda>t (s1 :: 'a vfs_scheme). fbind (namex n p t False True s1) (\<lambda>(r, _, s2). fret (r, s2)))"
    have live: "live s root" "live s l" using sl by simp_all
    have se: "skipelem (0x2f # nm) = Some (nm, [])" using sl by (simp add: skipelem_single)
    have names: "d_namecmp nm [0x2e] \<noteq> 0" "d_namecmp nm [0x2e, 0x2e] \<noteq> 0"
      using sl d_namecmp_iff [OF _ dot_names(1), of nm] d_namecmp_iff [OF _ dot_names(2), of nm] by simp_all
    have look: "ramfs_lookup root nm (fs_idup root s) = (Some l, fs_idup l (fs_idup root s))"
      using sl by (auto simp: ramfs_lookup_def d_lookup_def fs_idup_def split: if_splits option.splits)
    have read: "fs_readi p l 0 (of_nat NNAME - 1) (fs_idup l s) = Inr (PRet (int (length nm) + 1), 0x2f # nm, fs_idup l (fs_inode_touch l False True s))"
    proof -
      have "ramfs_read l 0 255 (fs_idup l s) = ramfs_read l 0 255 s"
        using sl by (simp add: ramfs_read_def fs_idup_def get_ram_def Let_def upd_inode_def)
      moreover have "i_op (inodes (fs_idup l s) l) = Some Ramfs_iops" using sl by (simp add: fs_idup_def)
      ultimately show ?thesis using sl by (simp add: fs_readi_def NNAME_def touch_idup)
    qed
    have tgt: "takeWhile (\<lambda>c. c \<noteq> 0) nm = nm" using sl by (auto simp: good_name_def takeWhile_eq_all_conv)
    have "live (fs_inode_touch l False True s) l" using self_link_touch [OF Suc.prems] by (simp add: self_link_def)
    from iput_idup [OF this] have put: "fs_iput l (fs_idup l (fs_inode_touch l False True s)) = Inr (fs_inode_touch l False True s)" .
    have "rec (0x2f # nm) (fs_inode_touch l False True s) = None" using Suc.IH [OF self_link_touch [OF Suc.prems]] by (simp add: rec_def)
    then have "follow_symlink rec p l 0 (fs_idup l s) = None"
      using read put by (simp add: follow_symlink_def MAXSYMLINKS_def hd0_def Let_def tgt)
    moreover have "i_type (inodes (fs_idup l s) l) = T_LNK" "i_type (inodes (fs_idup root s) root) = T_DIR"
      "i_op (inodes (fs_idup root s) root) = Some Ramfs_iops" using sl by (simp_all add: fs_idup_def)
    ultimately have "namex_loop rec p False True (0x2f # nm) root (fs_idup root s) = None"
      using look names iput_idup_move [OF live] by (simp add: namex_loop.simps se follow_loop.simps)
    then show ?case using sl by (simp add: namex_body_def rec_def [symmetric])
  qed simp
  from this [OF assms] show ?thesis by (simp add: fs_namei_def)
qed

definition demo_link :: vfs where
  "demo_link = put_ram 0x3000 [0x2f, 0x61] ((demo_vfs ((\<lambda>_. zero_inode)(
      0 := demo_dir 0 [\<lparr>de_at = 0x1000, de_name = [0x61], de_ip = 1\<rparr>],
      1 := zero_inode\<lparr>i_type := T_LNK, i_ref := 1, i_op := Some Ramfs_iops, i_data := 0x3000, i_size := 2\<rparr>)))\<lparr>vfs_root_inode := Some 0\<rparr>)"

lemma demo_link_simps:
  "vfs_root_inode demo_link = Some 0" "inodes demo_link 0 = demo_dir 0 [\<lparr>de_at = 0x1000, de_name = [0x61], de_ip = 1\<rparr>]"
  "inodes demo_link (Suc 0) = zero_inode\<lparr>i_type := T_LNK, i_ref := 1, i_op := Some Ramfs_iops, i_data := 0x3000, i_size := 2\<rparr>"
  "get_ram 0x3000 2 demo_link = [0x2f, 0x61]"
  by (simp_all add: demo_link_def put_ram_def get_ram_def get_bytes_def numeral_2_eq_2 Let_def)

theorem namex_symlink_loop_witness: "self_link demo_link 0 1 [0x61] \<and> (\<forall>n. fs_namei n 1 [0x2f, 0x61] demo_link = None)"
proof -
  have "d_namecmp [0x61] [0x61] = 0" using d_namecmp_iff [of "[0x61]" "[0x61]"] by (simp add: good_name_def NAME_MAX_def)
  then have "self_link demo_link 0 1 [0x61]"
    by (simp add: self_link_def live_def demo_link_simps d_lookup_def ramfs_read_def demo_dir_def zero_inode_def good_name_def
        NAME_MAX_def NINODE_def Let_def)
  then show ?thesis using namex_symlink_loop [of demo_link 0 1 "[0x61]"] by simp
qed

end
