(* ===== verification/File.thy ===== *)
theory File
  imports Namei
begin

text \<open>
  Open files and file descriptors, src/arch/x86/kernel/fs/file.c, the creation of a pipe, fs/pipe.c, and the table of
  character devices, driver/chrdev.c.

  A pointer to an open file is its index in \<open>ftable\<close>. The operations of a character device are functions on the state,
  held in a table that the operations take as an argument; the disks behind \<open>file_blk_rw\<close> are one too. A call that goes
  to sleep returns \<open>PSleeps\<close>; the state is the one at that point.
\<close>

section \<open>Character devices\<close>

definition CHRDEV_MAJOR_MAX :: nat where "CHRDEV_MAJOR_MAX = 256"

definition MAJOR :: "u32 \<Rightarrow> u32" where
  "MAJOR dev = drop_bit 20 dev"

text \<open>\<open>read\<close> gets the file and a number of bytes, \<open>write\<close> the file and the bytes, \<open>ioctl\<close> the file, request and argument.\<close>

record 's file_operations =
  fo_read :: "(nat \<Rightarrow> int \<Rightarrow> 's \<Rightarrow> (pipe_out \<times> u8 list \<times> 's) kres) option"
  fo_write :: "(nat \<Rightarrow> u8 list \<Rightarrow> 's \<Rightarrow> (pipe_out \<times> 's) kres) option"
  fo_ioctl :: "(nat \<Rightarrow> u32 \<Rightarrow> u32 \<Rightarrow> 's \<Rightarrow> (int \<times> 's) kres) option"

record 's chrdev_table =
  chrdevs :: "nat \<Rightarrow> 's file_operations option"
  chrdev_names :: "nat \<Rightarrow> u8 list option"
  chrdev_inited :: bool

definition chrdev_init :: "'s chrdev_table \<Rightarrow> 's chrdev_table" where
  "chrdev_init t =
     (if chrdev_inited t then t
      else \<lparr>chrdevs = (\<lambda>i. if i < CHRDEV_MAJOR_MAX then None else chrdevs t i),
            chrdev_names = (\<lambda>i. if i < CHRDEV_MAJOR_MAX then None else chrdev_names t i), chrdev_inited = True\<rparr>)"

definition register_chrdev :: "u32 \<Rightarrow> u8 list option \<Rightarrow> 's file_operations option \<Rightarrow> 's chrdev_table \<Rightarrow> (int \<times> 's chrdev_table) kres" where
  "register_chrdev major name fops t =
     (if \<not> chrdev_inited t then Inl ''register_chrdev before chrdev_init''
      else if name = None \<or> fops = None then Inr (- 1, t)
      else let m = (if major = 0 then find (\<lambda>i. chrdevs t i = None) [1..<CHRDEV_MAJOR_MAX]
                    else if CHRDEV_MAJOR_MAX \<le> unat major \<or> chrdevs t (unat major) \<noteq> None then None
                    else Some (unat major))
           in case m of
                None \<Rightarrow> Inr (- 1, t)
              | Some i \<Rightarrow> Inr (int i, t\<lparr>chrdevs := (chrdevs t)(i := fops), chrdev_names := (chrdev_names t)(i := name)\<rparr>))"

definition unregister_chrdev :: "u32 \<Rightarrow> 's chrdev_table \<Rightarrow> int \<times> 's chrdev_table" where
  "unregister_chrdev major t =
     (if \<not> chrdev_inited t \<or> major = 0 \<or> CHRDEV_MAJOR_MAX \<le> unat major then (- 1, t)
      else (0, t\<lparr>chrdevs := (chrdevs t)(unat major := None), chrdev_names := (chrdev_names t)(unat major := None)\<rparr>))"

definition chrdev_get :: "u32 \<Rightarrow> 's chrdev_table \<Rightarrow> 's file_operations option" where
  "chrdev_get major t = (if \<not> chrdev_inited t \<or> CHRDEV_MAJOR_MAX \<le> unat major then None else chrdevs t (unat major))"

definition chrdev_name :: "u32 \<Rightarrow> 's chrdev_table \<Rightarrow> u8 list option" where
  "chrdev_name major t = (if \<not> chrdev_inited t \<or> CHRDEV_MAJOR_MAX \<le> unat major then None else chrdev_names t (unat major))"

section \<open>The table of open files\<close>

definition O_RDONLY :: u32 where "O_RDONLY = 0"
definition O_WRONLY :: u32 where "O_WRONLY = 1"
definition O_RDWR :: u32 where "O_RDWR = 2"
definition O_ACCMODE :: u32 where "O_ACCMODE = 3"
definition O_CREATE :: u32 where "O_CREATE = 0x200"
definition O_APPEND :: u32 where "O_APPEND = 0x400"
definition O_NONBLOCK :: u32 where "O_NONBLOCK = 0x800"
definition O_EXCL :: u32 where "O_EXCL = 0x1000"
definition O_TRUNC :: u32 where "O_TRUNC = 0x2000"
definition FD_CLOEXEC :: u8 where "FD_CLOEXEC = 1"
definition LOCK_SH :: u32 where "LOCK_SH = 1"
definition LOCK_EX :: u32 where "LOCK_EX = 2"
definition LOCK_NB :: u32 where "LOCK_NB = 4"
definition LOCK_UN :: u32 where "LOCK_UN = 8"

definition upd_file :: "nat \<Rightarrow> (open_file \<Rightarrow> open_file) \<Rightarrow> 'z vfs_scheme \<Rightarrow> 'z vfs_scheme" where
  "upd_file i f s = s\<lparr>ftable := (ftable s)(i := f (ftable s i))\<rparr>"

definition filealloc :: "'z vfs_scheme \<Rightarrow> nat option \<times> 'z vfs_scheme" where
  "filealloc s =
     (case find (\<lambda>i. f_ref (ftable s i) = 0) [0..<NFILE] of
        None \<Rightarrow> (None, s)
      | Some i \<Rightarrow> (Some i, upd_file i (\<lambda>_. \<lparr>f_type = FD_NONE, f_ref = 1, f_readable = False, f_writable = False, f_flags = 0,
                     f_flock = 0, f_ip = None, f_off = 0\<rparr>) s))"

definition filedup :: "nat \<Rightarrow> 'z vfs_scheme \<Rightarrow> 'z vfs_scheme kres" where
  "filedup f s =
     (if f_ref (ftable s f) < 1 then Inl ''filedup'' else Inr (upd_file f (\<lambda>x. x\<lparr>f_ref := f_ref x + 1\<rparr>) s))"

definition pipe_release_file :: "nat \<Rightarrow> 'z vfs_scheme \<Rightarrow> 'z vfs_scheme kres" where
  "pipe_release_file f s =
     (case f_ip (ftable s f) of
        None \<Rightarrow> Inr s
      | Some ip \<Rightarrow>
          if i_type (inodes s ip) \<noteq> T_FIFO \<or> i_pipe (inodes s ip) = 0 then Inr s
          else pipe_release (i_pipe (inodes s ip)) (f_readable (ftable s f)) (f_writable (ftable s f)) s)"

definition fileclose :: "nat \<Rightarrow> 'z vfs_scheme \<Rightarrow> 'z vfs_scheme kres" where
  "fileclose f s =
     (if f_ref (ftable s f) < 1 then Inl ''fileclose''
      else let s1 = upd_file f (\<lambda>x. x\<lparr>f_ref := f_ref x - 1\<rparr>) s
      in if 0 < f_ref (ftable s1 f) then Inr s1
      else kbind (case f_ip (ftable s1 f) of
                    Some ip \<Rightarrow> if f_flock (ftable s1 f) \<noteq> 0 then wakeup (Some (ChInode ip)) (upd_file f (\<lambda>x. x\<lparr>f_flock := 0\<rparr>) s1) else Inr s1
                  | None \<Rightarrow> Inr s1) (\<lambda>s2.
        kbind (pipe_release_file f s2) (\<lambda>s3.
          kbind (case f_ip (ftable s3 f) of
                   Some ip \<Rightarrow> if f_type (ftable s3 f) \<noteq> FD_NONE then fs_iput ip s3 else Inr s3
                 | None \<Rightarrow> Inr s3) (\<lambda>s4.
            Inr (upd_file f (\<lambda>x. x\<lparr>f_type := FD_NONE, f_ip := None, f_flock := 0\<rparr>) s4)))))"

section \<open>Reading and writing\<close>

definition BLOCK_SECTOR_SIZE :: nat where "BLOCK_SECTOR_SIZE = 512"

text \<open>A disk: the capacity of the one with a given device number, and the transfer of one sector.\<close>

record 's disks =
  bd_capacity :: "u32 \<Rightarrow> 's \<Rightarrow> u32 option"
  bd_read :: "u32 \<Rightarrow> u32 \<Rightarrow> 's \<Rightarrow> (u8 list option \<times> 's) kres"
  bd_write :: "u32 \<Rightarrow> u32 \<Rightarrow> u8 list \<Rightarrow> 's \<Rightarrow> (bool \<times> 's) kres"

text \<open>One round of the loop: a sector, or the part of it from \<open>so\<close> on; \<open>None\<close> when the transfer fails.\<close>

definition blk_chunk :: "'s disks \<Rightarrow> u32 \<Rightarrow> bool \<Rightarrow> u32 \<Rightarrow> nat \<Rightarrow> nat \<Rightarrow> nat \<Rightarrow> u8 list \<Rightarrow> 's \<Rightarrow> (u8 list option \<times> 's) kres" where
  "blk_chunk B dev do_write sec so chunk done' buf s =
     (if do_write then
        if so \<noteq> 0 \<or> chunk \<noteq> BLOCK_SECTOR_SIZE then
          kbind (bd_read B dev sec s) (\<lambda>(r, s1).
            case r of
              None \<Rightarrow> Inr (None, s1)
            | Some sect \<Rightarrow> kbind (bd_write B dev sec (take so sect @ take chunk (drop done' buf) @ drop (so + chunk) sect) s1)
                (\<lambda>(ok, s2). Inr (if ok then Some buf else None, s2)))
        else kbind (bd_write B dev sec (take chunk (drop done' buf)) s) (\<lambda>(ok, s1). Inr (if ok then Some buf else None, s1))
      else kbind (bd_read B dev sec s) (\<lambda>(r, s1).
             Inr (map_option (\<lambda>sect. take done' buf @ take chunk (drop so sect) @ drop (done' + chunk) buf) r, s1)))"

text \<open>The second component is the new offset of the file, which an error leaves alone.\<close>

function blk_rw_loop :: "'s disks \<Rightarrow> u32 \<Rightarrow> u32 \<Rightarrow> bool \<Rightarrow> nat \<Rightarrow> u8 list \<Rightarrow> nat \<Rightarrow> u32 \<Rightarrow> 's \<Rightarrow> (int \<times> u32 option \<times> u8 list \<times> 's) kres" where
  "blk_rw_loop B dev cap do_write n buf done' off s =
     (let sec = off div of_nat BLOCK_SECTOR_SIZE; so = unat (off mod of_nat BLOCK_SECTOR_SIZE); chunk = min (BLOCK_SECTOR_SIZE - so) (n - done')
      in if n \<le> done' \<or> cap \<le> sec then Inr (int done', Some off, buf, s)
      else case blk_chunk B dev do_write sec so chunk done' buf s of
             Inl e \<Rightarrow> Inl e
           | Inr (None, s1) \<Rightarrow> Inr (if done' \<noteq> 0 then int done' else - 1, None, buf, s1)
           | Inr (Some buf', s1) \<Rightarrow> blk_rw_loop B dev cap do_write n buf' (done' + chunk) (off + of_nat chunk) s1)"
  by pat_completeness auto
termination
proof (relation "measure (\<lambda>(B, dev, cap, wr, n, buf, done', off, s). n - done')", goal_cases)
  case (2 B dev cap wr n buf done' off s sec so chunk)
  have "unat (off mod 512) < 512" using unat_mod_distrib [of off 512] by simp
  then have "0 < chunk" using 2 by (auto simp: BLOCK_SECTOR_SIZE_def)
  then show ?case using 2 by auto
qed simp

definition file_blk_rw :: "'z vfs_scheme disks \<Rightarrow> nat \<Rightarrow> u8 list \<Rightarrow> bool \<Rightarrow> 'z vfs_scheme \<Rightarrow> (int \<times> u8 list \<times> 'z vfs_scheme) kres" where
  "file_blk_rw B f buf do_write s =
     (case f_ip (ftable s f) of
        None \<Rightarrow> Inr (- 1, buf, s)
      | Some ip \<Rightarrow>
          (case bd_capacity B (rdev (inodes s ip)) s of
             None \<Rightarrow> Inr (- 1, buf, s)
           | Some cap \<Rightarrow>
               kbind (blk_rw_loop B (rdev (inodes s ip)) cap do_write (length buf) buf 0 (f_off (ftable s f)) s) (\<lambda>(r, off, buf', s1).
                 Inr (r, buf', case off of None \<Rightarrow> s1 | Some v \<Rightarrow> upd_file f (\<lambda>x. x\<lparr>f_off := v\<rparr>) s1))))"

declare blk_rw_loop.simps [simp del]

definition file_char_read :: "'z vfs_scheme chrdev_table \<Rightarrow> nat \<Rightarrow> int \<Rightarrow> 'z vfs_scheme \<Rightarrow> (pipe_out \<times> u8 list \<times> 'z vfs_scheme) kres" where
  "file_char_read D f n s =
     (case f_ip (ftable s f) of
        None \<Rightarrow> Inr (PRet (- 1), [], s)
      | Some ip \<Rightarrow>
          (case Option.bind (chrdev_get (MAJOR (rdev (inodes s ip))) D) fo_read of
             None \<Rightarrow> Inr (PRet (- 1), [], s)
           | Some rd \<Rightarrow> rd f n s))"

definition file_char_write :: "'z vfs_scheme chrdev_table \<Rightarrow> nat \<Rightarrow> u8 list \<Rightarrow> 'z vfs_scheme \<Rightarrow> (pipe_out \<times> 'z vfs_scheme) kres" where
  "file_char_write D f src s =
     (case f_ip (ftable s f) of
        None \<Rightarrow> Inr (PRet (- 1), s)
      | Some ip \<Rightarrow>
          (case Option.bind (chrdev_get (MAJOR (rdev (inodes s ip))) D) fo_write of
             None \<Rightarrow> Inr (PRet (- 1), s)
           | Some wr \<Rightarrow> wr f src s))"

definition fileioctl :: "'z vfs_scheme chrdev_table \<Rightarrow> nat \<Rightarrow> u32 \<Rightarrow> u32 \<Rightarrow> 'z vfs_scheme \<Rightarrow> (int \<times> 'z vfs_scheme) kres" where
  "fileioctl D f req arg s =
     (case f_ip (ftable s f) of
        None \<Rightarrow> Inr (- 1, s)
      | Some ip \<Rightarrow>
          if f_type (ftable s f) \<noteq> FD_CHAR then Inr (- 1, s)
          else (case Option.bind (chrdev_get (MAJOR (rdev (inodes s ip))) D) fo_ioctl of
                  None \<Rightarrow> Inr (- 1, s)
                | Some io \<Rightarrow> io f req arg s))"

text \<open>The advance of the offset after a transfer.\<close>

definition advance :: "nat \<Rightarrow> pipe_out \<Rightarrow> 'z vfs_scheme \<Rightarrow> 'z vfs_scheme" where
  "advance f r s = (case r of PRet k \<Rightarrow> if 0 < k then upd_file f (\<lambda>x. x\<lparr>f_off := f_off x + of_int k\<rparr>) s else s | PSleeps _ \<Rightarrow> s)"

definition fileread :: "'z vfs_scheme disks \<Rightarrow> 'z vfs_scheme chrdev_table \<Rightarrow> nat \<Rightarrow> nat \<Rightarrow> int \<Rightarrow> 'z vfs_scheme \<Rightarrow> (pipe_out \<times> u8 list \<times> 'z vfs_scheme) kres" where
  "fileread B D p f n s =
     (let x = ftable s f
      in if \<not> f_readable x \<or> n < 0 then Inr (PRet (- 1), [], s)
      else case f_type x of
             FD_BLOCK \<Rightarrow> kbind (file_blk_rw B f (replicate (nat n) 0) False s) (\<lambda>(r, buf, s1). Inr (PRet r, take (nat r) buf, s1))
           | FD_CHAR \<Rightarrow> file_char_read D f n s
           | FD_INODE \<Rightarrow>
               (case f_ip x of
                  None \<Rightarrow> Inr (PRet (- 1), [], s)
                | Some ip \<Rightarrow>
                    if i_type (inodes s ip) = T_FIFO then fs_readi p ip 0 (of_int n) s
                    else kbind (fs_readi p ip (f_off x) (of_int n) s) (\<lambda>(r, bs, s1). Inr (r, bs, advance f r s1)))
           | FD_NONE \<Rightarrow> Inr (PRet (- 1), [], s))"

definition filewrite :: "'z vfs_scheme disks \<Rightarrow> 'z vfs_scheme chrdev_table \<Rightarrow> nat \<Rightarrow> nat \<Rightarrow> u8 list \<Rightarrow> 'z vfs_scheme \<Rightarrow> (pipe_out \<times> 'z vfs_scheme) kres" where
  "filewrite B D p f src s =
     (let x = ftable s f
      in if \<not> f_writable x then Inr (PRet (- 1), s)
      else case f_type x of
             FD_BLOCK \<Rightarrow> kbind (file_blk_rw B f src True s) (\<lambda>(r, _, s1). Inr (PRet r, s1))
           | FD_CHAR \<Rightarrow> file_char_write D f src s
           | FD_INODE \<Rightarrow>
               (case f_ip x of
                  None \<Rightarrow> Inr (PRet (- 1), s)
                | Some ip \<Rightarrow>
                    if i_type (inodes s ip) = T_FIFO then fs_writei p ip src 0 s
                    else let s1 = (if f_flags x AND O_APPEND \<noteq> 0 \<and> i_type (inodes s ip) = T_FILE
                                   then upd_file f (\<lambda>x. x\<lparr>f_off := i_size (inodes s ip)\<rparr>) s else s)
                         in kbind (fs_writei p ip src (f_off (ftable s1 f)) s1) (\<lambda>(r, s2). Inr (r, advance f r s2)))
           | FD_NONE \<Rightarrow> Inr (PRet (- 1), s))"

text \<open>Offsets are computed in \<open>int\<close>, whose overflow is undefined.\<close>

definition filelseek :: "nat \<Rightarrow> int \<Rightarrow> int \<Rightarrow> 'z vfs_scheme \<Rightarrow> (int \<times> 'z vfs_scheme) kres" where
  "filelseek f offset whence s =
     (let x = ftable s f
      in case f_ip x of
           None \<Rightarrow> Inr (- 1, s)
         | Some ip \<Rightarrow>
             if f_type x \<noteq> FD_INODE \<and> f_type x \<noteq> FD_BLOCK then Inr (- 1, s)
             else if f_type x = FD_INODE \<and> i_type (inodes s ip) = T_FIFO then Inr (- 1, s)
             else if whence \<noteq> 0 \<and> whence \<noteq> 1 \<and> whence \<noteq> 2 then Inr (- 1, s)
             else let newoff = (if whence = 0 then offset else if whence = 1 then sint (f_off x) + offset
                                else sint (i_size (inodes s ip)) + offset)
                  in if newoff < - (2 ^ 31) \<or> 2 ^ 31 \<le> newoff then Inl ''signed overflow''
                  else if newoff < 0 then Inr (- 1, s)
                  else Inr (newoff, upd_file f (\<lambda>x. x\<lparr>f_off := of_int newoff\<rparr>) s))"

section \<open>Advisory locks\<close>

definition flock_conflict :: "nat \<Rightarrow> nat \<Rightarrow> u32 \<Rightarrow> 'z vfs_scheme \<Rightarrow> bool" where
  "flock_conflict self ip want s \<longleftrightarrow>
     find (\<lambda>i. \<not> (f_ref (ftable s i) < 1 \<or> i = self \<or> f_ip (ftable s i) \<noteq> Some ip \<or> f_flock (ftable s i) = 0)
               \<and> (want = LOCK_EX \<or> f_flock (ftable s i) = LOCK_EX)) [0..<NFILE] \<noteq> None"

text \<open>
  The call up to where it returns or goes to sleep; a process woken up again runs the rest of the loop, which is the
  same call once more.
\<close>

definition fileflock :: "nat \<Rightarrow> nat \<Rightarrow> u32 \<Rightarrow> 'z vfs_scheme \<Rightarrow> (pipe_out \<times> 'z vfs_scheme) kres" where
  "fileflock p f op s =
     (let x = ftable s f
      in case f_ip x of
           None \<Rightarrow> Inr (PRet (- 1), s)
         | Some ip \<Rightarrow>
             if f_type x = FD_NONE then Inr (PRet (- 1), s)
             else let cmd = op AND NOT LOCK_NB
             in if cmd = LOCK_UN then
                  kbind (if f_flock x \<noteq> 0 then wakeup (Some (ChInode ip)) (upd_file f (\<lambda>x. x\<lparr>f_flock := 0\<rparr>) s) else Inr s)
                    (\<lambda>s1. Inr (PRet 0, s1))
             else if cmd \<noteq> LOCK_SH \<and> cmd \<noteq> LOCK_EX then Inr (PRet (- 1), s)
             else if \<not> flock_conflict f ip cmd s then Inr (PRet 0, upd_file f (\<lambda>x. x\<lparr>f_flock := cmd\<rparr>) s)
             else if op AND LOCK_NB \<noteq> 0 then Inr (PRet (- 1), s)
             else kbind (sleep p (Some (ChInode ip)) s) (\<lambda>s1. Inr (PSleeps 0, s1)))"

section \<open>File descriptors\<close>

definition set_fd :: "nat \<Rightarrow> nat \<Rightarrow> nat option \<Rightarrow> u8 \<Rightarrow> 'z sched_scheme \<Rightarrow> 'z sched_scheme" where
  "set_fd p fd f fl s = upd_proc p (\<lambda>x. x\<lparr>ofile := (ofile x)(fd := f), fdflags := (fdflags x)(fd := fl)\<rparr>) s"

definition fdalloc_ge :: "nat \<Rightarrow> nat \<Rightarrow> int \<Rightarrow> 'z vfs_scheme \<Rightarrow> nat option \<times> 'z vfs_scheme" where
  "fdalloc_ge p f minfd s =
     (if minfd < 0 then (None, s)
      else case find (\<lambda>fd. ofile (ptab s p) fd = None) [min (nat minfd) NOFILE..<NOFILE] of
             None \<Rightarrow> (None, s)
           | Some fd \<Rightarrow> (Some fd, set_fd p fd (Some f) 0 s))"

definition fdalloc :: "nat \<Rightarrow> nat \<Rightarrow> 'z vfs_scheme \<Rightarrow> nat option \<times> 'z vfs_scheme" where
  "fdalloc p f s = fdalloc_ge p f 0 s"

definition fdget :: "nat \<Rightarrow> int \<Rightarrow> 'z vfs_scheme \<Rightarrow> nat option" where
  "fdget p fd s = (if fd < 0 \<or> int NOFILE \<le> fd then None else ofile (ptab s p) (nat fd))"

definition open_console :: "nat \<Rightarrow> nat \<Rightarrow> bool \<Rightarrow> bool \<Rightarrow> 'z vfs_scheme \<Rightarrow> (nat option \<times> 'z vfs_scheme) fres" where
  "open_console n p rd wr s =
     fbind (fs_namei n p (bytes_of ''/dev/console'') s) (\<lambda>(r, s1).
       case r of
         None \<Rightarrow> fret (None, s1)
       | Some ip \<Rightarrow>
           (case filealloc s1 of
              (None, s2) \<Rightarrow> put_ret ip None s2
            | (Some f, s2) \<Rightarrow>
                fret (Some f, upd_file f (\<lambda>x. x\<lparr>f_type := FD_CHAR, f_ip := Some ip, f_readable := rd, f_writable := wr,
                  f_flags := (if rd \<and> wr then O_RDWR else if wr then O_WRONLY else O_RDONLY), f_off := 0\<rparr>) s2)))"

definition close_opt :: "nat option \<Rightarrow> 'z vfs_scheme \<Rightarrow> 'z vfs_scheme kres" where
  "close_opt f s = (case f of None \<Rightarrow> Inr s | Some i \<Rightarrow> fileclose i s)"

text \<open>\<open>p\<close> is the running process, \<open>q\<close> the one that gets the descriptors.\<close>

definition fd_install_stdio :: "nat \<Rightarrow> nat \<Rightarrow> nat \<Rightarrow> 'z vfs_scheme \<Rightarrow> 'z vfs_scheme fres" where
  "fd_install_stdio n p q s =
     fbind (open_console n p True False s) (\<lambda>(inp, s1).
       fbind (open_console n p False True s1) (\<lambda>(out, s2).
         case (inp, out) of
           (Some i, Some out') \<Rightarrow>
             fbind (Some (filedup out' (set_fd q 1 (Some out') 0 (set_fd q 0 (Some i) 0 s2)))) (\<lambda>s3. fret (set_fd q 2 (Some out') 0 s3))
         | _ \<Rightarrow> Some (kbind (close_opt inp s2) (close_opt out))))"

definition fd_copy :: "nat \<Rightarrow> nat \<Rightarrow> 'z vfs_scheme \<Rightarrow> 'z vfs_scheme kres" where
  "fd_copy dst src s =
     kfold (\<lambda>i s. case ofile (ptab s src) i of
                    Some f \<Rightarrow> kbind (filedup f s) (\<lambda>s1. Inr (set_fd dst i (Some f) (fdflags (ptab s src) i) s1))
                  | None \<Rightarrow> Inr (set_fd dst i None 0 s)) [0..<NOFILE] s"

definition fd_closeall :: "nat \<Rightarrow> 'z vfs_scheme \<Rightarrow> 'z vfs_scheme kres" where
  "fd_closeall p s =
     kfold (\<lambda>i s. case ofile (ptab s p) i of
                    Some f \<Rightarrow> kbind (fileclose f s) (\<lambda>s1. Inr (set_fd p i None 0 s1))
                  | None \<Rightarrow> Inr (set_fd p i None 0 s)) [0..<NOFILE] s"

definition fd_close_on_exec :: "nat \<Rightarrow> 'z vfs_scheme \<Rightarrow> 'z vfs_scheme kres" where
  "fd_close_on_exec p s =
     kfold (\<lambda>i s. case ofile (ptab s p) i of
                    Some f \<Rightarrow> if fdflags (ptab s p) i AND FD_CLOEXEC \<noteq> 0
                              then kbind (fileclose f s) (\<lambda>s1. Inr (set_fd p i None 0 s1)) else Inr s
                  | None \<Rightarrow> Inr s) [0..<NOFILE] s"

section \<open>Pipes\<close>

text \<open>The two ends, or \<open>None\<close> for -1; what \<open>bad\<close> closes and frees is what there is by then.\<close>

definition pipealloc :: "'z vfs_scheme \<Rightarrow> ((nat \<times> nat) option \<times> 'z vfs_scheme) kres" where
  "pipealloc s =
     (case filealloc s of
        (None, s1) \<Rightarrow> Inr (None, s1)
      | (Some f0, s1) \<Rightarrow>
          (case filealloc s1 of
             (None, s2) \<Rightarrow> kbind (fileclose f0 s2) (\<lambda>s3. Inr (None, s3))
           | (Some f1, s2) \<Rightarrow>
               kbind (do_kmalloc sizeof_pipe s2) (\<lambda>(a, s3).
                 case a of
                   None \<Rightarrow> kbind (fileclose f0 s3) (\<lambda>s4. kbind (fileclose f1 s4) (\<lambda>s5. Inr (None, s5)))
                 | Some pi \<Rightarrow>
                     (case pipe_inode_alloc pi (set_pipe pi ((pipes s3 pi)\<lparr>readers := 1, writers := 1, nread := 0, nwrite := 0\<rparr>) s3) of
                        (None, s4) \<Rightarrow> kbind (do_kfree pi s4) (\<lambda>s5. kbind (fileclose f0 s5) (\<lambda>s6. kbind (fileclose f1 s6) (\<lambda>s7. Inr (None, s7))))
                      | (Some ip, s4) \<Rightarrow>
                          let s5 = upd_file f0 (\<lambda>x. x\<lparr>f_type := FD_INODE, f_readable := True, f_writable := False, f_flags := O_RDONLY,
                                     f_ip := Some ip, f_off := 0\<rparr>) (fs_idup ip s4)
                          in Inr (Some (f0, f1), upd_file f1 (\<lambda>x. x\<lparr>f_type := FD_INODE, f_readable := False, f_writable := True,
                                     f_flags := O_WRONLY, f_ip := Some ip, f_off := 0\<rparr>) s5)))))"

end
