(* ===== verification/Sysfile.thy ===== *)
theory Sysfile
  imports File Futex
begin

text \<open>
  The system calls on files, src/arch/x86/kernel/fs/sysfile.c, for the process \<open>p\<close> running on the CPU \<open>c\<close>. The fuel \<open>n\<close>
  is that of path lookup. \<open>mount\<close> and \<open>umount\<close> are left out with the file systems they serve.
\<close>

section \<open>Arguments\<close>

definition argstr :: "nat \<Rightarrow> nat \<Rightarrow> trapframe \<Rightarrow> nat \<Rightarrow> 'z vfs_scheme \<Rightarrow> (u8 list option \<times> 'z vfs_scheme) kres" where
  "argstr c p tf k s = kbind (argaddr tf k) (\<lambda>a. copyinstr c (proc_pagetable (ptab s p)) a (of_nat NNAME) s)"

text \<open>A call whose argument \<open>k\<close> is a path; it returns -1 when the path cannot be read.\<close>

definition with_path :: "nat \<Rightarrow> nat \<Rightarrow> trapframe \<Rightarrow> nat \<Rightarrow> 'z vfs_scheme \<Rightarrow> (u8 list \<Rightarrow> 'z vfs_scheme \<Rightarrow> (int \<times> 'z vfs_scheme) fres) \<Rightarrow> (int \<times> 'z vfs_scheme) fres" where
  "with_path c p tf k s f =
     fbind (Some (argstr c p tf k s)) (\<lambda>(r, s1). case r of None \<Rightarrow> fret (- 1, s1) | Some path \<Rightarrow> f path s1)"

definition with_int :: "trapframe \<Rightarrow> nat \<Rightarrow> (int \<Rightarrow> 'a fres) \<Rightarrow> 'a fres" where
  "with_int tf k f = fbind (Some (argint tf k)) f"

definition with_addr :: "trapframe \<Rightarrow> nat \<Rightarrow> (u32 \<Rightarrow> 'a fres) \<Rightarrow> 'a fres" where
  "with_addr tf k f = fbind (Some (argaddr tf k)) f"

definition copy_ret :: "nat \<Rightarrow> nat \<Rightarrow> u32 \<Rightarrow> u8 list \<Rightarrow> int \<Rightarrow> 'z vfs_scheme \<Rightarrow> (int \<times> 'z vfs_scheme) fres" where
  "copy_ret c p ua bs r s =
     fbind (Some (copyout c (proc_pagetable (ptab s p)) ua bs s)) (\<lambda>(k, s1). fret (if k < 0 then - 1 else r, s1))"

section \<open>Opening\<close>

definition set_open :: "nat \<Rightarrow> file_type \<Rightarrow> nat \<Rightarrow> bool \<Rightarrow> bool \<Rightarrow> u32 \<Rightarrow> 'z vfs_scheme \<Rightarrow> 'z vfs_scheme" where
  "set_open f ty ip rd wr fl s =
     upd_file f (\<lambda>x. x\<lparr>f_type := ty, f_ip := Some ip, f_off := 0, f_readable := rd, f_writable := wr, f_flags := fl\<rparr>) s"

text \<open>The common part of \<open>sys_open\<close> and \<open>sys_creat\<close>: a file and a descriptor for it.\<close>

definition open_fd :: "nat \<Rightarrow> nat \<Rightarrow> 'z vfs_scheme \<Rightarrow> ((nat \<times> nat) option \<times> 'z vfs_scheme) fres" where
  "open_fd p ip s =
     (case filealloc s of
        (None, s1) \<Rightarrow> put_ret ip None s1
      | (Some f, s1) \<Rightarrow>
          (case fdalloc p f s1 of
             (None, s2) \<Rightarrow> fbind (Some (fileclose f s2)) (put_ret ip None)
           | (Some fd, s2) \<Rightarrow> fret (Some (f, fd), s2)))"

definition sys_open :: "nat \<Rightarrow> nat \<Rightarrow> nat \<Rightarrow> trapframe \<Rightarrow> 'z vfs_scheme \<Rightarrow> (int \<times> 'z vfs_scheme) fres" where
  "sys_open n c p tf s0 = with_path c p tf 0 s0 (\<lambda>path s. with_addr tf 1 (\<lambda>flags.
     fbind (if flags AND O_CREATE \<noteq> 0 then
              fbind (fs_create n p path T_FILE s) (\<lambda>(r, s1).
                if r \<noteq> None then fret (r, True, s1)
                else if flags AND O_EXCL \<noteq> 0 then fret (None, False, s1)
                else fbind (fs_namei n p path s1) (\<lambda>(r, s2). fret (r, False, s2)))
            else fbind (fs_namei n p path s) (\<lambda>(r, s1). fret (r, False, s1))) (\<lambda>(r, created, s1).
     case r of
       None \<Rightarrow> fret (- 1, s1)
     | Some ip \<Rightarrow>
         fbind (if flags AND O_TRUNC \<noteq> 0 \<and> flags AND (O_WRONLY OR O_RDWR) \<noteq> 0 \<and> i_type (inodes s1 ip) = T_FILE
                then Some (fs_truncate ip 0 s1) else fret (0, s1)) (\<lambda>(t, s2).
         if t < 0 \<and> \<not> created then put_ret ip (- 1) s2
         else fbind (open_fd p ip s2) (\<lambda>(q, s3).
           case q of
             None \<Rightarrow> fret (- 1, s3)
           | Some (f, fd) \<Rightarrow>
               let ty = (case i_type (inodes s3 ip) of T_CHAR \<Rightarrow> FD_CHAR | T_BLK \<Rightarrow> FD_BLOCK | _ \<Rightarrow> FD_INODE);
                   rd = (flags AND O_WRONLY = 0); wr = (flags AND O_WRONLY \<noteq> 0 \<or> flags AND O_RDWR \<noteq> 0);
                   s4 = set_open f ty ip rd wr (flags AND (O_ACCMODE OR O_APPEND OR O_NONBLOCK)) s3
               in fbind (if i_type (inodes s4 ip) = T_FIFO \<and> i_pipe (inodes s4 ip) \<noteq> 0
                         then Some (fifo_on_open (i_pipe (inodes s4 ip)) rd wr s4) else fret s4) (\<lambda>s5. fret (int fd, s5)))))))"

definition sys_creat :: "nat \<Rightarrow> nat \<Rightarrow> nat \<Rightarrow> trapframe \<Rightarrow> 'z vfs_scheme \<Rightarrow> (int \<times> 'z vfs_scheme) fres" where
  "sys_creat n c p tf s0 = with_path c p tf 0 s0 (\<lambda>path s. with_addr tf 1 (\<lambda>mode.
     fbind (fs_create n p path T_FILE s) (\<lambda>(r, s1).
     fbind (case r of
              Some ip \<Rightarrow> fret (Some ip, s1)
            | None \<Rightarrow>
                fbind (fs_namei n p path s1) (\<lambda>(r', s2).
                  case r' of
                    None \<Rightarrow> fret (None, s2)
                  | Some ip \<Rightarrow> fbind (Some (fs_truncate ip 0 s2)) (\<lambda>(t, s3). if t < 0 then put_ret ip None s3 else fret (Some ip, s3)))) (\<lambda>(r', s2).
     case r' of
       None \<Rightarrow> fret (- 1, s2)
     | Some ip \<Rightarrow>
         fbind (open_fd p ip (upd_inode ip (\<lambda>x. x\<lparr>i_mode := mode AND 0xfff\<rparr>) s2)) (\<lambda>(q, s3).
           case q of
             None \<Rightarrow> fret (- 1, s3)
           | Some (f, fd) \<Rightarrow> fret (int fd, set_open f FD_INODE ip False True O_WRONLY s3))))))"

section \<open>Metadata\<close>

definition inode_to_mode :: "inode \<Rightarrow> u32" where
  "inode_to_mode x =
     (case i_type x of T_DIR \<Rightarrow> 0x4000 | T_FILE \<Rightarrow> 0x8000 | T_CHAR \<Rightarrow> 0x2000 | T_BLK \<Rightarrow> 0x6000 | T_FIFO \<Rightarrow> 0x1000
        | T_LNK \<Rightarrow> 0xA000 | T_NONE \<Rightarrow> 0) OR (i_mode x AND 0xfff)"

text \<open>The bytes of \<open>struct stat\<close>.\<close>

definition inode_to_stat :: "inode \<Rightarrow> u8 list" where
  "inode_to_stat x = take 2 (le32 (inode_to_mode x)) @ take 2 (le32 (nlink x))
     @ concat (map le32 [i_uid x, i_gid x, inum x, i_size x, rdev x, i_atime x, i_mtime x, i_ctime x])"

definition sys_fstat :: "nat \<Rightarrow> nat \<Rightarrow> trapframe \<Rightarrow> 'z vfs_scheme \<Rightarrow> (int \<times> 'z vfs_scheme) fres" where
  "sys_fstat c p tf s = with_int tf 0 (\<lambda>fd. with_addr tf 1 (\<lambda>ua.
     if proc_pagetable (ptab s p) = 0 then fret (- 1, s)
     else case Option.bind (fdget p fd s) (\<lambda>f. f_ip (ftable s f)) of
            None \<Rightarrow> fret (- 1, s)
          | Some ip \<Rightarrow> copy_ret c p ua (inode_to_stat (inodes s ip)) 0 s))"

text \<open>\<open>sys_stat\<close> and \<open>sys_lstat\<close> differ in the lookup.\<close>

definition stat_with :: "(u8 list \<Rightarrow> 'z vfs_scheme \<Rightarrow> (nat option \<times> 'z vfs_scheme) fres) \<Rightarrow> nat \<Rightarrow> nat \<Rightarrow> trapframe \<Rightarrow> 'z vfs_scheme \<Rightarrow> (int \<times> 'z vfs_scheme) fres" where
  "stat_with look c p tf s0 = with_path c p tf 0 s0 (\<lambda>path s. with_addr tf 1 (\<lambda>ua.
     if proc_pagetable (ptab s p) = 0 then fret (- 1, s)
     else fbind (look path s) (\<lambda>(r, s1).
       case r of
         None \<Rightarrow> fret (- 1, s1)
       | Some ip \<Rightarrow> fbind (Some (fs_iput ip s1)) (\<lambda>s2. copy_ret c p ua (inode_to_stat (inodes s1 ip)) 0 s2))))"

definition sys_stat :: "nat \<Rightarrow> nat \<Rightarrow> nat \<Rightarrow> trapframe \<Rightarrow> 'z vfs_scheme \<Rightarrow> (int \<times> 'z vfs_scheme) fres" where
  "sys_stat n c p tf s = stat_with (fs_namei n p) c p tf s"

definition sys_lstat :: "nat \<Rightarrow> nat \<Rightarrow> nat \<Rightarrow> trapframe \<Rightarrow> 'z vfs_scheme \<Rightarrow> (int \<times> 'z vfs_scheme) fres" where
  "sys_lstat n c p tf s = stat_with (fs_namei_nofollow n p) c p tf s"

definition sys_readlink :: "nat \<Rightarrow> nat \<Rightarrow> nat \<Rightarrow> trapframe \<Rightarrow> 'z vfs_scheme \<Rightarrow> (int \<times> 'z vfs_scheme) fres" where
  "sys_readlink n c p tf s0 = with_path c p tf 0 s0 (\<lambda>path s. with_addr tf 1 (\<lambda>ua. with_int tf 2 (\<lambda>bufsiz.
     if proc_pagetable (ptab s p) = 0 \<or> bufsiz \<le> 0 then fret (- 1, s)
     else fbind (fs_namei_nofollow n p path s) (\<lambda>(r, s1).
       case r of
         None \<Rightarrow> fret (- 1, s1)
       | Some ip \<Rightarrow>
           if i_type (inodes s1 ip) \<noteq> T_LNK then put_ret ip (- 1) s1
           else fbind (Some (fs_readi p ip 0 (of_nat DIRSIZ) s1)) (\<lambda>(q, bs, s2).
             fbind (Some (fs_iput ip s2)) (\<lambda>s3.
               case q of
                 PSleeps _ \<Rightarrow> Some (Inl ''sys_readlink: link is a pipe'')
               | PRet k \<Rightarrow> if k < 0 then fret (- 1, s3)
                            else copy_ret c p ua (take (nat (min k bufsiz)) bs) (min k bufsiz) s3))))))"

section \<open>Descriptors\<close>

definition sys_close :: "nat \<Rightarrow> trapframe \<Rightarrow> 'z vfs_scheme \<Rightarrow> (int \<times> 'z vfs_scheme) fres" where
  "sys_close p tf s = with_int tf 0 (\<lambda>fd.
     case fdget p fd s of
       None \<Rightarrow> fret (- 1, s)
     | Some f \<Rightarrow> fbind (Some (fileclose f (set_fd p (nat fd) None 0 s))) (\<lambda>s1. fret (0, s1)))"

definition sys_ioctl :: "'z vfs_scheme chrdev_table \<Rightarrow> nat \<Rightarrow> trapframe \<Rightarrow> 'z vfs_scheme \<Rightarrow> (int \<times> 'z vfs_scheme) fres" where
  "sys_ioctl D p tf s = with_int tf 0 (\<lambda>fd. with_addr tf 1 (\<lambda>req. with_addr tf 2 (\<lambda>arg.
     case fdget p fd s of None \<Rightarrow> fret (- 1, s) | Some f \<Rightarrow> Some (fileioctl D f req arg s))))"

definition sys_fcntl :: "nat \<Rightarrow> trapframe \<Rightarrow> 'z vfs_scheme \<Rightarrow> (int \<times> 'z vfs_scheme) fres" where
  "sys_fcntl p tf s = with_int tf 0 (\<lambda>fd. with_int tf 1 (\<lambda>cmd. with_int tf 2 (\<lambda>arg.
     case fdget p fd s of
       None \<Rightarrow> fret (- 1, s)
     | Some f \<Rightarrow>
         if cmd = 0 \<or> cmd = 1030 then
           (case fdalloc_ge p f arg s of
              (None, s1) \<Rightarrow> fret (- 1, s1)
            | (Some nfd, s1) \<Rightarrow> fbind (Some (filedup f s1)) (\<lambda>s2.
                fret (int nfd, if cmd = 1030 then set_fd p nfd (Some f) FD_CLOEXEC s2 else s2)))
         else if cmd = 1 then fret (int (unat (fdflags (ptab s p) (nat fd))), s)
         else if cmd = 2 then fret (0, set_fd p (nat fd) (Some f) (of_int arg AND FD_CLOEXEC) s)
         else if cmd = 3 then fret (sint (f_flags (ftable s f)), s)
         else if cmd = 4 then
           fret (0, upd_file f (\<lambda>x. x\<lparr>f_flags := (f_flags x AND O_ACCMODE) OR (of_int arg AND (O_APPEND OR O_NONBLOCK))\<rparr>) s)
         else fret (- 1, s))))"

definition sys_flock :: "nat \<Rightarrow> trapframe \<Rightarrow> 'z vfs_scheme \<Rightarrow> (pipe_out \<times> 'z vfs_scheme) fres" where
  "sys_flock p tf s = with_int tf 0 (\<lambda>fd. with_addr tf 1 (\<lambda>op.
     case fdget p fd s of None \<Rightarrow> fret (PRet (- 1), s) | Some f \<Rightarrow> Some (fileflock p f op s)))"

definition sys_dup :: "nat \<Rightarrow> trapframe \<Rightarrow> 'z vfs_scheme \<Rightarrow> (int \<times> 'z vfs_scheme) fres" where
  "sys_dup p tf s = with_int tf 0 (\<lambda>fd.
     case fdget p fd s of
       None \<Rightarrow> fret (- 1, s)
     | Some f \<Rightarrow>
         (case fdalloc p f s of
            (None, s1) \<Rightarrow> fret (- 1, s1)
          | (Some nfd, s1) \<Rightarrow> fbind (Some (filedup f s1)) (\<lambda>s2. fret (int nfd, s2))))"

definition sys_dup2 :: "nat \<Rightarrow> trapframe \<Rightarrow> 'z vfs_scheme \<Rightarrow> (int \<times> 'z vfs_scheme) fres" where
  "sys_dup2 p tf s = with_int tf 0 (\<lambda>oldfd. with_int tf 1 (\<lambda>newfd.
     if newfd < 0 \<or> int NOFILE \<le> newfd then fret (- 1, s)
     else case fdget p oldfd s of
            None \<Rightarrow> fret (- 1, s)
          | Some f \<Rightarrow>
              if oldfd = newfd then fret (newfd, s)
              else fbind (case ofile (ptab s p) (nat newfd) of
                            None \<Rightarrow> fret s
                          | Some g \<Rightarrow> fbind (Some (fileclose g s)) (\<lambda>s1. fret (set_fd p (nat newfd) None 0 s1))) (\<lambda>s2.
                fbind (Some (filedup f s2)) (\<lambda>s3. fret (newfd, set_fd p (nat newfd) (Some f) 0 s3)))))"

definition sys_lseek :: "nat \<Rightarrow> trapframe \<Rightarrow> 'z vfs_scheme \<Rightarrow> (int \<times> 'z vfs_scheme) fres" where
  "sys_lseek p tf s = with_int tf 0 (\<lambda>fd. with_int tf 1 (\<lambda>offset. with_int tf 2 (\<lambda>whence.
     case fdget p fd s of None \<Rightarrow> fret (- 1, s) | Some f \<Rightarrow> Some (filelseek f offset whence s))))"

definition sys_pipe :: "nat \<Rightarrow> nat \<Rightarrow> trapframe \<Rightarrow> 'z vfs_scheme \<Rightarrow> (int \<times> 'z vfs_scheme) fres" where
  "sys_pipe c p tf s = with_addr tf 0 (\<lambda>ua.
     if proc_pagetable (ptab s p) = 0 then fret (- 1, s)
     else fbind (Some (pipealloc s)) (\<lambda>(r, s1).
       case r of
         None \<Rightarrow> fret (- 1, s1)
       | Some (rd_f, wr_f) \<Rightarrow>
           let close_both = (\<lambda>t. fbind (Some (fileclose rd_f t)) (\<lambda>t1. fbind (Some (fileclose wr_f t1)) (\<lambda>t2. fret (- 1, t2))));
               clear = (\<lambda>fd t. upd_proc p (\<lambda>x. x\<lparr>ofile := (ofile x)(fd := None)\<rparr>) t)
           in (case fdalloc p rd_f s1 of
                 (None, s2) \<Rightarrow> close_both s2
               | (Some fd0, s2) \<Rightarrow>
                   (case fdalloc p wr_f s2 of
                      (None, s3) \<Rightarrow> close_both (clear fd0 s3)
                    | (Some fd1, s3) \<Rightarrow>
                        fbind (Some (copyout c (proc_pagetable (ptab s p)) ua (le32 (of_nat fd0)) s3)) (\<lambda>(k0, s4).
                          if k0 < 0 then close_both (clear fd1 (clear fd0 s4))
                          else fbind (Some (copyout c (proc_pagetable (ptab s p)) (ua + 4) (le32 (of_nat fd1)) s4)) (\<lambda>(k1, s5).
                            if k1 < 0 then close_both (clear fd1 (clear fd0 s5)) else fret (0, s5)))))))"

section \<open>Reading and writing\<close>

text \<open>
  The loops over chunks of 128 bytes; \<open>tot\<close> bytes have been transferred before. A sleep ends the model of the call, with
  the bytes transferred so far.
\<close>

function read_chunks :: "'z vfs_scheme disks \<Rightarrow> 'z vfs_scheme chrdev_table \<Rightarrow> nat \<Rightarrow> nat \<Rightarrow> nat \<Rightarrow> u32 \<Rightarrow> int \<Rightarrow> int \<Rightarrow> 'z vfs_scheme \<Rightarrow> (pipe_out \<times> 'z vfs_scheme) kres" where
  "read_chunks B D c p f ua n tot s =
     (if n \<le> tot then Inr (PRet tot, s)
      else let chunk = min (n - tot) 128
      in case fileread B D p f chunk s of
           Inl e \<Rightarrow> Inl e
         | Inr (PSleeps _, _, s1) \<Rightarrow> Inr (PSleeps (nat tot), s1)
         | Inr (PRet r, bs, s1) \<Rightarrow>
             if r < 0 then Inr (PRet (- 1), s1)
             else if r = 0 then Inr (PRet tot, s1)
             else (case copyout c (proc_pagetable (ptab s p)) (ua + of_int tot) (take (nat r) bs) s1 of
                     Inl e \<Rightarrow> Inl e
                   | Inr (k, s2) \<Rightarrow>
                       if k < 0 then Inr (PRet (- 1), s2)
                       else if r < chunk \<or> (case f_ip (ftable s2 f) of Some ip \<Rightarrow> i_type (inodes s2 ip) = T_FIFO | None \<Rightarrow> False) then Inr (PRet (tot + r), s2)
                       else read_chunks B D c p f ua n (tot + r) s2))"
  by pat_completeness auto
termination
  by (relation "measure (\<lambda>(B, D, c, p, f, ua, n, tot, s). nat (n - tot))") auto

function write_chunks :: "'z vfs_scheme disks \<Rightarrow> 'z vfs_scheme chrdev_table \<Rightarrow> nat \<Rightarrow> nat \<Rightarrow> nat \<Rightarrow> u32 \<Rightarrow> int \<Rightarrow> int \<Rightarrow> 'z vfs_scheme \<Rightarrow> (pipe_out \<times> 'z vfs_scheme) kres" where
  "write_chunks B D c p f ua n tot s =
     (if n \<le> tot then Inr (PRet tot, s)
      else let chunk = min (n - tot) 128
      in case copyin c (proc_pagetable (ptab s p)) (ua + of_int tot) (of_int chunk) s of
           Inl e \<Rightarrow> Inl e
         | Inr (None, s1) \<Rightarrow> Inr (PRet (- 1), s1)
         | Inr (Some bs, s1) \<Rightarrow>
             (case filewrite B D p f bs s1 of
                Inl e \<Rightarrow> Inl e
              | Inr (PSleeps _, s2) \<Rightarrow> Inr (PSleeps (nat tot), s2)
              | Inr (PRet r, s2) \<Rightarrow>
                  if r < 0 then Inr (PRet (- 1), s2)
                  else if r = 0 then Inr (PRet tot, s2)
                  else if r < chunk then Inr (PRet (tot + r), s2)
                  else write_chunks B D c p f ua n (tot + r) s2))"
  by pat_completeness auto
termination
  by (relation "measure (\<lambda>(B, D, c, p, f, ua, n, tot, s). nat (n - tot))") auto

declare read_chunks.simps [simp del] write_chunks.simps [simp del]

definition sys_read :: "'z vfs_scheme disks \<Rightarrow> 'z vfs_scheme chrdev_table \<Rightarrow> nat \<Rightarrow> nat \<Rightarrow> trapframe \<Rightarrow> 'z vfs_scheme \<Rightarrow> (pipe_out \<times> 'z vfs_scheme) fres" where
  "sys_read B D c p tf s = with_int tf 0 (\<lambda>fd. with_addr tf 1 (\<lambda>ua. with_int tf 2 (\<lambda>n.
     if proc_pagetable (ptab s p) = 0 \<or> n < 0 then fret (PRet (- 1), s)
     else case fdget p fd s of None \<Rightarrow> fret (PRet (- 1), s) | Some f \<Rightarrow> Some (read_chunks B D c p f ua n 0 s))))"

definition sys_write :: "'z vfs_scheme disks \<Rightarrow> 'z vfs_scheme chrdev_table \<Rightarrow> nat \<Rightarrow> nat \<Rightarrow> trapframe \<Rightarrow> 'z vfs_scheme \<Rightarrow> (pipe_out \<times> 'z vfs_scheme) fres" where
  "sys_write B D c p tf s = with_int tf 0 (\<lambda>fd. with_addr tf 1 (\<lambda>ua. with_int tf 2 (\<lambda>n.
     if proc_pagetable (ptab s p) = 0 \<or> n < 0 then fret (PRet (- 1), s)
     else case fdget p fd s of None \<Rightarrow> fret (PRet (- 1), s) | Some f \<Rightarrow> Some (write_chunks B D c p f ua n 0 s))))"

section \<open>Directories and paths\<close>

definition set_cwd :: "nat \<Rightarrow> nat \<Rightarrow> 'z vfs_scheme \<Rightarrow> (int \<times> 'z vfs_scheme) fres" where
  "set_cwd p ip s =
     fbind (case cwd (ptab s p) of None \<Rightarrow> fret s | Some old \<Rightarrow> Some (fs_iput old s)) (\<lambda>s1.
       fret (0, upd_proc p (\<lambda>x. x\<lparr>cwd := Some ip\<rparr>) s1))"

definition sys_chdir :: "nat \<Rightarrow> nat \<Rightarrow> nat \<Rightarrow> trapframe \<Rightarrow> 'z vfs_scheme \<Rightarrow> (int \<times> 'z vfs_scheme) fres" where
  "sys_chdir n c p tf s0 = with_path c p tf 0 s0 (\<lambda>path s.
     fbind (fs_namei n p path s) (\<lambda>(r, s1).
       case r of
         None \<Rightarrow> fret (- 1, s1)
       | Some ip \<Rightarrow> if i_type (inodes s1 ip) \<noteq> T_DIR then put_ret ip (- 1) s1 else set_cwd p ip s1))"

definition sys_fchdir :: "nat \<Rightarrow> trapframe \<Rightarrow> 'z vfs_scheme \<Rightarrow> (int \<times> 'z vfs_scheme) fres" where
  "sys_fchdir p tf s = with_int tf 0 (\<lambda>fd.
     case Option.bind (fdget p fd s) (\<lambda>f. f_ip (ftable s f)) of
       None \<Rightarrow> fret (- 1, s)
     | Some ip \<Rightarrow> if i_type (inodes s ip) \<noteq> T_DIR then fret (- 1, s) else set_cwd p ip (fs_idup ip s))"

definition sys_mkdir :: "nat \<Rightarrow> nat \<Rightarrow> nat \<Rightarrow> trapframe \<Rightarrow> 'z vfs_scheme \<Rightarrow> (int \<times> 'z vfs_scheme) fres" where
  "sys_mkdir n c p tf s = with_path c p tf 0 s (\<lambda>path s1. with_int tf 1 (\<lambda>mode. fs_mkdir n p path s1))"

definition sys_rmdir :: "nat \<Rightarrow> nat \<Rightarrow> nat \<Rightarrow> trapframe \<Rightarrow> 'z vfs_scheme \<Rightarrow> (int \<times> 'z vfs_scheme) fres" where
  "sys_rmdir n c p tf s = with_path c p tf 0 s (fs_rmdir n p)"

definition sys_link :: "nat \<Rightarrow> nat \<Rightarrow> nat \<Rightarrow> trapframe \<Rightarrow> 'z vfs_scheme \<Rightarrow> (int \<times> 'z vfs_scheme) fres" where
  "sys_link n c p tf s = with_path c p tf 0 s (\<lambda>oldpath s1. with_path c p tf 1 s1 (fs_link n p oldpath))"

definition sys_symlink :: "nat \<Rightarrow> nat \<Rightarrow> nat \<Rightarrow> trapframe \<Rightarrow> 'z vfs_scheme \<Rightarrow> (int \<times> 'z vfs_scheme) fres" where
  "sys_symlink n c p tf s = with_path c p tf 0 s (\<lambda>target s1. with_path c p tf 1 s1 (fs_symlink n p target))"

definition sys_unlink :: "nat \<Rightarrow> nat \<Rightarrow> nat \<Rightarrow> trapframe \<Rightarrow> 'z vfs_scheme \<Rightarrow> (int \<times> 'z vfs_scheme) fres" where
  "sys_unlink n c p tf s = with_path c p tf 0 s (fs_unlink n p)"

definition sys_rename :: "nat \<Rightarrow> nat \<Rightarrow> nat \<Rightarrow> trapframe \<Rightarrow> 'z vfs_scheme \<Rightarrow> (int \<times> 'z vfs_scheme) fres" where
  "sys_rename n c p tf s = with_path c p tf 0 s (\<lambda>oldpath s1. with_path c p tf 1 s1 (fs_rename n p oldpath))"

definition sys_getcwd :: "nat \<Rightarrow> nat \<Rightarrow> trapframe \<Rightarrow> 'z vfs_scheme \<Rightarrow> (int \<times> 'z vfs_scheme) fres" where
  "sys_getcwd c p tf s = with_addr tf 0 (\<lambda>ua. with_int tf 1 (\<lambda>sz.
     if proc_pagetable (ptab s p) = 0 \<or> sz < 2 then fret (- 1, s)
     else case fs_getcwd p (min sz (int NNAME)) s of
            None \<Rightarrow> fret (- 1, s)
          | Some bs \<Rightarrow> copy_ret c p ua bs (int (length bs)) s))"

definition sys_access :: "nat \<Rightarrow> nat \<Rightarrow> nat \<Rightarrow> trapframe \<Rightarrow> 'z vfs_scheme \<Rightarrow> (int \<times> 'z vfs_scheme) fres" where
  "sys_access n c p tf s = with_path c p tf 0 s (\<lambda>path s1. with_addr tf 1 (\<lambda>amode. fs_access n p path amode s1))"

definition sys_truncate :: "nat \<Rightarrow> nat \<Rightarrow> nat \<Rightarrow> trapframe \<Rightarrow> 'z vfs_scheme \<Rightarrow> (int \<times> 'z vfs_scheme) fres" where
  "sys_truncate n c p tf s0 = with_path c p tf 0 s0 (\<lambda>path s. with_int tf 1 (\<lambda>len.
     if len < 0 then fret (- 1, s)
     else fbind (fs_namei n p path s) (\<lambda>(r, s1).
       case r of
         None \<Rightarrow> fret (- 1, s1)
       | Some ip \<Rightarrow> fbind (Some (fs_truncate ip (of_int len) s1)) (\<lambda>(t, s2). put_ret ip (if t < 0 then - 1 else 0) s2))))"

definition sys_ftruncate :: "nat \<Rightarrow> trapframe \<Rightarrow> 'z vfs_scheme \<Rightarrow> (int \<times> 'z vfs_scheme) fres" where
  "sys_ftruncate p tf s = with_int tf 0 (\<lambda>fd. with_int tf 1 (\<lambda>len.
     if len < 0 then fret (- 1, s)
     else case fdget p fd s of
            None \<Rightarrow> fret (- 1, s)
          | Some f \<Rightarrow>
              (case f_ip (ftable s f) of
                 None \<Rightarrow> fret (- 1, s)
               | Some ip \<Rightarrow> if \<not> f_writable (ftable s f) then fret (- 1, s) else Some (fs_truncate ip (of_int len) s))))"

definition sys_mknod :: "nat \<Rightarrow> nat \<Rightarrow> nat \<Rightarrow> trapframe \<Rightarrow> 'z vfs_scheme \<Rightarrow> (int \<times> 'z vfs_scheme) fres" where
  "sys_mknod n c p tf s0 = with_path c p tf 0 s0 (\<lambda>path s. with_addr tf 1 (\<lambda>mode. with_addr tf 2 (\<lambda>dev.
     let fmt = mode AND 0xF000
     in if fmt \<noteq> 0x2000 \<and> fmt \<noteq> 0x6000 \<and> fmt \<noteq> 0x1000 then fret (- 1, s)
     else fbind (fs_mknod n p path (if fmt = 0x2000 then T_CHAR else if fmt = 0x6000 then T_BLK else T_FIFO)
                   (drop_bit 8 dev AND 0xfff) (dev AND 0xff) s) (\<lambda>(r, s1).
       case r of
         None \<Rightarrow> fret (- 1, s1)
       | Some ip \<Rightarrow> put_ret ip 0 (upd_inode ip (\<lambda>x. x\<lparr>i_mode := mode AND 0xfff\<rparr>) s1)))))"

definition sys_chmod :: "nat \<Rightarrow> nat \<Rightarrow> nat \<Rightarrow> trapframe \<Rightarrow> 'z vfs_scheme \<Rightarrow> (int \<times> 'z vfs_scheme) fres" where
  "sys_chmod n c p tf s = with_path c p tf 0 s (\<lambda>path s1. with_addr tf 1 (\<lambda>mode. fs_chmod n p path mode s1))"

definition sys_chown :: "nat \<Rightarrow> nat \<Rightarrow> nat \<Rightarrow> trapframe \<Rightarrow> 'z vfs_scheme \<Rightarrow> (int \<times> 'z vfs_scheme) fres" where
  "sys_chown n c p tf s = with_path c p tf 0 s (\<lambda>path s1. with_addr tf 1 (\<lambda>uid. with_addr tf 2 (\<lambda>gid. fs_chown n p path uid gid s1)))"

definition sys_utime :: "nat \<Rightarrow> nat \<Rightarrow> nat \<Rightarrow> trapframe \<Rightarrow> 'z vfs_scheme \<Rightarrow> (int \<times> 'z vfs_scheme) fres" where
  "sys_utime n c p tf s0 = with_path c p tf 0 s0 (\<lambda>path s. with_addr tf 1 (\<lambda>ua.
     if proc_pagetable (ptab s p) = 0 then fret (- 1, s)
     else if ua = 0 then fs_utime n p path (vfs_now_sec s) (vfs_now_sec s) s
     else fbind (Some (copyin c (proc_pagetable (ptab s p)) ua 8 s)) (\<lambda>(r, s1).
       case r of
         None \<Rightarrow> fret (- 1, s1)
       | Some bs \<Rightarrow> fs_utime n p path (le_word (take 4 bs)) (le_word (drop 4 bs)) s1)))"

definition sys_fsync :: "nat \<Rightarrow> trapframe \<Rightarrow> 'z vfs_scheme \<Rightarrow> int fres" where
  "sys_fsync p tf s = with_int tf 0 (\<lambda>fd.
     fret (if Option.bind (fdget p fd s) (\<lambda>f. f_ip (ftable s f)) = None then - 1 else 0))"

definition sys_sync :: int where
  "sys_sync = 0"

end
