(* ===== verification/File_Frame.thy ===== *)
theory File_Frame
  imports Sysfile Ramfs_Props
begin

text \<open>
  What the operations below leave of open files: memory, inodes, path lookup, pipes and wake-ups keep every descriptor
  and, of every open file, its reference count, inode, type and lock, and no live process becomes unused or a zombie.
\<close>

section \<open>What leaves open files alone\<close>

definition dead :: "proc \<Rightarrow> bool" where
  "dead x \<longleftrightarrow> state x = UNUSED \<or> state x = ZOMBIE"

lemma dead_state: "state x = state y \<Longrightarrow> dead x = dead y"
  by (simp add: dead_def)

definition same_files :: "'z vfs_scheme \<Rightarrow> 'z vfs_scheme \<Rightarrow> bool" where
  "same_files s s' \<longleftrightarrow> (\<forall>q. ofile (ptab s' q) = ofile (ptab s q) \<and> (dead (ptab s' q) \<longrightarrow> dead (ptab s q))) \<and>
     (\<forall>i. f_ref (ftable s' i) = f_ref (ftable s i) \<and> f_ip (ftable s' i) = f_ip (ftable s i)
        \<and> f_type (ftable s' i) = f_type (ftable s i) \<and> f_flock (ftable s' i) = f_flock (ftable s i))"

named_theorems files

lemma same_files_refl [simp]: "same_files s s"
  by (simp add: same_files_def)

lemma same_files_trans [trans]: "same_files s t \<Longrightarrow> same_files t u \<Longrightarrow> same_files s u"
  by (simp add: same_files_def)

lemma same_files_upd [simp]:
  "same_files s (upd_inode i f t) = same_files s t" "same_files s (set_heap h t) = same_files s t" "same_files s (set_pipe a x t) = same_files s t"
  "same_files s (put_ram a bs t) = same_files s t" "same_files s (copy_ram d e n t) = same_files s t" "same_files s (zero_ram a n t) = same_files s t"
  "same_files s (fs_idup i t) = same_files s t" "same_files s (fs_inode_touch i w y t) = same_files s t"
  "same_files s (evict_clear i t) = same_files s t" "same_files s (fs_inode_init_meta i ty md t) = same_files s t"
  "same_files s (t\<lparr>pipe_next_inum := k\<rparr>) = same_files s t"
  by (simp_all add: same_files_def set_pipe_def put_ram_def copy_ram_def zero_ram_def fs_idup_def fs_inode_touch_def evict_clear_def
      fs_inode_init_meta_def Let_def)

lemma same_files_upd_left [simp]:
  "same_files (upd_inode i f s) t = same_files s t" "same_files (set_heap h s) t = same_files s t" "same_files (set_pipe a x s) t = same_files s t"
  "same_files (copy_ram d e n s) t = same_files s t" "same_files (fs_idup i s) t = same_files s t" "same_files (fs_inode_touch i w y s) t = same_files s t"
  by (simp_all add: same_files_def set_pipe_def copy_ram_def fs_idup_def fs_inode_touch_def Let_def)

lemma kfold_inv:
  assumes "\<And>x s s'. x \<in> set xs \<Longrightarrow> P s \<Longrightarrow> f x s = Inr s' \<Longrightarrow> P s'"
  shows "kfold f xs s = Inr s' \<Longrightarrow> P s \<Longrightarrow> P s'"
  using assms
proof (induction xs arbitrary: s)
  case (Cons a xs)
  then obtain t where t: "f a s = Inr t" "kfold f xs t = Inr s'" by (auto split: sum.splits)
  have "P t" by (rule Cons.prems(3) [OF _ Cons.prems(2) t(1)]) simp
  from t(2) this show ?case by (rule Cons.IH) (rule Cons.prems(3), simp_all)
qed simp

lemma wakeup_files [files]: "wakeup ch s = Inr s' \<Longrightarrow> same_files s s'"
proof -
  assume w: "wakeup ch s = Inr s'"
  have "same_files t t'" if "wake_one i t = Inr t'" for i and t t' :: "'z vfs_scheme"
    using that by (auto simp: wake_one_def task_queue_enqueue_locked_def same_files_def upd_proc_def dead_def split: if_splits)
  then have "same_files s s'" if "kfold (\<lambda>i s. if state (ptab s i) = SLEEPING \<and> chan (ptab s i) = ch then wake_one i s else Inr s) [0..<NPROC] s = Inr s'"
    using kfold_inv [where P = "same_files s", OF _ that] same_files_trans by (fastforce split: if_splits)
  with w show ?thesis by (auto simp: wakeup_def split: if_splits)
qed

lemma do_kmalloc_files [files]: "do_kmalloc sz s = Inr (p, s') \<Longrightarrow> same_files s s'"
  by (auto simp: do_kmalloc_def split: sum.splits)

lemma do_kfree_files [files]: "do_kfree a s = Inr s' \<Longrightarrow> same_files s s'"
  by (auto simp: do_kfree_def split: sum.splits)

lemma iput_step_files: "iput_step w s = Inr (ws, s') \<Longrightarrow> same_files s s'"
  by (auto simp: iput_step_def ramfs_evict_def pipe_evict_def Let_def kbind_Inr_iff dest!: do_kfree_files
      split: iwork.splits if_splits option.splits inode_operations.splits)

lemma iput_run_files: "iput_run ws s = Inr s' \<Longrightarrow> same_files s s'"
proof (induction ws s rule: iput_run.induct)
  case (2 w ws s)
  then show ?case by (auto split: sum.splits prod.splits dest!: iput_step_files intro: same_files_trans)
qed simp

lemma fs_iput_files [files]: "fs_iput ip s = Inr s' \<Longrightarrow> same_files s s'"
  unfolding fs_iput_def by (rule iput_run_files)

lemma mem_only_files: "mem_only s s' \<Longrightarrow> same_files s s'"
  by (auto simp: mem_only_def same_files_def)

lemma copyinstr_loop_frame: "copyinstr_loop c pd va k s = Inr (r, s') \<Longrightarrow> mem_only s s'"
proof (induction k arbitrary: va s r s')
  case (Suc k)
  from Suc.prems show ?case
    by (auto split: sum.splits prod.splits option.splits if_splits dest!: copyin_frame Suc.IH intro: mem_only_trans)
qed simp

lemma copyout_files [files]: "copyout c pd va bs s = Inr (r, s') \<Longrightarrow> same_files s s'"
  using copyout_frame mem_only_files by blast

lemma argstr_files [files]: "argstr c p tf k s = Inr (r, s') \<Longrightarrow> same_files s s'"
  by (auto simp: argstr_def copyinstr_def kbind_Inr_iff split: if_splits dest!: copyinstr_loop_frame intro: mem_only_files)

lemma d_add_files [files]: "d_add dir nm ip s = Inr (r, s') \<Longrightarrow> same_files s s'"
  by (auto simp: d_add_def kbind_Inr_iff Let_def split: if_splits option.splits dest!: do_kmalloc_files)

lemma ialloc_files [files]: "ialloc ty s = (r, s') \<Longrightarrow> same_files s s'"
  by (auto simp: ialloc_def Let_def split: option.splits if_splits)

lemma ramfs_lookup_files [files]: "ramfs_lookup dir nm s = (r, s') \<Longrightarrow> same_files s s'"
  by (auto simp: ramfs_lookup_def split: option.splits)

lemma ramfs_lookup_snd [simp]: "same_files (snd (ramfs_lookup d nm s)) t = same_files s t"
  by (simp add: ramfs_lookup_def split: option.splits)

lemma ramfs_create_files [files]: "ramfs_create dir nm ty s = Inr (r, s') \<Longrightarrow> same_files s s'"
  by (auto simp: ramfs_create_def kbind_Inr_iff split: if_splits prod.splits option.splits dest!: files intro: same_files_trans)

lemma replace_data_files [files]: "replace_data ip buf k z len s = Inr s' \<Longrightarrow> same_files s s'"
proof -
  assume r: "replace_data ip buf k z len s = Inr s'"
  have "same_files s t" if "do_kfree a (copy_ram d c n s) = Inr t" for a d c n t
    using do_kfree_files [OF that] by simp
  with r show ?thesis by (auto simp: replace_data_def kbind_Inr_iff Let_def split: if_splits)
qed

lemma fs_truncate_files [files]: "fs_truncate ip len s = Inr (r, s') \<Longrightarrow> same_files s s'"
  by (auto simp: fs_truncate_def ramfs_truncate_def kbind_Inr_iff Let_def split: if_splits option.splits dest!: files intro: same_files_trans)

lemma sleep_chan_files [simp]: "same_files s t \<Longrightarrow> same_files s (sleep_chan p ch t)"
  by (auto simp: same_files_def sleep_chan_def upd_proc_def dead_def split: if_splits)

lemma pipe_read_files [files]: "pipe_read p a n s = Inr (r, bs, s') \<Longrightarrow> same_files s s'"
proof -
  assume r: "pipe_read p a n s = Inr (r, bs, s')"
  have "same_files s t" if "wakeup ch (set_pipe b x s) = Inr t" for ch b x t
    using wakeup_files [OF that] by simp
  with r show ?thesis by (auto simp: pipe_read_def Let_def split: if_splits option.splits sum.splits prod.splits)
qed

lemma fs_readi_files [files]: "fs_readi p ip off n s = Inr (r, bs, s') \<Longrightarrow> same_files s s'"
proof -
  assume "fs_readi p ip off n s = Inr (r, bs, s')"
  then obtain q t where "(case i_op (inodes s ip) of None \<Rightarrow> Inr (PRet (- 1), [], s)
            | Some Ramfs_iops \<Rightarrow> (case ramfs_read ip off n s of (r, bs) \<Rightarrow> Inr (PRet r, bs, s))
            | Some Pipe_iops \<Rightarrow> pipe_read p (i_pipe_opt ip s) (unat n) s) = Inr (q, bs, t)"
    "s' = (case q of PRet k \<Rightarrow> if 0 < k then fs_inode_touch ip False True t else t | PSleeps _ \<Rightarrow> t)"
    by (auto simp: fs_readi_def kbind_Inr_iff)
  then show ?thesis
    by (auto split: option.splits inode_operations.splits prod.splits pipe_out.splits dest!: pipe_read_files)
qed

lemma put_ret_files [files]: "put_ret ip r s = Some (Inr (r', s')) \<Longrightarrow> same_files s s'"
  by (auto simp: put_ret_def fbind_Inr_iff dest: fs_iput_files)

lemma follow_symlink_files:
  assumes rec: "\<And>t s r s'. rec t s = Some (Inr (r, s')) \<Longrightarrow> same_files s s'"
    and f: "follow_symlink rec p link depth s = Some (Inr (r, s'))"
  shows "same_files s s'"
proof (cases "MAXSYMLINKS < depth + 1")
  case True
  then show ?thesis using f by (simp add: follow_symlink_def put_ret_files)
next
  case False
  then obtain q bs t where rd: "fs_readi p link 0 (of_nat NNAME - 1) s = Inr (q, bs, t)"
    using f by (auto simp: follow_symlink_def fbind_Inr_iff)
  have "same_files t s'"
  proof (cases q)
    case (PRet k)
    then show ?thesis using f False rd
      by (auto simp: follow_symlink_def fbind_Inr_iff Let_def split_beta split: if_splits option.splits
          dest!: put_ret_files rec fs_iput_files intro: same_files_trans)
  next
    case (PSleeps k)
    then show ?thesis using f False rd by (simp add: follow_symlink_def)
  qed
  with fs_readi_files [OF rd] show ?thesis by (rule same_files_trans)
qed

lemma follow_loop_files:
  assumes rec: "\<And>t s r s'. rec t s = Some (Inr (r, s')) \<Longrightarrow> same_files s s'"
  shows "follow_loop rec p stop nx depth s = Some (Inr (r, s')) \<Longrightarrow> same_files s s'"
proof (induction "MAXSYMLINKS - depth" arbitrary: nx depth s rule: less_induct)
  case less
  show ?case
  proof (cases "i_type (inodes s nx) \<noteq> T_LNK \<or> stop")
    case True
    then show ?thesis using less.prems by (simp add: follow_loop.simps)
  next
    case False
    then obtain q t where f: "follow_symlink rec p nx depth s = Some (Inr (q, t))"
      using less.prems by (subst (asm) follow_loop.simps) (auto split: option.splits sum.splits prod.splits)
    note st = follow_symlink_files [where rec = rec, OF rec f]
    show ?thesis
    proof (cases q)
      case None
      then show ?thesis using less.prems False f st by (simp add: follow_loop.simps)
    next
      case (Some nx')
      then have "follow_loop rec p stop nx' (depth + 1) t = Some (Inr (r, s'))" "depth < MAXSYMLINKS"
        using less.prems False f follow_symlink_depth [of rec p nx depth s nx' t] by (simp_all add: follow_loop.simps [of rec p stop nx])
      then show ?thesis using less.hyps [of "depth + 1" nx' t] same_files_trans [OF st] by simp
    qed
  qed
qed

lemma namex_loop_files:
  assumes rec: "\<And>t s r s'. rec t s = Some (Inr (r, s')) \<Longrightarrow> same_files s s'"
  shows "namex_loop rec p np follow path ip s = Some (Inr (r, nm, s')) \<Longrightarrow> same_files s s'"
proof (induction "length path" arbitrary: path ip s rule: less_induct)
  case less
  show ?case
  proof (cases "skipelem path")
    case None
    then show ?thesis using less.prems by (auto simp: namex_loop.simps fbind_Inr_iff split: if_splits dest: fs_iput_files)
  next
    case (Some q)
    obtain name rest where q: "q = (name, rest)" by force
    have IH: "namex_loop rec p np follow rest i t = Some (Inr (r, nm, s')) \<Longrightarrow> same_files t s'" for i t
      using less.hyps [of rest i t] skipelem_shorter [of path name rest] Some q by simp
    have look: "same_files s s'" if l: "fbind (Some (fs_iput ip (snd (ramfs_lookup ip name s)))) (\<lambda>s2.
        case fst (ramfs_lookup ip name s) of None \<Rightarrow> fret (None, name, s2)
        | Some nx \<Rightarrow> fbind (follow_loop rec p (rest = [] \<and> \<not> follow) nx 0 s2) (\<lambda>(r', s3).
            case r' of None \<Rightarrow> fret (None, name, s3) | Some nx' \<Rightarrow> namex_loop rec p np follow rest nx' s3)) = Some (Inr (r, nm, s'))"
    proof -
      from l obtain s2 where put: "fs_iput ip (snd (ramfs_lookup ip name s)) = Inr s2"
        by (auto simp: fbind_def split: sum.splits)
      note st = fs_iput_files [OF put, simplified]
      show ?thesis
      proof (cases "fst (ramfs_lookup ip name s)")
        case None
        then show ?thesis using l put st by simp
      next
        case (Some nx)
        with l put obtain r' s3 where fl: "follow_loop rec p (rest = [] \<and> \<not> follow) nx 0 s2 = Some (Inr (r', s3))"
          by (auto simp: fbind_Inr_iff)
        then have "same_files s2 s3" by (rule follow_loop_files [where rec = rec, rotated]) (rule rec)
        then show ?thesis using l put Some fl st IH by (cases r') (auto intro: same_files_trans)
      qed
    qed
    from less.prems [unfolded namex_loop.simps [of rec p np follow path ip s] Some q option.case prod.case] show ?thesis
      by (auto simp: fbind_Inr_iff [of "Some (fs_iput ip s)"] fbind_Inr_iff [of "Some (fs_iput ip (fs_idup x s))" for x] Let_def split_beta
          split: if_splits dest!: IH fs_iput_files dest: look intro: same_files_trans)
  qed
qed

lemma namex_files [files]: "namex n p path np follow s = Some (Inr (r, nm, s')) \<Longrightarrow> same_files s s'"
proof (induction n arbitrary: path np follow s r nm s')
  case (Suc n)
  have "same_files s s'" if "namex_loop (\<lambda>t s1. fbind (namex n p t False True s1) (\<lambda>(r, _, s2). fret (r, s2))) p np follow path i (fs_idup i s) = Some (Inr (r, nm, s'))" for i
  proof -
    have "same_files (fs_idup i s) s'"
      by (rule namex_loop_files [OF _ that]) (auto simp: fbind_Inr_iff dest: Suc.IH)
    then show ?thesis by simp
  qed
  with Suc.prems show ?case by (auto simp: namex_body_def split: if_splits option.splits)
qed simp

lemma fs_namei_files [files]: "fs_namei n p path s = Some (Inr (r, s')) \<Longrightarrow> same_files s s'"
  by (auto simp: fs_namei_def fbind_Inr_iff dest: namex_files)

lemma fs_create_files [files]: "fs_create n p path ty s = Some (Inr (r, s')) \<Longrightarrow> same_files s s'"
  by (auto simp: fs_create_def fbind_Inr_iff split: option.splits if_splits dest!: namex_files put_ret_files ramfs_create_files intro: same_files_trans)

end
