(* ===== verification/File_Props.thy ===== *)
theory File_Props
  imports File_Frame Namei_Props
begin

text \<open>
  The invariant of open files. Whatever sequence of opening, closing, duplicating, locking, forking, executing and
  exiting the processes run, the reference count of every open file is the number of descriptors that refer to it, a
  descriptor never refers to a closed file, and an exclusive lock on an inode excludes every other lock on it.
\<close>

section \<open>The invariant\<close>

definition fds :: "'z sched_scheme \<Rightarrow> nat \<Rightarrow> (nat \<times> nat) set" where
  "fds s i = {(q, fd). q < NPROC \<and> fd < NOFILE \<and> ofile (ptab s q) fd = Some i}"

text \<open>
  In the middle of an operation the count of a file \<open>i\<close> differs by \<open>d i\<close> from the number of its descriptors, and the
  files in \<open>X\<close> are allocated but not yet set up.
\<close>

definition table_inv :: "'z vfs_scheme \<Rightarrow> (nat \<Rightarrow> int) \<Rightarrow> nat set \<Rightarrow> bool" where
  "table_inv s d X \<longleftrightarrow> (\<forall>i < NFILE. f_ref (ftable s i) = int (card (fds s i)) + d i)
     \<and> (\<forall>q < NPROC. \<forall>fd < NOFILE. \<forall>i. ofile (ptab s q) fd = Some i \<longrightarrow> i < NFILE)
     \<and> (\<forall>i < NFILE. i \<notin> X \<longrightarrow> 0 < f_ref (ftable s i) \<longrightarrow> f_ip (ftable s i) \<noteq> None \<and> f_type (ftable s i) \<noteq> FD_NONE)
     \<and> (\<forall>i < NFILE. \<forall>j < NFILE. i \<noteq> j \<longrightarrow> 0 < f_ref (ftable s i) \<longrightarrow> 0 < f_ref (ftable s j) \<longrightarrow> f_ip (ftable s i) \<noteq> None
          \<longrightarrow> f_ip (ftable s j) = f_ip (ftable s i) \<longrightarrow> f_flock (ftable s i) = LOCK_EX \<longrightarrow> f_flock (ftable s j) = 0)
     \<and> (\<forall>i \<in> X. f_flock (ftable s i) = 0)"

text \<open>A slot of the process table that is unused or a zombie has no descriptors, and the process \<open>p\<close> that acts is alive.\<close>

definition slots_ok :: "nat \<Rightarrow> 'z sched_scheme \<Rightarrow> bool" where
  "slots_ok p s \<longleftrightarrow> \<not> dead (ptab s p) \<and> (\<forall>q fd. dead (ptab s q) \<longrightarrow> fd < NOFILE \<longrightarrow> ofile (ptab s q) fd = None)"

definition file_inv :: "nat \<Rightarrow> 'z vfs_scheme \<Rightarrow> (nat \<Rightarrow> int) \<Rightarrow> nat set \<Rightarrow> bool" where
  "file_inv p s d X \<longleftrightarrow> table_inv s d X \<and> slots_ok p s"

abbreviation files_ok :: "nat \<Rightarrow> 'z vfs_scheme \<Rightarrow> bool" where
  "files_ok p s \<equiv> file_inv p s (\<lambda>_. 0) {}"

lemma finite_fds [simp]: "finite (fds s i)"
proof -
  have "fds s i \<subseteq> {..<NPROC} \<times> {..<NOFILE}" by (auto simp: fds_def)
  then show ?thesis by (rule finite_subset) simp
qed

lemma table_inv_same:
  assumes "table_inv s d X" and "same_files s s'"
  shows "table_inv s' d X"
proof -
  have "fds s' i = fds s i" for i using assms(2) by (simp add: fds_def same_files_def)
  then show ?thesis using assms by (simp add: table_inv_def same_files_def)
qed

lemma file_inv_same:
  assumes "file_inv p s d X" and "same_files s s'"
  shows "file_inv p s' d X"
proof -
  have "slots_ok p s'" using assms by (auto simp: file_inv_def slots_ok_def same_files_def)
  with table_inv_same [OF _ assms(2)] assms(1) show ?thesis by (simp add: file_inv_def)
qed

lemma file_inv_cong: "file_inv p s d X \<Longrightarrow> (\<And>i. i < NFILE \<Longrightarrow> d' i = d i) \<Longrightarrow> file_inv p s d' X"
  by (simp add: file_inv_def table_inv_def)

lemma file_inv_ptab: "file_inv p s d X \<Longrightarrow> ptab s' = ptab s \<Longrightarrow> table_inv s' d' X' \<Longrightarrow> file_inv p s' d' X'"
  by (simp add: file_inv_def slots_ok_def)

lemma inv_tableD: "file_inv p s d X \<Longrightarrow> table_inv s d X"
  by (simp add: file_inv_def)

section \<open>The operations\<close>

lemma card_fds_upd:
  assumes "p < NPROC" and "fd < NOFILE" and "\<And>q. ofile (ptab s' q) = (if q = p then (ofile (ptab s p))(fd := new) else ofile (ptab s q))"
  shows "int (card (fds s' i)) = int (card (fds s i)) - (if ofile (ptab s p) fd = Some i then 1 else 0) + (if new = Some i then 1 else 0)"
proof -
  have rm: "fds s i - {(p, fd)} = fds s' i - {(p, fd)}" using assms(3) by (auto simp: fds_def split: if_splits)
  have "(p, fd) \<in> fds s i \<longleftrightarrow> ofile (ptab s p) fd = Some i" "(p, fd) \<in> fds s' i \<longleftrightarrow> new = Some i"
    using assms by (auto simp: fds_def)
  moreover have "int (card A) = int (card (A - {(p, fd)})) + (if (p, fd) \<in> A then 1 else 0)" if "finite A" for A :: "(nat \<times> nat) set"
    using that card.remove [of A "(p, fd)"] by auto
  from this [OF finite_fds [of s i]] this [OF finite_fds [of s' i]] have
    "int (card (fds s i)) = int (card (fds s i - {(p, fd)})) + (if (p, fd) \<in> fds s i then 1 else 0)"
    "int (card (fds s' i)) = int (card (fds s' i - {(p, fd)})) + (if (p, fd) \<in> fds s' i then 1 else 0)" .
  ultimately show ?thesis using rm by simp
qed

lemma fd_change:
  assumes "file_inv p s d X" and "p < NPROC" and "fd < NOFILE" and "case new of None \<Rightarrow> True | Some f \<Rightarrow> f < NFILE"
    and "\<And>q. ofile (ptab s' q) = (if q = p then (ofile (ptab s p))(fd := new) else ofile (ptab s q))" and "ftable s' = ftable s"
    and "\<And>q. state (ptab s' q) = state (ptab s q)"
  shows "file_inv p s' (\<lambda>i. d i + (if ofile (ptab s p) fd = Some i then 1 else 0) - (if new = Some i then 1 else 0)) X"
  using assms(1,4,6) card_fds_upd [OF assms(2,3,5)]
  by (auto simp: file_inv_def table_inv_def slots_ok_def dead_def assms(5,7) split: if_splits)

lemma set_fd_inv:
  assumes "file_inv p s d X" and "p < NPROC" and "fd < NOFILE" and "case new of None \<Rightarrow> True | Some f \<Rightarrow> f < NFILE"
  shows "file_inv p (set_fd p fd new fl s) (\<lambda>i. d i + (if ofile (ptab s p) fd = Some i then 1 else 0) - (if new = Some i then 1 else 0)) X"
  by (rule fd_change [OF assms]) (simp_all add: set_fd_def upd_proc_def)

lemma fds_ftable [simp]: "fds (upd_file f g s) i = fds s i"
  by (simp add: fds_def upd_file_def)

lemma upd_file_simps [simp]:
  "ftable (upd_file f g s) i = (if i = f then g (ftable s f) else ftable s i)" "ptab (upd_file f g s) = ptab s"
  "inodes (upd_file f g s) = inodes s"
  by (simp_all add: upd_file_def)

lemma filealloc_inv:
  assumes "file_inv p s d X" and "filealloc s = (Some f, s')"
  shows "f < NFILE" and "file_inv p s' (d(f := d f + 1)) (insert f X)" and "ptab s' = ptab s" and "f_ref (ftable s f) = 0"
    and "\<And>i. i \<noteq> f \<Longrightarrow> ftable s' i = ftable s i" and "f_ref (ftable s' f) = 1"
proof -
  from assms(2) have f: "f < NFILE" "f_ref (ftable s f) = 0"
    and s': "s' = upd_file f (\<lambda>_. \<lparr>f_type = FD_NONE, f_ref = 1, f_readable = False, f_writable = False, f_flags = 0, f_flock = 0, f_ip = None, f_off = 0\<rparr>) s"
    by (auto simp: filealloc_def find_upt_Some split: option.splits)
  show "f < NFILE" "f_ref (ftable s f) = 0" by (rule f)+
  show "file_inv p s' (d(f := d f + 1)) (insert f X)" 
    by (rule file_inv_ptab [OF assms(1)]) (use inv_tableD [OF assms(1)] f in \<open>auto simp: table_inv_def s'\<close>)
qed (use assms(2) in \<open>auto simp: filealloc_def split: option.splits\<close>)

text \<open>Counts change by \<open>e\<close>, and nothing else of the files that stay open.\<close>

lemma count_change:
  assumes inv: "file_inv p s d X" and of: "\<And>q. ofile (ptab s' q) = ofile (ptab s q)"
    and ref: "\<And>i. f_ref (ftable s' i) = f_ref (ftable s i) + e i"
    and keep: "\<And>i. 0 < f_ref (ftable s' i) \<Longrightarrow> 0 < f_ref (ftable s i) \<and> f_ip (ftable s' i) = f_ip (ftable s i)
      \<and> f_type (ftable s' i) = f_type (ftable s i) \<and> f_flock (ftable s' i) = f_flock (ftable s i)"
    and lock: "\<And>i. i \<in> X \<Longrightarrow> f_flock (ftable s' i) = 0"
    and unused: "\<And>q. dead (ptab s' q) \<Longrightarrow> dead (ptab s q)"
  shows "file_inv p s' (\<lambda>i. d i + e i) X"
  unfolding file_inv_def table_inv_def
proof (intro conjI allI impI ballI)
  note inv = inv [unfolded file_inv_def]
  show "slots_ok p s'" using inv unused of by (auto simp: slots_ok_def)
  have "fds s' i = fds s i" for i using of by (simp add: fds_def)
  then show "f_ref (ftable s' i) = int (card (fds s' i)) + (d i + e i)" if "i < NFILE" for i
    using inv that ref [of i] by (simp add: table_inv_def)
  show "i < NFILE" if "q < NPROC" "fd < NOFILE" "ofile (ptab s' q) fd = Some i" for q fd i
    using inv that of by (auto simp: table_inv_def)
  show "f_ip (ftable s' i) \<noteq> None" "f_type (ftable s' i) \<noteq> FD_NONE" if "i < NFILE" "i \<notin> X" "0 < f_ref (ftable s' i)" for i
    using inv that keep [OF that(3)] by (auto simp: table_inv_def)
  show "f_flock (ftable s' j) = 0" if "i < NFILE" "j < NFILE" "i \<noteq> j" "0 < f_ref (ftable s' i)" "0 < f_ref (ftable s' j)"
    "f_ip (ftable s' i) \<noteq> None" "f_ip (ftable s' j) = f_ip (ftable s' i)" "f_flock (ftable s' i) = LOCK_EX" for i j
    using inv that keep [OF that(4)] keep [OF that(5)] unfolding table_inv_def by metis
qed (rule lock)

lemma inv_flock: "file_inv p s d X \<Longrightarrow> i \<in> X \<Longrightarrow> f_flock (ftable s i) = 0"
  by (simp add: file_inv_def table_inv_def)

lemma filedup_inv:
  assumes inv: "file_inv p s d X" and "filedup f s = Inr s'"
  shows "file_inv p s' (\<lambda>i. d i + (if i = f then 1 else 0)) X" and "ptab s' = ptab s"
proof -
  from assms(2) have s': "0 < f_ref (ftable s f)" "s' = upd_file f (\<lambda>x. x\<lparr>f_ref := f_ref x + 1\<rparr>) s"
    by (auto simp: filedup_def split: if_splits)
  show "file_inv p s' (\<lambda>i. d i + (if i = f then 1 else 0)) X"
    by (rule count_change [OF inv]) (use s' inv_flock [OF inv] in \<open>auto split: if_splits\<close>)
qed (use assms(2) in \<open>auto simp: filedup_def split: if_splits\<close>)

lemma setup_inv:
  assumes inv: "file_inv p s d X" and f: "f \<in> X"
    and g: "\<And>x. f_ref (g x) = f_ref x" "\<And>x. f_flock (g x) = f_flock x" "\<And>x. f_ip (g x) \<noteq> None \<and> f_type (g x) \<noteq> FD_NONE"
  shows "file_inv p (upd_file f g s) d (X - {f})"
proof (rule file_inv_ptab [OF inv], simp, unfold table_inv_def, intro conjI allI impI ballI)
  note tab = inv_tableD [OF inv]
  let ?s' = "upd_file f g s"
  have fl: "f_flock (ftable s f) = 0" using inv_flock [OF inv f] .
  show "f_ref (ftable ?s' i) = int (card (fds ?s' i)) + d i" if "i < NFILE" for i
    using tab that g(1) by (simp add: table_inv_def)
  show "i < NFILE" if "q < NPROC" "fd < NOFILE" "ofile (ptab ?s' q) fd = Some i" for q fd i
    using tab that by (auto simp: table_inv_def)
  show "f_ip (ftable ?s' i) \<noteq> None" "f_type (ftable ?s' i) \<noteq> FD_NONE" if "i < NFILE" "i \<notin> X - {f}" "0 < f_ref (ftable ?s' i)" for i
    using tab that g(3) by (auto simp: table_inv_def split: if_splits)
  show "f_flock (ftable ?s' j) = 0" if "i < NFILE" "j < NFILE" "i \<noteq> j" "0 < f_ref (ftable ?s' i)" "0 < f_ref (ftable ?s' j)"
    "f_ip (ftable ?s' i) \<noteq> None" "f_ip (ftable ?s' j) = f_ip (ftable ?s' i)" "f_flock (ftable ?s' i) = LOCK_EX" for i j
  proof (cases "j = f \<or> i = f")
    case True
    then show ?thesis using that fl g(2) by (auto simp: LOCK_EX_def)
  next
    case False
    then show ?thesis using tab that unfolding table_inv_def by simp
  qed
  show "f_flock (ftable ?s' i) = 0" if "i \<in> X - {f}" for i using inv_flock [OF inv, of i] that by simp
qed

text \<open>Only the file \<open>f\<close> changes, and not its count.\<close>

definition but_file :: "nat \<Rightarrow> 'z vfs_scheme \<Rightarrow> 'z vfs_scheme \<Rightarrow> bool" where
  "but_file f s s' \<longleftrightarrow> (\<forall>q. ofile (ptab s' q) = ofile (ptab s q) \<and> (dead (ptab s' q) \<longrightarrow> dead (ptab s q))) \<and> f_ref (ftable s' f) = f_ref (ftable s f) \<and>
     (\<forall>i. i \<noteq> f \<longrightarrow> f_ref (ftable s' i) = f_ref (ftable s i) \<and> f_ip (ftable s' i) = f_ip (ftable s i)
        \<and> f_type (ftable s' i) = f_type (ftable s i) \<and> f_flock (ftable s' i) = f_flock (ftable s i))"

lemma but_file_same: "same_files s s' \<Longrightarrow> but_file f s s'"
  by (simp add: but_file_def same_files_def)

lemma but_file_trans: "but_file f s t \<Longrightarrow> but_file f t u \<Longrightarrow> but_file f s u"
  by (simp add: but_file_def)

lemma but_file_upd: "(\<And>x. f_ref (g x) = f_ref x) \<Longrightarrow> but_file f s t \<Longrightarrow> but_file f s (upd_file f g t)"
  by (simp add: but_file_def)

lemma pipe_release_files [files]: "pipe_release_file f s = Inr s' \<Longrightarrow> same_files s s'"
proof -
  assume r: "pipe_release_file f s = Inr s'"
  have w: "wakeup ch (set_pipe a x t) = Inr u \<Longrightarrow> same_files t u" for ch a x t u
    by (drule wakeup_files) simp
  have "same_files t u" if "pipe_release a rd wr t = Inr u" for a rd wr t u
    using that by (auto simp: pipe_release_def Let_def split: sum.splits if_splits dest!: w intro: same_files_trans)
  with r show ?thesis by (auto simp: pipe_release_file_def split: option.splits if_splits)
qed

lemma fileclose_but:
  assumes c: "fileclose f s = Inr s'"
  shows "0 < f_ref (ftable s f) \<and> (if f_ref (ftable s f) = 1
    then but_file f (upd_file f (\<lambda>x. x\<lparr>f_ref := f_ref x - 1\<rparr>) s) s' \<and> f_flock (ftable s' f) = 0
    else s' = upd_file f (\<lambda>x. x\<lparr>f_ref := f_ref x - 1\<rparr>) s)"
proof -
  let ?s1 = "upd_file f (\<lambda>x. x\<lparr>f_ref := f_ref x - 1\<rparr>) s"
  have pos: "0 < f_ref (ftable s f)" using c by (auto simp: fileclose_def split: if_splits)
  show ?thesis
  proof (cases "f_ref (ftable s f) = 1")
    case True
    have w: "wakeup ch (upd_file f (\<lambda>x. x\<lparr>f_flock := 0\<rparr>) ?s1) = Inr t \<Longrightarrow> but_file f ?s1 t" for ch t
      by (drule wakeup_files, drule but_file_same [where f = f]) (erule but_file_trans [rotated], rule but_file_upd, simp, rule but_file_same, simp)
    obtain s2 s3 s4 where s2: "(case f_ip (ftable ?s1 f) of
          Some ip \<Rightarrow> if f_flock (ftable ?s1 f) \<noteq> 0 then wakeup (Some (ChInode ip)) (upd_file f (\<lambda>x. x\<lparr>f_flock := 0\<rparr>) ?s1) else Inr ?s1
        | None \<Rightarrow> Inr ?s1) = Inr s2" and s3: "pipe_release_file f s2 = Inr s3"
      and s4: "(case f_ip (ftable s3 f) of Some ip \<Rightarrow> if f_type (ftable s3 f) \<noteq> FD_NONE then fs_iput ip s3 else Inr s3 | None \<Rightarrow> Inr s3) = Inr s4"
      and s': "s' = upd_file f (\<lambda>x. x\<lparr>f_type := FD_NONE, f_ip := None, f_flock := 0\<rparr>) s4"
      using c True by (auto simp: fileclose_def Let_def kbind_Inr_iff)
    have "but_file f ?s1 s2" using s2 w by (auto split: option.splits if_splits intro: but_file_same)
    moreover have "same_files s2 s3" by (rule pipe_release_files [OF s3])
    moreover have "same_files s3 s4" using s4 by (auto split: option.splits if_splits dest: fs_iput_files)
    ultimately have "but_file f ?s1 s4" by (blast intro: but_file_same but_file_trans)
    then have "but_file f ?s1 s'" unfolding s' by (rule but_file_upd [rotated]) simp
    then show ?thesis using True s' by simp
  next
    case False
    then show ?thesis using c pos by (auto simp: fileclose_def Let_def split: if_splits)
  qed
qed

lemma fileclose_inv:
  assumes inv: "file_inv p s d X" and c: "fileclose f s = Inr s'"
  shows "file_inv p s' (\<lambda>i. d i + (if i = f then - 1 else 0)) X" and "\<And>q. ofile (ptab s' q) = ofile (ptab s q)"
proof -
  note b = fileclose_but [OF c]
  show of: "ofile (ptab s' q) = ofile (ptab s q)" for q using b by (auto simp: but_file_def split: if_splits)
  show "file_inv p s' (\<lambda>i. d i + (if i = f then - 1 else 0)) X"
  proof (rule count_change [OF inv of])
    show "dead (ptab s q)" if "dead (ptab s' q)" for q using b that by (auto simp: but_file_def split: if_splits)
    fix i
    show "f_ref (ftable s' i) = f_ref (ftable s i) + (if i = f then - 1 else 0)"
      using b by (auto simp: but_file_def split: if_splits)
    show "0 < f_ref (ftable s i) \<and> f_ip (ftable s' i) = f_ip (ftable s i)
      \<and> f_type (ftable s' i) = f_type (ftable s i) \<and> f_flock (ftable s' i) = f_flock (ftable s i)" if "0 < f_ref (ftable s' i)"
      using b that by (cases "i = f") (auto simp: but_file_def split: if_splits)
    show "f_flock (ftable s' i) = 0" if "i \<in> X"
      using b inv_flock [OF inv that] by (cases "i = f") (auto simp: but_file_def split: if_splits)
  qed
qed

section \<open>Descriptors\<close>

lemma fdalloc_ge_Some:
  "fdalloc_ge p f m s = (Some fd, s') \<Longrightarrow> fd < NOFILE \<and> ofile (ptab s p) fd = None \<and> s' = set_fd p fd (Some f) 0 s"
  by (auto simp: fdalloc_ge_def find_upt_Some split: if_splits option.splits)

lemma fdalloc_ge_None: "fdalloc_ge p f m s = (None, s') \<Longrightarrow> s' = s"
  by (auto simp: fdalloc_ge_def split: if_splits option.splits)

lemma fdalloc_inv:
  assumes "file_inv p s d X" and "p < NPROC" and "f < NFILE" and "fdalloc_ge p f m s = (r, s')"
  shows "file_inv p s' (\<lambda>i. d i - (if r \<noteq> None \<and> f = i then 1 else 0)) X"
proof (cases r)
  case None
  then show ?thesis using assms fdalloc_ge_None [of p f m s s'] by simp
next
  case (Some fd)
  note a = fdalloc_ge_Some [OF assms(4) [unfolded Some]]
  with set_fd_inv [OF assms(1,2), of fd "Some f" 0] assms(3) show ?thesis by (auto simp: Some elim: file_inv_cong)
qed

lemma inv_range: "file_inv p s d X \<Longrightarrow> q < NPROC \<Longrightarrow> fd < NOFILE \<Longrightarrow> ofile (ptab s q) fd = Some i \<Longrightarrow> i < NFILE"
  unfolding file_inv_def table_inv_def by blast

lemma fdget_range: "file_inv p s d X \<Longrightarrow> p < NPROC \<Longrightarrow> fdget p fd s = Some f \<Longrightarrow> f < NFILE"
  using inv_range [of p s d X p "nat fd" f] by (auto simp: fdget_def split: if_splits)

lemma fdget_Some: "fdget p fd s = Some f \<longleftrightarrow> 0 \<le> fd \<and> nat fd < NOFILE \<and> ofile (ptab s p) (nat fd) = Some f"
  by (auto simp: fdget_def)

text \<open>A descriptor is cleared after its file was closed, or before.\<close>

lemma clear_fd_inv:
  assumes "file_inv p s d X" and "p < NPROC" and "fd < NOFILE" and "ofile (ptab s p) fd = Some f"
    and "\<And>i. d' i = d i + (if i = f then 1 else 0)"
  shows "file_inv p (set_fd p fd None fl s) d' X"
  using set_fd_inv [OF assms(1-3), of None fl] assms(4,5) by (auto elim!: file_inv_cong)

lemma set_fd_same: "ofile (ptab s p) fd = r \<Longrightarrow> same_files s (set_fd p fd r fl s)"
  by (auto simp: same_files_def set_fd_def upd_proc_def dead_def fun_eq_iff)

lemma ofile_set_fd: "ofile (ptab (set_fd p fd r fl s) q) = (if q = p then (ofile (ptab s p))(fd := r) else ofile (ptab s q))"
  by (simp add: set_fd_def upd_proc_def)

lemma close_fd_inv:
  assumes inv: "files_ok p s" and p: "p < NPROC" "fd < NOFILE" and fd: "ofile (ptab s p) fd = Some f" and c: "fileclose f s = Inr s'"
  shows "files_ok p (set_fd p fd None fl s')"
  using clear_fd_inv [OF fileclose_inv(1) [OF inv c] p, of f "\<lambda>_. 0" fl] fd fileclose_inv(2) [OF inv c] by simp

lemma fd_closeall_inv: "fd_closeall p s = Inr s' \<Longrightarrow> p < NPROC \<Longrightarrow> files_ok p s \<Longrightarrow> files_ok p s'"
  unfolding fd_closeall_def
  by (rule kfold_inv [where P = "files_ok p"])
    (auto simp: kbind_Inr_iff split: option.splits dest: close_fd_inv set_fd_same file_inv_same)

lemma fd_close_on_exec_inv: "fd_close_on_exec p s = Inr s' \<Longrightarrow> p < NPROC \<Longrightarrow> files_ok p s \<Longrightarrow> files_ok p s'"
  unfolding fd_close_on_exec_def
  by (rule kfold_inv [where P = "files_ok p"]) (auto simp: kbind_Inr_iff split: option.splits if_splits dest: close_fd_inv)

lemma dup_fd_inv:
  assumes inv: "files_ok p s" and p: "p < NPROC" "fd < NOFILE" and f: "f < NFILE" and free: "ofile (ptab s p) fd = None" and c: "filedup f s = Inr s'"
  shows "files_ok p (set_fd p fd (Some f) fl s')"
proof -
  have "ofile (ptab s' p) fd = None" using free filedup_inv(2) [OF inv c] by simp
  with set_fd_inv [OF filedup_inv(1) [OF inv c] p, of "Some f" fl] f show ?thesis by (auto elim!: file_inv_cong)
qed

lemma fd_copy_inv:
  assumes inv: "files_ok dst s" and p: "src < NPROC" "dst < NPROC" "src \<noteq> dst" and free: "\<And>fd. fd < NOFILE \<Longrightarrow> ofile (ptab s dst) fd = None"
    and c: "fd_copy dst src s = Inr s'"
  shows "files_ok dst s'"
proof -
  let ?body = "\<lambda>i s. case ofile (ptab s src) i of
                    Some f \<Rightarrow> kbind (filedup f s) (\<lambda>s1. Inr (set_fd dst i (Some f) (fdflags (ptab s src) i) s1))
                  | None \<Rightarrow> Inr (set_fd dst i None 0 s)"
  have "kfold ?body [a..<NOFILE] s = Inr s' \<Longrightarrow> a \<le> NOFILE \<Longrightarrow> files_ok dst s \<Longrightarrow> (\<And>fd. a \<le> fd \<Longrightarrow> fd < NOFILE \<Longrightarrow> ofile (ptab s dst) fd = None) \<Longrightarrow> files_ok dst s'" for a s
  proof (induction "NOFILE - a" arbitrary: a s)
    case (Suc n)
    then have a: "a < NOFILE" by simp
    from Suc.prems(1) obtain t where t: "?body a s = Inr t" "kfold ?body [Suc a..<NOFILE] t = Inr s'"
      using a by (auto simp: upt_conv_Cons split: sum.splits)
    have "files_ok dst t \<and> (\<forall>fd. Suc a \<le> fd \<longrightarrow> fd < NOFILE \<longrightarrow> ofile (ptab t dst) fd = None)"
    proof (cases "ofile (ptab s src) a")
      case None
      then show ?thesis using t(1) Suc.prems(3,4) a Suc.prems(4) [of a] file_inv_same [OF Suc.prems(3) set_fd_same, of dst a None 0] by (auto simp: ofile_set_fd)
    next
      case (Some f)
      then obtain u where u: "filedup f s = Inr u" "t = set_fd dst a (Some f) (fdflags (ptab s src) a) u" using t(1) by (auto simp: kbind_Inr_iff)
      show ?thesis using dup_fd_inv [OF Suc.prems(3) p(2) a inv_range [OF Suc.prems(3) p(1) a Some] Suc.prems(4) [OF order_refl a] u(1)]
          filedup_inv(2) [OF Suc.prems(3) u(1)] Suc.prems(4) by (auto simp: u(2) ofile_set_fd)
    qed
    then show ?case using Suc.hyps a t(2) by (intro Suc.hyps(1) [of "Suc a" t]) auto
  qed simp
  from this [of 0 s] show ?thesis using c inv free by (auto simp: fd_copy_def)
qed

section \<open>System calls\<close>

text \<open>The post-condition \<open>Q\<close> of a call that returns, and the rules that follow the structure of the call.\<close>

definition fpost :: "'a fres \<Rightarrow> ('a \<Rightarrow> bool) \<Rightarrow> bool" where
  "fpost m Q \<longleftrightarrow> (\<forall>y. m = Some (Inr y) \<longrightarrow> Q y)"

lemma fpostD: "fpost m Q \<Longrightarrow> m = Some (Inr y) \<Longrightarrow> Q y"
  by (simp add: fpost_def)

lemma fpost_bind: "(\<And>x. m = Some (Inr x) \<Longrightarrow> fpost (f x) Q) \<Longrightarrow> fpost (fbind m f) Q"
  by (auto simp: fpost_def fbind_Inr_iff)

lemma fpost_ret [simp]: "fpost (fret x) Q = Q x"
  by (simp add: fpost_def)

lemma fpost_Some [simp]: "fpost (Some m) Q = (\<forall>y. m = Inr y \<longrightarrow> Q y)"
  by (simp add: fpost_def)

lemma fpost_with [simp]:
  "fpost (with_int tf k f) Q = (\<forall>x. argint tf k = Inr x \<longrightarrow> fpost (f x) Q)"
  "fpost (with_addr tf k g) Q = (\<forall>x. argaddr tf k = Inr x \<longrightarrow> fpost (g x) Q)"
  by (auto simp: fpost_def with_int_def with_addr_def fbind_Inr_iff)

abbreviation keeps_files :: "nat \<Rightarrow> ('a \<times> 'z vfs_scheme) fres \<Rightarrow> bool" where
  "keeps_files p m \<equiv> fpost m (\<lambda>(r, s'). files_ok p s')"

lemma fpost_put_ret: "file_inv p s d X \<Longrightarrow> fpost (put_ret ip r s) (\<lambda>(r, s'). file_inv p s' d X)"
  by (auto simp: fpost_def dest: put_ret_files file_inv_same)

lemma sys_close_inv:
  assumes inv: "files_ok p s" and p: "p < NPROC"
  shows "keeps_files p (sys_close p tf s)"
proof -
  have "files_ok p u" if fd: "fdget p fd s = Some f" and cl: "fileclose f (set_fd p (nat fd) None 0 s) = Inr u" for fd f u
  proof -
    have "file_inv p (set_fd p (nat fd) None 0 s) (\<lambda>i. if i = f then 1 else 0) {}"
      by (rule clear_fd_inv [OF inv p]) (use fd in \<open>auto simp: fdget_Some\<close>)
    from fileclose_inv(1) [OF this cl] show ?thesis by (rule file_inv_cong) simp
  qed
  with inv show ?thesis by (auto simp: sys_close_def split: option.splits intro!: fpost_bind)
qed

lemma dup_alloc_inv:
  assumes inv: "files_ok p s" and p: "p < NPROC" and f: "f < NFILE" and a: "fdalloc_ge p f m s = (Some fd, s1)" and d: "filedup f s1 = Inr s2"
  shows "files_ok p s2" and "ofile (ptab s2 p) fd = Some f"
proof -
  show "files_ok p s2" using filedup_inv(1) [OF fdalloc_inv [OF inv p f a] d] by (rule file_inv_cong) auto
  show "ofile (ptab s2 p) fd = Some f"
    using filedup_inv(2) [OF fdalloc_inv [OF inv p f a] d] fdalloc_ge_Some [OF a] by (simp add: ofile_set_fd)
qed

lemma sys_dup_inv:
  assumes inv: "files_ok p s" and p: "p < NPROC"
  shows "keeps_files p (sys_dup p tf s)"
  using inv by (auto simp: sys_dup_def fdalloc_def split: option.splits prod.splits intro!: fpost_bind
      dest: dup_alloc_inv(1) [OF inv p fdget_range [OF inv p]] fdalloc_ge_None)

lemma sys_fcntl_inv:
  assumes inv: "files_ok p s" and p: "p < NPROC"
  shows "keeps_files p (sys_fcntl p tf s)"
proof -
  have dup: "files_ok p s2" "files_ok p (set_fd p nfd (Some f) FD_CLOEXEC s2)" if "fdget p fd s = Some f" "fdalloc_ge p f m s = (Some nfd, s1)" "filedup f s1 = Inr s2" for fd f m nfd s1 s2
    using dup_alloc_inv [OF inv p fdget_range [OF inv p that(1)] that(2,3)] by (auto intro: file_inv_same set_fd_same)
  have flag: "files_ok p (set_fd p (nat fd) (Some f) fl s)" if "fdget p fd s = Some f" for fd f fl
    using inv that by (auto simp: fdget_Some intro: file_inv_same set_fd_same)
  have fl: "files_ok p (upd_file f (\<lambda>x. x\<lparr>f_flags := g x\<rparr>) s)" for f g
    by (rule file_inv_same [OF inv]) (simp add: same_files_def)
  show ?thesis unfolding sys_fcntl_def
    by (auto simp: inv dup flag fl split: option.splits prod.splits intro!: fpost_bind dest: fdalloc_ge_None)
qed

lemma sys_dup2_inv:
  assumes inv: "files_ok p s" and p: "p < NPROC"
  shows "keeps_files p (sys_dup2 p tf s)"
proof -
  have dup: "files_ok p (set_fd p (nat nfd) (Some f) 0 u)" if fd: "fdget p fd s = Some f" "\<not> nfd < 0" "\<not> int NOFILE \<le> nfd"
    and t: "files_ok p t" "ofile (ptab t p) (nat nfd) = None" "filedup f t = Inr u" for fd nfd f t u
    by (rule dup_fd_inv [OF t(1) p _ fdget_range [OF inv p fd(1)] t(2,3)]) (use fd in auto)
  have clear: "files_ok p (set_fd p (nat nfd) (Some f) 0 u)" if fd: "fdget p fd s = Some f" "\<not> nfd < 0" "\<not> int NOFILE \<le> nfd"
    and g: "ofile (ptab s p) (nat nfd) = Some g" "fileclose g s = Inr t" "filedup f (set_fd p (nat nfd) None 0 t) = Inr u" for fd nfd f g t u
    by (rule dup [OF fd _ _ g(3)]) (use close_fd_inv [OF inv p _ g(1,2), of 0] fd in \<open>auto simp: ofile_set_fd\<close>)
  show ?thesis using inv unfolding sys_dup2_def
    by (auto simp: fbind_Inr_iff split: option.splits intro!: fpost_bind intro: dup clear)
qed

lemma set_lock_inv:
  assumes inv: "file_inv p s d X" and f: "f \<notin> X" and ip: "f_ip (ftable s f) = Some ip"
    and v: "v \<noteq> 0 \<Longrightarrow> v = LOCK_SH \<or> v = LOCK_EX" "v \<noteq> 0 \<Longrightarrow> \<not> flock_conflict f ip v s"
  shows "file_inv p (upd_file f (\<lambda>x. x\<lparr>f_flock := v\<rparr>) s) d X"
proof (rule file_inv_ptab [OF inv], simp, unfold table_inv_def, intro conjI allI impI ballI)
  note tab = inv_tableD [OF inv]
  let ?s' = "upd_file f (\<lambda>x. x\<lparr>f_flock := v\<rparr>) s"
  show "f_ref (ftable ?s' i) = int (card (fds ?s' i)) + d i" if "i < NFILE" for i
    using tab that by (simp add: table_inv_def)
  show "i < NFILE" if "q < NPROC" "fd < NOFILE" "ofile (ptab ?s' q) fd = Some i" for q fd i
    using inv_range [OF inv that(1,2)] that(3) by simp
  show "f_ip (ftable ?s' i) \<noteq> None" "f_type (ftable ?s' i) \<noteq> FD_NONE" if "i < NFILE" "i \<notin> X" "0 < f_ref (ftable ?s' i)" for i
    using tab that unfolding table_inv_def by (simp_all split: if_splits)
  show "f_flock (ftable ?s' j) = 0" if h: "i < NFILE" "j < NFILE" "i \<noteq> j" "0 < f_ref (ftable ?s' i)" "0 < f_ref (ftable ?s' j)"
    "f_ip (ftable ?s' i) \<noteq> None" "f_ip (ftable ?s' j) = f_ip (ftable ?s' i)" "f_flock (ftable ?s' i) = LOCK_EX" for i j
  proof -
    consider "i = f" | "j = f" | "i \<noteq> f" "j \<noteq> f" by blast
    then show ?thesis
    proof cases
      case 3
      then show ?thesis using tab h unfolding table_inv_def by simp
    next
      case 1
      then show ?thesis using h v ip by (auto simp: flock_conflict_def LOCK_EX_def find_None_iff)
    next
      case 2
      have "v = 0"
      proof (rule ccontr)
        assume "v \<noteq> 0"
        from v(2) [OF this] have "\<not> (0 < f_ref (ftable s i) \<and> i \<noteq> f \<and> f_ip (ftable s i) = Some ip \<and> f_flock (ftable s i) = LOCK_EX)"
          using h(1) by (auto simp: flock_conflict_def find_None_iff LOCK_EX_def)
        then show False using h ip 2 by auto
      qed
      then show ?thesis using 2 by simp
    qed
  qed
  show "f_flock (ftable ?s' i) = 0" if "i \<in> X" for i using inv_flock [OF inv that] that f by auto
qed

lemma sleep_files [files]: "sleep p ch s = Inr s' \<Longrightarrow> same_files s s'"
  by (auto simp: sleep_def same_files_def upd_proc_def dead_def split: option.splits if_splits)

lemma sys_flock_inv:
  assumes inv: "files_ok p s"
  shows "keeps_files p (sys_flock p tf s)"
proof -
  have "files_ok p s'" if "fileflock p f op s = Inr (r, s')" for f op r s'
    using that inv by (auto simp: fileflock_def Let_def kbind_Inr_iff split: option.splits if_splits
        intro: set_lock_inv file_inv_same dest!: wakeup_files sleep_files)
  then show ?thesis using inv by (auto simp: sys_flock_def split: option.splits)
qed

lemma pipe_inode_alloc_files [files]: "pipe_inode_alloc a s = (r, s') \<Longrightarrow> same_files s s'"
  by (auto simp: pipe_inode_alloc_def Let_def split: option.splits)

lemma same_files_inv: "same_files s s' \<Longrightarrow> file_inv p s d X \<Longrightarrow> file_inv p s' d X"
  by (rule file_inv_same)

text \<open>A file closed before it was set up.\<close>

lemma close_new_inv:
  assumes inv: "file_inv p s d X" and f: "f_ref (ftable s f) = 1" and c: "fileclose f s = Inr s'"
  shows "file_inv p s' (\<lambda>i. d i - (if i = f then 1 else 0)) (X - {f})"
proof -
  have z: "f_ref (ftable s' f) = 0" using fileclose_but [OF c] f by (simp add: but_file_def)
  have "file_inv p s' (\<lambda>i. d i - (if i = f then 1 else 0)) X" using fileclose_inv(1) [OF inv c] by (rule file_inv_cong) simp
  then show ?thesis by (rule file_inv_ptab) (use z inv_tableD [OF \<open>file_inv p s' _ X\<close>] in \<open>auto simp: table_inv_def\<close>)
qed

lemma close_new_ref: "fileclose f s = Inr s' \<Longrightarrow> g \<noteq> f \<Longrightarrow> f_ref (ftable s' g) = f_ref (ftable s g)"
  by (drule fileclose_but) (auto simp: but_file_def split: if_splits)

text \<open>Two files that each owe a descriptor.\<close>

definition owed2 :: "nat \<Rightarrow> nat \<Rightarrow> nat \<Rightarrow> int" where
  "owed2 f g i = (if i = f then 1 else 0) + (if i = g then 1 else 0)"

definition new_pair :: "nat \<Rightarrow> nat \<Rightarrow> nat \<Rightarrow> 'z vfs_scheme \<Rightarrow> bool" where
  "new_pair p f g s \<longleftrightarrow> f < NFILE \<and> g < NFILE \<and> f \<noteq> g \<and> f_ref (ftable s f) = 1 \<and> f_ref (ftable s g) = 1 \<and> file_inv p s (owed2 f g) {f, g}"

lemma new_pair_same: "same_files s s' \<Longrightarrow> new_pair p f g s \<Longrightarrow> new_pair p f g s'"
  by (auto simp: new_pair_def same_files_def intro: file_inv_same [unfolded same_files_def])

lemma new_pair_close:
  assumes "new_pair p f g s" and c: "fileclose f s = Inr s1" "fileclose g s1 = Inr s2"
  shows "files_ok p s2"
proof -
  from assms(1) have n: "f \<noteq> g" "f_ref (ftable s f) = 1" "f_ref (ftable s g) = 1" "file_inv p s (owed2 f g) {f, g}" by (auto simp: new_pair_def)
  have "f_ref (ftable s1 g) = 1" using close_new_ref [OF c(1)] n by simp
  from close_new_inv [OF close_new_inv [OF n(4,2) c(1)] this c(2)] have
    "file_inv p s2 (\<lambda>i. owed2 f g i - (if i = f then 1 else 0) - (if i = g then 1 else 0)) ({f, g} - {f} - {g})" .
  moreover have e: "{f, g} - {f} - {g} = {}" by auto
  ultimately show ?thesis unfolding e by (auto simp: owed2_def elim: file_inv_cong)
qed

lemma filealloc_pair:
  assumes inv: "files_ok p s" and a: "filealloc s = (Some f, s1)" "filealloc s1 = (Some g, s2)"
  shows "new_pair p f g s2"
proof -
  note f = filealloc_inv [OF inv a(1)] and g = filealloc_inv [OF filealloc_inv(2) [OF inv a(1)] a(2)]
  have "f \<noteq> g" using f(6) g(4) by auto
  then show ?thesis using f(1,6) g(1,2,6) g(5) [of f]
    by (auto simp: new_pair_def owed2_def insert_commute elim: file_inv_cong)
qed

lemma filealloc_None: "filealloc s = (None, s') \<Longrightarrow> s' = s"
  by (auto simp: filealloc_def split: option.splits)

lemma new_pair_setup:
  assumes "new_pair p f g s" and "\<And>x. f_ref (u x) = f_ref x \<and> f_flock (u x) = f_flock x \<and> f_ip (u x) \<noteq> None \<and> f_type (u x) \<noteq> FD_NONE"
    and "\<And>x. f_ref (v x) = f_ref x \<and> f_flock (v x) = f_flock x \<and> f_ip (v x) \<noteq> None \<and> f_type (v x) \<noteq> FD_NONE"
  shows "file_inv p (upd_file g v (upd_file f u s)) (owed2 f g) {}"
proof -
  have "file_inv p (upd_file g v (upd_file f u s)) (owed2 f g) ({f, g} - {f} - {g})"
    by (intro setup_inv) (use assms in \<open>auto simp: new_pair_def\<close>)
  moreover have e: "{f, g} - {f} - {g} = {}" by auto
  ultimately show ?thesis unfolding e by simp
qed

lemma pipealloc_inv:
  assumes inv: "files_ok p s" and c: "pipealloc s = Inr (r, s')"
  shows "case r of None \<Rightarrow> files_ok p s' | Some (f, g) \<Rightarrow> f < NFILE \<and> g < NFILE \<and> f \<noteq> g \<and> file_inv p s' (owed2 f g) {}"
proof -
  consider (none) s1 where "filealloc s = (None, s1)"
    | (one) f s1 s2 where "filealloc s = (Some f, s1)" "filealloc s1 = (None, s2)"
    | (two) f s1 g s2 where "filealloc s = (Some f, s1)" "filealloc s1 = (Some g, s2)"
    by (metis option.exhaust surj_pair)
  then show ?thesis
  proof cases
    case none
    then show ?thesis using c inv by (auto simp: pipealloc_def dest: filealloc_None)
  next
    case one
    then have "fileclose f s1 = Inr s'" "r = None" using c by (auto simp: pipealloc_def kbind_Inr_iff dest: filealloc_None)
    with close_new_inv [OF filealloc_inv(2) [OF inv one(1)] filealloc_inv(6) [OF inv one(1)], of s'] show ?thesis
      by (auto elim: file_inv_cong)
  next
    case two
    note n = filealloc_pair [OF inv two]
    obtain a s3 where s3: "do_kmalloc sizeof_pipe s2 = Inr (a, s3)" using c two by (auto simp: pipealloc_def kbind_Inr_iff)
    note n3 = new_pair_same [OF do_kmalloc_files [OF s3] n]
    show ?thesis
    proof (cases a)
      case None
      then show ?thesis using c two s3 new_pair_close [OF n3] by (auto simp: pipealloc_def kbind_Inr_iff)
    next
      case (Some pi)
      let ?s = "set_pipe pi ((pipes s3 pi)\<lparr>readers := 1, writers := 1, nread := 0, nwrite := 0\<rparr>) s3"
      obtain b s4 where s4: "pipe_inode_alloc pi ?s = (b, s4)" by fastforce
      have "same_files s3 s4" using pipe_inode_alloc_files [OF s4] by simp
      note n4 = new_pair_same [OF this n3]
      show ?thesis
      proof (cases b)
        case None
        then show ?thesis using c two s3 s4 Some new_pair_close [OF new_pair_same [OF do_kfree_files n4]]
          by (auto simp: pipealloc_def kbind_Inr_iff)
      next
        case (Some ip)
        have n5: "new_pair p f g (fs_idup ip s4)" by (rule new_pair_same [OF _ n4]) simp
        show ?thesis using c two s3 s4 Some \<open>a = Some pi\<close> n5
          by (auto simp: pipealloc_def kbind_Inr_iff Let_def new_pair_def intro!: new_pair_setup)
      qed
    qed
  qed
qed

lemma pair_close_inv:
  assumes inv: "file_inv p s (owed2 f g) {}"
  shows "keeps_files p (fbind (Some (fileclose f s)) (\<lambda>t1. fbind (Some (fileclose g t1)) (\<lambda>t2. fret (- 1 :: int, t2))))"
proof -
  have "files_ok p s2" if "fileclose f s = Inr s1" "fileclose g s1 = Inr s2" for s1 s2
    using fileclose_inv(1) [OF fileclose_inv(1) [OF inv that(1)] that(2)] by (rule file_inv_cong) (simp add: owed2_def)
  then show ?thesis by (auto intro!: fpost_bind)
qed

lemma drop_fd_inv:
  assumes "file_inv p s d X" and "p < NPROC" and "fd < NOFILE" and "ofile (ptab s p) fd = Some f"
    and "\<And>i. d' i = d i + (if i = f then 1 else 0)"
  shows "file_inv p (upd_proc p (\<lambda>x. x\<lparr>ofile := (ofile x)(fd := None)\<rparr>) s) d' X"
proof -
  let ?s' = "upd_proc p (\<lambda>x. x\<lparr>ofile := (ofile x)(fd := None)\<rparr>) s"
  have "file_inv p ?s' (\<lambda>i. d i + (if ofile (ptab s p) fd = Some i then 1 else 0) - (if None = Some i then 1 else 0)) X"
    by (rule fd_change [OF assms(1-3)]) (simp_all add: upd_proc_def)
  then show ?thesis by (rule file_inv_cong) (use assms(4,5) in auto)
qed

lemma fdalloc_None: "fdalloc p f s = (None, s') \<Longrightarrow> s' = s"
  by (auto simp: fdalloc_def dest: fdalloc_ge_None)

lemma same_ofile: "same_files s s' \<Longrightarrow> ofile (ptab s' q) = ofile (ptab s q)"
  by (simp add: same_files_def)

lemma sys_pipe_inv:
  assumes inv: "files_ok p s" and p: "p < NPROC"
  shows "keeps_files p (sys_pipe c p tf s)"
proof -
  let ?clear = "\<lambda>fd t. upd_proc p (\<lambda>x. x\<lparr>ofile := (ofile x)(fd := None)\<rparr>) t"
  have one: "file_inv p s2 (\<lambda>i. owed2 f g i - (if i = f then 1 else 0)) {}" "ofile (ptab s2 p) fd0 = Some f" "fd0 < NOFILE"
    if a: "pipealloc s = Inr (Some (f, g), s1)" "fdalloc p f s1 = (Some fd0, s2)" for f g s1 fd0 s2
  proof -
    from pipealloc_inv [OF inv a(1)] have i: "f < NFILE" "file_inv p s1 (owed2 f g) {}" by auto
    show "file_inv p s2 (\<lambda>i. owed2 f g i - (if i = f then 1 else 0)) {}"
      using fdalloc_inv [OF i(2) p i(1) a(2) [unfolded fdalloc_def]] by (rule file_inv_cong) auto
    show "ofile (ptab s2 p) fd0 = Some f" "fd0 < NOFILE" using fdalloc_ge_Some [OF a(2) [unfolded fdalloc_def]] by (auto simp: ofile_set_fd)
  qed
  have two: "files_ok p t" "file_inv p (?clear fd1 (?clear fd0 t)) (owed2 f g) {}"
    if a: "pipealloc s = Inr (Some (f, g), s1)" "fdalloc p f s1 = (Some fd0, s2)" "fdalloc p g s2 = (Some fd1, s3)" and t: "same_files s3 t" for f g s1 fd0 s2 fd1 s3 t
  proof -
    from pipealloc_inv [OF inv a(1)] have g: "g < NFILE" by auto
    note b = fdalloc_ge_Some [OF a(3) [unfolded fdalloc_def]]
    have "files_ok p s3" using fdalloc_inv [OF one(1) [OF a(1,2)] p g a(3) [unfolded fdalloc_def]] by (rule file_inv_cong) (auto simp: owed2_def)
    then have ok: "files_ok p t" using t by (rule file_inv_same)
    have ne: "fd1 \<noteq> fd0" using b one(2) [OF a(1,2)] by auto
    have of: "ofile (ptab t p) fd0 = Some f" "ofile (ptab t p) fd1 = Some g" using same_ofile [OF t] b ne one(2) [OF a(1,2)] by (auto simp: ofile_set_fd)
    have "file_inv p (?clear fd0 t) (\<lambda>i. if i = f then 1 else 0) {}" by (rule drop_fd_inv [OF ok p one(3) [OF a(1,2)] of(1)]) simp
    then have "file_inv p (?clear fd1 (?clear fd0 t)) (owed2 f g) {}"
      by (rule drop_fd_inv [OF _ p]) (use b ne of in \<open>auto simp: owed2_def upd_proc_def\<close>)
    with ok show "files_ok p t" "file_inv p (?clear fd1 (?clear fd0 t)) (owed2 f g) {}" by simp_all
  qed
  have clear1: "file_inv p (?clear fd0 s2) (owed2 f g) {}" if "pipealloc s = Inr (Some (f, g), s1)" "fdalloc p f s1 = (Some fd0, s2)" for f g s1 fd0 s2
    by (rule drop_fd_inv [OF one(1) [OF that] p one(3,2) [OF that]]) simp
  have pa: "pipealloc s = Inr (None, t) \<Longrightarrow> files_ok p t" "pipealloc s = Inr (Some (f, g), t) \<Longrightarrow> file_inv p t (owed2 f g) {}" for t f g
    by (auto dest: pipealloc_inv [OF inv])
  show ?thesis unfolding sys_pipe_def Let_def using inv
    by (auto split: option.splits prod.splits intro!: fpost_bind pair_close_inv dest!: copyout_files fdalloc_None)
      (erule pa | erule (1) clear1 | erule (3) two | (erule (2) two, erule (1) same_files_trans))+
qed

lemma fifo_on_open_files [files]: "fifo_on_open a rd wr s = Inr s' \<Longrightarrow> same_files s s'"
  by (auto simp: fifo_on_open_def Let_def split: sum.splits dest!: wakeup_files intro: same_files_trans)

lemma filealloc_fd:
  assumes inv: "files_ok p s" and p: "p < NPROC" and a: "filealloc s = (Some f, s1)" and d: "fdalloc p f s1 = (r, s2)"
  shows "case r of None \<Rightarrow> file_inv p s2 (\<lambda>i. if i = f then 1 else 0) {f} \<and> f_ref (ftable s2 f) = 1 | Some fd \<Rightarrow> file_inv p s2 (\<lambda>_. 0) {f}"
proof -
  note f = filealloc_inv [OF inv a]
  have i: "file_inv p s1 (\<lambda>i. if i = f then 1 else 0) {f}" using f(2) by (rule file_inv_cong) auto
  then show ?thesis using fdalloc_inv [OF i p f(1) d [unfolded fdalloc_def]] fdalloc_None [of p f s1 s2] d f(6)
    by (cases r) (auto elim: file_inv_cong)
qed

definition opened :: "nat \<Rightarrow> (nat \<times> nat) option \<times> 'z vfs_scheme \<Rightarrow> bool" where
  "opened p r \<longleftrightarrow> (case fst r of None \<Rightarrow> files_ok p (snd r) | Some (f, fd) \<Rightarrow> file_inv p (snd r) (\<lambda>_. 0) {f})"

lemma open_fd_inv:
  assumes inv: "files_ok p s" and p: "p < NPROC"
  shows "fpost (open_fd p ip s) (opened p)"
proof -
  have none: "files_ok p s1" if "filealloc s = (None, s1)" for s1 using inv filealloc_None [OF that] by simp
  have close: "files_ok p s3" if "filealloc s = (Some f, s1)" "fdalloc p f s1 = (None, s2)" "fileclose f s2 = Inr s3" for f s1 s2 s3
    using filealloc_fd [OF inv p that(1,2)] close_new_inv [OF _ _ that(3), of p "\<lambda>i. if i = f then 1 else 0" "{f}"] by (auto elim: file_inv_cong)
  have done': "file_inv p s2 (\<lambda>_. 0) {f}" if "filealloc s = (Some f, s1)" "fdalloc p f s1 = (Some fd, s2)" for f s1 s2 fd
    using filealloc_fd [OF inv p that] by simp
  have put: "fpost (put_ret ip None t) (opened p)" if "files_ok p t" for t
    by (auto simp: put_ret_def opened_def intro!: fpost_bind dest!: fs_iput_files intro: file_inv_same [OF that])
  show ?thesis unfolding open_fd_def
    by (auto split: option.splits prod.splits intro!: fpost_bind put elim: none close) (simp add: opened_def done')
qed

lemma set_open_inv: "file_inv p s d {f} \<Longrightarrow> ty \<noteq> FD_NONE \<Longrightarrow> file_inv p (set_open f ty ip rd wr fl s) d {}"
  using setup_inv [of p s d "{f}" f] by (simp add: set_open_def)

lemma fpost_seq: "fpost m P \<Longrightarrow> (\<And>x. P x \<Longrightarrow> fpost (f x) Q) \<Longrightarrow> fpost (fbind m f) Q"
  by (rule fpost_bind) (auto dest: fpostD)

text \<open>The calls below open files, as steps of a call that keeps the invariant.\<close>

lemma keeps_bind: "keeps_files p m \<Longrightarrow> (\<And>r s1. files_ok p s1 \<Longrightarrow> fpost (f (r, s1)) Q) \<Longrightarrow> fpost (fbind m f) Q"
  by (rule fpost_bind) (auto dest: fpostD)

lemma keeps_lookup:
  assumes "files_ok p s"
  shows "keeps_files p (fs_create n p path ty s)" "keeps_files p (fs_namei n p path s)" "keeps_files p (Some (fs_truncate ip len s))"
    "keeps_files p (put_ret ip r s)" "keeps_files p (fret (x, s))"
  using assms by (auto simp: fpost_def dest!: fs_create_files fs_namei_files fs_truncate_files put_ret_files intro: file_inv_same)

lemma with_path_inv:
  assumes inv: "files_ok p s" and "\<And>path s1. files_ok p s1 \<Longrightarrow> keeps_files p (f path s1)"
  shows "keeps_files p (with_path c p tf k s f)"
  unfolding with_path_def
  by (rule keeps_bind) (auto simp: assms(2) split: option.splits dest!: argstr_files intro: file_inv_same [OF inv])

lemma open_bind:
  assumes "files_ok p s" and "p < NPROC" and "\<And>f fd s1. file_inv p s1 (\<lambda>_. 0) {f} \<Longrightarrow> keeps_files p (g (Some (f, fd), s1))"
    and "\<And>s1. files_ok p s1 \<Longrightarrow> keeps_files p (g (None, s1))"
  shows "keeps_files p (fbind (open_fd p ip s) g)"
proof (rule fpost_bind)
  fix x
  assume "open_fd p ip s = Some (Inr x)"
  from fpostD [OF open_fd_inv [OF assms(1,2)] this] show "keeps_files p (g x)"
    using assms(3,4) by (cases x) (auto simp: opened_def split: option.splits)
qed

lemma sys_creat_inv:
  assumes inv: "files_ok p s" and p: "p < NPROC"
  shows "keeps_files p (sys_creat n c p tf s)"
  unfolding sys_creat_def
proof (rule with_path_inv [OF inv], unfold fpost_with, intro allI impI, rule keeps_bind [OF keeps_lookup(1)], assumption,
    unfold case_prod_conv, rule keeps_bind [where p = p], goal_cases)
  case (1 path s mode r s1)
  then show ?case
    by (cases r) (auto split: option.splits intro!: keeps_bind [OF keeps_lookup(2)] keeps_bind [OF keeps_lookup(3)] keeps_lookup(4))
next
  case (2 path s mode r s1 r' s2)
  have "files_ok p (upd_inode ip f s2)" for ip f by (rule file_inv_same [OF 2(4)]) simp
  with 2(4) show ?case by (auto split: option.splits intro!: open_bind p set_open_inv)
qed

lemma open_type_not_none: "(case ty of T_CHAR \<Rightarrow> FD_CHAR | T_BLK \<Rightarrow> FD_BLOCK | _ \<Rightarrow> FD_INODE) \<noteq> FD_NONE"
  by (simp split: inode_type.splits)

lemma open_look_inv:
  assumes inv: "files_ok p s"
  shows "fpost (if e then fbind (fs_create n p path T_FILE s) (\<lambda>(r, s1).
                if r \<noteq> None then fret (r, True, s1)
                else if x then fret (None, False, s1)
                else fbind (fs_namei n p path s1) (\<lambda>(r, s2). fret (r, False, s2)))
            else fbind (fs_namei n p path s) (\<lambda>(r, s1). fret (r, False, s1))) (\<lambda>(r, c, s1). files_ok p s1)"
  by (auto intro!: keeps_bind [OF keeps_lookup(1) [OF inv]] keeps_bind [OF keeps_lookup(2)] simp: inv)

lemma open_fifo_inv:
  assumes "file_inv p s (\<lambda>_. 0) {f}" and "ty \<noteq> FD_NONE"
  shows "keeps_files p (fbind (if b then Some (fifo_on_open a rd wr (set_open f ty ip rd' wr' fl s)) else fret (set_open f ty ip rd' wr' fl s)) (\<lambda>s5. fret (r, s5)))"
  using file_inv_same [OF set_open_inv [OF assms] fifo_on_open_files] set_open_inv [OF assms] by (auto intro!: fpost_bind)

lemma sys_open_inv:
  assumes inv: "files_ok p s" and p: "p < NPROC"
  shows "keeps_files p (sys_open n c p tf s)"
  unfolding sys_open_def
proof (rule with_path_inv [OF inv], unfold fpost_with, intro allI impI, rule fpost_seq [OF open_look_inv], assumption, clarify, goal_cases)
  case (1 path s flags r created s1)
  then show ?case
  proof (cases r)
    case (Some ip)
    show ?thesis unfolding Some option.case Let_def
      apply (rule keeps_bind [where p = p])
      subgoal using keeps_lookup(3) [OF 1(3), of ip 0] 1(3) by simp
      apply (unfold case_prod_conv)
      apply (split if_split, intro conjI impI)
       apply (erule keeps_lookup)
      apply (erule open_bind [OF _ p])
       apply (unfold case_prod_conv option.case)
       apply (erule open_fifo_inv [OF _ open_type_not_none])
      apply simp
      done
  qed simp
qed

lemma console_inv:
  assumes inv: "file_inv w s d {}"
  shows "fpost (open_console n p rd wr s) (\<lambda>(r, s'). (\<forall>f. r = Some f \<longrightarrow> f < NFILE) \<and> (\<forall>q. ofile (ptab s' q) = ofile (ptab s q))
    \<and> file_inv w s' (\<lambda>i. d i + (if r = Some i then 1 else 0)) {})" (is "fpost _ ?Q")
  unfolding open_console_def
proof (rule fpost_bind, clarify, goal_cases)
  case (1 r s1)
  note same = fs_namei_files [OF 1]
  have s1: "file_inv w s1 d {}" by (rule file_inv_same [OF inv same])
  show ?case
  proof (cases r)
    case None
    then show ?thesis by (simp add: s1 same_ofile [OF same])
  next
    case r: (Some ip)
    obtain q s2 where q: "filealloc s1 = (q, s2)" by fastforce
    show ?thesis
    proof (cases q)
      case None
      have "?Q (None, t)" if "fs_iput ip s1 = Inr t" for t
        using file_inv_same [OF s1 fs_iput_files [OF that]] same_ofile [OF fs_iput_files [OF that]] same_ofile [OF same] by simp
      then show ?thesis using q None filealloc_None [of s1 s2] by (auto simp: r put_ret_def intro!: fpost_bind)
    next
      case (Some f)
      note f = filealloc_inv [OF s1 q [unfolded Some]]
      have new: "?Q (Some f, upd_file f g s2)" if "\<And>x. f_ref (g x) = f_ref x" "\<And>x. f_flock (g x) = f_flock x"
        "\<And>x. f_ip (g x) \<noteq> None \<and> f_type (g x) \<noteq> FD_NONE" for g
      proof -
        have "file_inv w (upd_file f g s2) (d(f := d f + 1)) ({f} - {f})" by (rule setup_inv [OF f(2)]) (simp_all add: that)
        then have "file_inv w (upd_file f g s2) (\<lambda>i. d i + (if Some f = Some i then 1 else 0)) {}" by (auto elim: file_inv_cong)
        with f(1,3) same_ofile [OF same] show ?thesis by simp
      qed
      show ?thesis unfolding r option.case q Some case_prod_conv fpost_ret by (rule new [unfolded case_prod_conv]) simp_all
    qed
  qed
qed

lemma close_opt_inv: "file_inv p s d X \<Longrightarrow> close_opt r s = Inr s' \<Longrightarrow> file_inv p s' (\<lambda>i. d i - (if r = Some i then 1 else 0)) X"
  by (cases r) (auto simp: close_opt_def dest: fileclose_inv(1) elim!: file_inv_cong)

lemma stdio_inv:
  assumes inv: "files_ok q s" and q: "q < NPROC" and free: "\<And>fd. fd < NOFILE \<Longrightarrow> ofile (ptab s q) fd = None"
  shows "fpost (fd_install_stdio n p q s) (files_ok q)"
  unfolding fd_install_stdio_def
proof (rule fpost_bind, clarify, rule fpost_bind, clarify, goal_cases)
  case (1 inp s1 out s2)
  note a = fpostD [OF console_inv [OF inv] 1(1), simplified]
  note b = fpostD [OF console_inv [OF a [THEN conjunct2, THEN conjunct2]] 1(2), simplified]
  let ?d = "\<lambda>i. (if inp = Some i then 1 else 0) + (if out = Some i then 1 else 0) :: int"
  have i2: "file_inv q s2 ?d {}" and free2: "fd < NOFILE \<Longrightarrow> ofile (ptab s2 q) fd = None" for fd using a b free by auto
  show ?case
  proof (cases "inp = None \<or> out = None")
    case True
    have "files_ok q s4" if "close_opt inp s2 = Inr s3" "close_opt out s3 = Inr s4" for s3 s4
      using close_opt_inv [OF close_opt_inv [OF i2 that(1)] that(2)] by (rule file_inv_cong) simp
    then show ?thesis using True by (auto simp: kbind_Inr_iff split: option.splits)
  next
    case False
    then obtain i u where io: "inp = Some i" "out = Some u" by auto
    have nf: "i < NFILE" "u < NFILE" "0 < NOFILE" "1 < NOFILE" "2 < NOFILE" using a b by (auto simp: io NOFILE_def)
    let ?t = "set_fd q 1 (Some u) 0 (set_fd q 0 (Some i) 0 s2)"
    have "file_inv q (set_fd q 0 (Some i) 0 s2) (\<lambda>k. if u = k then 1 else 0) {}"
      using set_fd_inv [OF i2 q nf(3), of "Some i" 0] free2 nf by (auto simp: io elim!: file_inv_cong)
    from set_fd_inv [OF this q nf(4), of "Some u" 0] have t: "files_ok q ?t"
      using free2 nf by (auto simp: ofile_set_fd elim!: file_inv_cong)
    have "files_ok q (set_fd q 2 (Some u) 0 s3)" if "filedup u ?t = Inr s3" for s3
      by (rule dup_fd_inv [OF t q nf(5,2) _ that]) (simp add: ofile_set_fd free2 nf)
    then show ?thesis unfolding io prod.case option.case by (auto intro!: fpost_bind)
  qed
qed

end
