(* ===== verification/Fpu.thy ===== *)
theory Fpu
  imports Proc_Types
begin

text \<open>
  The floating-point unit, src/arch/x86/kernel/fpu.c: its registers are switched lazily. A switch of processes saves the
  registers of the process that leaves and sets the TS bit of CR0; the first floating-point instruction after it traps
  (exception NM) and \<open>fpu_nm\<close> loads the registers of the process that runs.

  The type \<open>'r\<close> is what FXSAVE stores, and \<open>clean\<close> its value after FNINIT and LDMXCSR. \<open>cr0_ts\<close> and \<open>fx_hw\<close> are the TS bit
  and the registers of each CPU; \<open>fpu_used\<close> and \<open>fpu_state\<close> are fields of a process in the source. The save areas are
  aligned by their declaration, so that the panics of \<open>fxsave\<close> and \<open>fxrstor\<close> do not occur.
\<close>

section \<open>The operations\<close>

definition NR_CPUS :: nat where "NR_CPUS = 256"

record 'r fpu =
  fpu_owner :: "nat \<Rightarrow> nat option"
  cr0_ts :: "nat \<Rightarrow> bool"
  fx_hw :: "nat \<Rightarrow> 'r"
  fpu_used :: "nat \<Rightarrow> bool"
  fpu_state :: "nat \<Rightarrow> 'r"

definition fpu_clts :: "nat \<Rightarrow> 'r fpu \<Rightarrow> 'r fpu" where
  "fpu_clts c s = s\<lparr>cr0_ts := (cr0_ts s)(c := False)\<rparr>"

definition fxsave :: "nat \<Rightarrow> nat \<Rightarrow> 'r fpu \<Rightarrow> 'r fpu" where
  "fxsave c p s = s\<lparr>fpu_state := (fpu_state s)(p := fx_hw s c)\<rparr>"

definition fxrstor :: "nat \<Rightarrow> nat \<Rightarrow> 'r fpu \<Rightarrow> 'r fpu" where
  "fxrstor c p s = s\<lparr>fx_hw := (fx_hw s)(c := fpu_state s p)\<rparr>"

definition fpu_hw_init :: "'r \<Rightarrow> nat \<Rightarrow> 'r fpu \<Rightarrow> 'r fpu" where
  "fpu_hw_init clean c s = s\<lparr>fx_hw := (fx_hw s)(c := clean)\<rparr>"

definition fpu_init :: "'r \<Rightarrow> nat \<Rightarrow> 'r fpu \<Rightarrow> 'r fpu" where
  "fpu_init clean c s =
     (fpu_hw_init clean c s)\<lparr>fpu_owner := (\<lambda>i. if i < NR_CPUS then None else fpu_owner s i)\<rparr>"

definition fpu_switch_away :: "nat \<Rightarrow> nat option \<Rightarrow> 'r fpu \<Rightarrow> 'r fpu" where
  "fpu_switch_away c po s =
     (let s1 = (case po of
                  None \<Rightarrow> s
                | Some p \<Rightarrow>
                    if fpu_owner s c = Some p then
                      let t = fxsave c p (fpu_clts c s)
                      in t\<lparr>fpu_used := (fpu_used t)(p := True), fpu_owner := (fpu_owner t)(c := None)\<rparr>
                    else s)
      in s1\<lparr>cr0_ts := (cr0_ts s1)(c := True)\<rparr>)"

definition fpu_drop :: "nat \<Rightarrow> 'r fpu \<Rightarrow> 'r fpu" where
  "fpu_drop p s = s\<lparr>fpu_owner := (\<lambda>i. if i < NR_CPUS \<and> fpu_owner s i = Some p then None else fpu_owner s i)\<rparr>"

definition fpu_clear :: "nat \<Rightarrow> 'r fpu \<Rightarrow> 'r fpu" where
  "fpu_clear p s = fpu_drop p (s\<lparr>fpu_used := (fpu_used s)(p := False)\<rparr>)"

definition fpu_fork :: "nat \<Rightarrow> nat \<Rightarrow> nat \<Rightarrow> 'r fpu \<Rightarrow> 'r fpu" where
  "fpu_fork c child par s =
     (if \<not> fpu_used s par \<and> fpu_owner s c \<noteq> Some par then s\<lparr>fpu_used := (fpu_used s)(child := False)\<rparr>
      else let s1 = (if fpu_owner s c = Some par then
                       let t = fxsave c par (fpu_clts c s) in t\<lparr>fpu_used := (fpu_used t)(par := True)\<rparr>
                     else s)
           in if \<not> fpu_used s1 par then s1\<lparr>fpu_used := (fpu_used s1)(child := False)\<rparr>
              else s1\<lparr>fpu_state := (fpu_state s1)(child := fpu_state s1 par), fpu_used := (fpu_used s1)(child := True)\<rparr>)"

definition fpu_nm :: "'r \<Rightarrow> nat \<Rightarrow> nat option \<Rightarrow> 'r fpu \<Rightarrow> 'r fpu" where
  "fpu_nm clean c po s0 =
     (let s = fpu_clts c s0
      in case po of
           None \<Rightarrow> s
         | Some p \<Rightarrow>
             if fpu_owner s c = Some p then s
             else let s1 = (case fpu_owner s c of
                              None \<Rightarrow> s
                            | Some q \<Rightarrow> let t = fxsave c q s in t\<lparr>fpu_used := (fpu_used t)(q := True)\<rparr>);
                      s2 = (if fpu_used s1 p then fxrstor c p s1
                            else let t = fpu_hw_init clean c s1 in t\<lparr>fpu_used := (fpu_used t)(p := True)\<rparr>)
                  in s2\<lparr>fpu_owner := (fpu_owner s2)(c := Some p)\<rparr>)"

lemmas fpu_ops = fpu_clts_def fxsave_def fxrstor_def fpu_hw_init_def fpu_switch_away_def fpu_drop_def fpu_clear_def
  fpu_fork_def fpu_nm_def Let_def

section \<open>Runs\<close>

text \<open>
  What happens to the unit: a floating-point instruction \<open>g\<close> of the process on a CPU, which traps when TS is set; a
  switch from the process to the scheduler of the CPU and one from there to a process, each of which goes through
  \<open>context_switch\<close>; a fork; the end of the running process, which switches to the scheduler; a process structure
  cleared for a new process; and \<open>exec\<close>.
\<close>

datatype 'r fev = FOp nat "'r \<Rightarrow> 'r" | FSched nat | FDispatch nat nat | FFork nat nat | FExit nat | FNew nat | FExec nat

type_synonym 'r fconf = "(nat \<Rightarrow> nat option) \<times> 'r fpu"

definition fpu_ready :: "'r \<Rightarrow> nat \<Rightarrow> 'r fconf \<Rightarrow> 'r fpu" where
  "fpu_ready clean c k = (if cr0_ts (snd k) c then fpu_nm clean c (fst k c) (snd k) else snd k)"

text \<open>The registers that the next floating-point instruction on a CPU works on.\<close>

definition fpu_seen :: "'r \<Rightarrow> nat \<Rightarrow> 'r fconf \<Rightarrow> 'r" where
  "fpu_seen clean c k = fx_hw (fpu_ready clean c k) c"

fun fpu_event :: "'r \<Rightarrow> 'r fev \<Rightarrow> 'r fconf \<Rightarrow> 'r fconf" where
  "fpu_event clean (FOp c g) k = (let s = fpu_ready clean c k in (fst k, s\<lparr>fx_hw := (fx_hw s)(c := g (fx_hw s c))\<rparr>))"
| "fpu_event clean (FSched c) k = ((fst k)(c := None), fpu_switch_away c (fst k c) (snd k))"
| "fpu_event clean (FDispatch c q) k = ((fst k)(c := Some q), fpu_switch_away c (Some q) (snd k))"
| "fpu_event clean (FFork c child) k = (fst k, case fst k c of None \<Rightarrow> snd k | Some p \<Rightarrow> fpu_fork c child p (snd k))"
| "fpu_event clean (FExit c) k = ((fst k)(c := None), case fst k c of None \<Rightarrow> snd k | Some p \<Rightarrow> fpu_switch_away c (Some p) (fpu_drop p (snd k)))"
| "fpu_event clean (FNew p) k = (fst k, (snd k)\<lparr>fpu_used := (fpu_used (snd k))(p := False)\<rparr>)"
| "fpu_event clean (FExec c) k = (fst k, case fst k c of None \<Rightarrow> snd k | Some p \<Rightarrow> fpu_clear p (snd k))"

text \<open>What a private set of registers for every process would do; a process that has ended has none.\<close>

fun priv_event :: "'r \<Rightarrow> 'r fev \<Rightarrow> (nat \<Rightarrow> nat option) \<Rightarrow> (nat \<Rightarrow> 'r option) \<Rightarrow> nat \<Rightarrow> 'r option" where
  "priv_event clean (FOp c g) cur v = (case cur c of None \<Rightarrow> v | Some p \<Rightarrow> v(p := map_option g (v p)))"
| "priv_event clean (FSched c) cur v = v"
| "priv_event clean (FDispatch c q) cur v = v"
| "priv_event clean (FFork c child) cur v = (case cur c of None \<Rightarrow> v | Some p \<Rightarrow> v(child := v p))"
| "priv_event clean (FExit c) cur v = (case cur c of None \<Rightarrow> v | Some p \<Rightarrow> v(p := None))"
| "priv_event clean (FNew p) cur v = v(p := Some clean)"
| "priv_event clean (FExec c) cur v = (case cur c of None \<Rightarrow> v | Some p \<Rightarrow> v(p := Some clean))"

text \<open>
  When an event can happen: a process runs on one CPU at a time, a new process and the child of a fork on none, and a
  process that has ended runs only after its structure was cleared for a new one. \<open>exec\<close> is left out.
\<close>

fun fev_ok :: "'r fev \<Rightarrow> (nat \<Rightarrow> nat option) \<Rightarrow> (nat \<Rightarrow> 'r option) \<Rightarrow> bool" where
  "fev_ok (FOp c g) cur v \<longleftrightarrow> c < NR_CPUS \<and> cur c \<noteq> None"
| "fev_ok (FSched c) cur v \<longleftrightarrow> c < NR_CPUS"
| "fev_ok (FDispatch c q) cur v \<longleftrightarrow> c < NR_CPUS \<and> cur c = None \<and> v q \<noteq> None \<and> (\<forall>d < NR_CPUS. cur d \<noteq> Some q)"
| "fev_ok (FFork c q) cur v \<longleftrightarrow> c < NR_CPUS \<and> (\<forall>d < NR_CPUS. cur d \<noteq> Some q)"
| "fev_ok (FExit c) cur v \<longleftrightarrow> c < NR_CPUS"
| "fev_ok (FNew q) cur v \<longleftrightarrow> (\<forall>d < NR_CPUS. cur d \<noteq> Some q)"
| "fev_ok (FExec c) cur v \<longleftrightarrow> False"

fun fpu_go :: "'r \<Rightarrow> 'r fev list \<Rightarrow> 'r fconf \<Rightarrow> (nat \<Rightarrow> 'r option) \<Rightarrow> ('r fconf \<times> (nat \<Rightarrow> 'r option)) option" where
  "fpu_go clean [] k v = Some (k, v)"
| "fpu_go clean (e # es) k v =
     (if fev_ok e (fst k) v then fpu_go clean es (fpu_event clean e k) (priv_event clean e (fst k) v) else None)"

text \<open>The events after start-up, one after the other.\<close>

definition fpu_trace :: "'r \<Rightarrow> 'r fpu \<Rightarrow> 'r fev list \<Rightarrow> 'r fconf" where
  "fpu_trace clean s es = foldl (\<lambda>k e. fpu_event clean e k) (\<lambda>_. None, fpu_init clean 0 s) es"

section \<open>The lazy switch is not seen\<close>

text \<open>The registers of the processes: in hardware where a process owns the unit of a CPU, else in its save area.\<close>

definition regs_ok :: "'r \<Rightarrow> 'r fpu \<Rightarrow> (nat \<Rightarrow> 'r option) \<Rightarrow> bool" where
  "regs_ok clean s v \<longleftrightarrow> (\<forall>p x. v p = Some x \<longrightarrow>
     (\<forall>c < NR_CPUS. fpu_owner s c = Some p \<longrightarrow> fx_hw s c = x)
     \<and> ((\<forall>c < NR_CPUS. fpu_owner s c \<noteq> Some p) \<longrightarrow> (if fpu_used s p then fpu_state s p else clean) = x))"

definition owner_ok :: "(nat \<Rightarrow> nat option) \<Rightarrow> 'r fpu \<Rightarrow> bool" where
  "owner_ok cur s \<longleftrightarrow> (\<forall>c < NR_CPUS. (\<forall>p. fpu_owner s c = Some p \<longrightarrow> cur c = Some p) \<and> (\<not> cr0_ts s c \<longrightarrow> fpu_owner s c = cur c))"

definition cur_ok :: "(nat \<Rightarrow> nat option) \<Rightarrow> (nat \<Rightarrow> 'r option) \<Rightarrow> bool" where
  "cur_ok cur v \<longleftrightarrow> (\<forall>c < NR_CPUS. \<forall>p. cur c = Some p \<longrightarrow> v p \<noteq> None \<and> (\<forall>d < NR_CPUS. cur d = Some p \<longrightarrow> d = c))"

definition fpu_inv :: "'r \<Rightarrow> 'r fconf \<Rightarrow> (nat \<Rightarrow> 'r option) \<Rightarrow> bool" where
  "fpu_inv clean k v \<longleftrightarrow> owner_ok (fst k) (snd k) \<and> cur_ok (fst k) v \<and> regs_ok clean (snd k) v"

lemma owner_okD:
  assumes "owner_ok cur s" and "c < NR_CPUS"
  shows "fpu_owner s c = Some p \<Longrightarrow> cur c = Some p" and "\<not> cr0_ts s c \<Longrightarrow> fpu_owner s c = cur c"
  using assms unfolding owner_ok_def by blast+

lemma owner_okI:
  assumes "\<And>c p. c < NR_CPUS \<Longrightarrow> fpu_owner s c = Some p \<Longrightarrow> cur c = Some p" and "\<And>c. c < NR_CPUS \<Longrightarrow> \<not> cr0_ts s c \<Longrightarrow> fpu_owner s c = cur c"
  shows "owner_ok cur s"
  using assms unfolding owner_ok_def by blast

lemma cur_okD: "cur_ok cur v \<Longrightarrow> c < NR_CPUS \<Longrightarrow> d < NR_CPUS \<Longrightarrow> cur c = Some p \<Longrightarrow> cur d = Some p \<Longrightarrow> d = c"
  unfolding cur_ok_def by blast

lemma cur_ok_live: "cur_ok cur v \<Longrightarrow> c < NR_CPUS \<Longrightarrow> cur c = Some p \<Longrightarrow> v p \<noteq> None"
  unfolding cur_ok_def by blast

lemma cur_okI:
  assumes "\<And>c p. c < NR_CPUS \<Longrightarrow> cur c = Some p \<Longrightarrow> v p \<noteq> None" and "\<And>c d p. c < NR_CPUS \<Longrightarrow> d < NR_CPUS \<Longrightarrow> cur c = Some p \<Longrightarrow> cur d = Some p \<Longrightarrow> d = c"
  shows "cur_ok cur v"
  using assms unfolding cur_ok_def by blast

lemma regs_okD:
  assumes "regs_ok clean s v" and "v p = Some x"
  shows "c < NR_CPUS \<Longrightarrow> fpu_owner s c = Some p \<Longrightarrow> fx_hw s c = x"
    and "(\<And>c. c < NR_CPUS \<Longrightarrow> fpu_owner s c \<noteq> Some p) \<Longrightarrow> (if fpu_used s p then fpu_state s p else clean) = x"
  using assms unfolding regs_ok_def by blast+

lemma regs_okI:
  assumes "\<And>p x c. v p = Some x \<Longrightarrow> c < NR_CPUS \<Longrightarrow> fpu_owner s c = Some p \<Longrightarrow> fx_hw s c = x"
    and "\<And>p x. v p = Some x \<Longrightarrow> (\<And>c. c < NR_CPUS \<Longrightarrow> fpu_owner s c \<noteq> Some p) \<Longrightarrow> (if fpu_used s p then fpu_state s p else clean) = x"
  shows "regs_ok clean s v"
  using assms unfolding regs_ok_def by blast

lemma regs_clts: "regs_ok clean (s\<lparr>cr0_ts := f\<rparr>) v = regs_ok clean s v" "regs_ok clean (fpu_clts c s) v = regs_ok clean s v"
  by (simp_all add: regs_ok_def fpu_clts_def)

lemma fpu_ready_inv:
  assumes inv: "fpu_inv clean (cur, s) v" and c: "c < NR_CPUS" and p: "cur c = Some p"
  defines "t \<equiv> fpu_ready clean c (cur, s)"
  shows "fpu_inv clean (cur, t) v" and "fpu_owner t c = Some p" and "\<not> cr0_ts t c"
proof -
  have own: "owner_ok cur s" and cu: "cur_ok cur v" and reg: "regs_ok clean s v" using inv by (auto simp: fpu_inv_def)
  have o: "fpu_owner s c = None \<or> fpu_owner s c = Some p" using own c p by (cases "fpu_owner s c") (auto dest: owner_okD(1) [OF own c])
  consider "\<not> cr0_ts s c" | "cr0_ts s c" "fpu_owner s c = Some p" | "cr0_ts s c" "fpu_owner s c = None" using o by (cases "cr0_ts s c") auto
  then have t: "t = s \<and> \<not> cr0_ts s c \<and> fpu_owner s c = Some p \<or> t = fpu_clts c s \<and> fpu_owner s c = Some p \<or>
      fpu_owner s c = None \<and> t = s\<lparr>cr0_ts := (cr0_ts s)(c := False), fx_hw := (fx_hw s)(c := (if fpu_used s p then fpu_state s p else clean)),
        fpu_used := (fpu_used s)(p := True), fpu_owner := (fpu_owner s)(c := Some p)\<rparr>"
  proof cases
    case 1
    then show ?thesis using owner_okD(2) [OF own c] p by (simp add: t_def fpu_ready_def)
  next
    case 2
    then show ?thesis by (simp add: t_def fpu_ready_def fpu_nm_def p fpu_clts_def Let_def)
  next
    case 3
    then show ?thesis by (auto simp: t_def fpu_ready_def fpu_nm_def p fpu_clts_def fxrstor_def fpu_hw_init_def Let_def fun_eq_iff intro!: fpu.equality)
  qed
  have "owner_ok cur t"
    by (rule owner_okI) (use t p in \<open>auto simp: fpu_clts_def split: if_splits dest: owner_okD [OF own]\<close>)
  moreover have "regs_ok clean t v"
  proof -
    have no: "fpu_owner s d \<noteq> Some p" if "fpu_owner s c = None" "d < NR_CPUS" for d
      using owner_okD(1) [OF own that(2)] cur_okD [OF cu c that(2) p] that(1) by auto
    have "regs_ok clean (s\<lparr>cr0_ts := (cr0_ts s)(c := False), fx_hw := (fx_hw s)(c := (if fpu_used s p then fpu_state s p else clean)),
        fpu_used := (fpu_used s)(p := True), fpu_owner := (fpu_owner s)(c := Some p)\<rparr>) v" (is "regs_ok _ ?t _") if n: "fpu_owner s c = None"
    proof (rule regs_okI)
      fix q x
      assume q: "v q = Some x"
      show "fx_hw ?t d = x" if "d < NR_CPUS" "fpu_owner ?t d = Some q" for d
        using regs_okD(1) [OF reg q that(1)] regs_okD(2) [OF reg q] no [OF n] that by (auto split: if_splits)
      assume no_q: "\<And>d. d < NR_CPUS \<Longrightarrow> fpu_owner ?t d \<noteq> Some q"
      have "q \<noteq> p" using no_q [OF c] by simp
      moreover have "fpu_owner s d \<noteq> Some q" if "d < NR_CPUS" for d using no_q [OF that] n by (cases "d = c") auto
      ultimately show "(if fpu_used ?t q then fpu_state ?t q else clean) = x" using regs_okD(2) [OF reg q] by (simp split: if_splits)
    qed
    with t reg show ?thesis by (elim disjE conjE) (simp_all only: regs_clts)
  qed
  ultimately show "fpu_inv clean (cur, t) v" using cu by (simp add: fpu_inv_def)
  show "fpu_owner t c = Some p" "\<not> cr0_ts t c" using t by (auto simp: fpu_clts_def)
qed

lemma switch_inv:
  assumes inv: "fpu_inv clean (cur, s) v" and c: "c < NR_CPUS" and p: "cur c = Some p \<or> cur c = None \<and> (\<forall>d < NR_CPUS. fpu_owner s d \<noteq> Some p)"
  shows "owner_ok (cur(c := None)) (fpu_switch_away c (Some p) s)" and "regs_ok clean (fpu_switch_away c (Some p) s) v"
    and "fpu_owner (fpu_switch_away c (Some p) s) c = None" and "cr0_ts (fpu_switch_away c (Some p) s) c"
proof -
  let ?t = "fpu_switch_away c (Some p) s"
  have own: "owner_ok cur s" and cu: "cur_ok cur v" and reg: "regs_ok clean s v" using inv by (auto simp: fpu_inv_def)
  have none: "fpu_owner s c = None \<or> fpu_owner s c = Some p" using own c p by (cases "fpu_owner s c") (auto dest: owner_okD(1) [OF own c])
  then show "fpu_owner ?t c = None" "cr0_ts ?t c" by (auto simp: fpu_switch_away_def Let_def)
  show "owner_ok (cur(c := None)) ?t"
    by (rule owner_okI) (use none in \<open>auto simp: fpu_ops split: if_splits dest: owner_okD [OF own]\<close>)
  show "regs_ok clean ?t v"
  proof (cases "fpu_owner s c = Some p")
    case True
    have one: "d = c" if "fpu_owner s d = Some p" "d < NR_CPUS" for d
      using owner_okD(1) [OF own that(2,1)] owner_okD(1) [OF own c True] cur_okD [OF cu c that(2)] by blast
    have t: "?t = s\<lparr>cr0_ts := (cr0_ts s)(c := True), fpu_state := (fpu_state s)(p := fx_hw s c), fpu_used := (fpu_used s)(p := True), fpu_owner := (fpu_owner s)(c := None)\<rparr>"
      using True by (simp add: fpu_ops)
    show ?thesis
    proof (rule regs_okI)
      fix q x
      assume q: "v q = Some x"
      show "fx_hw ?t d = x" if "d < NR_CPUS" "fpu_owner ?t d = Some q" for d
        using regs_okD(1) [OF reg q that(1)] that(2) by (simp add: t split: if_splits)
      assume no_q: "\<And>d. d < NR_CPUS \<Longrightarrow> fpu_owner ?t d \<noteq> Some q"
      show "(if fpu_used ?t q then fpu_state ?t q else clean) = x"
      proof (cases "q = p")
        case True
        then show ?thesis using regs_okD(1) [OF reg q c] \<open>fpu_owner s c = Some p\<close> by (simp add: t)
      next
        case False
        have "fpu_owner s d \<noteq> Some q" if "d < NR_CPUS" for d
          using no_q [OF that] False \<open>fpu_owner s c = Some p\<close> by (cases "d = c") (auto simp: t)
        then show ?thesis using regs_okD(2) [OF reg q] False by (simp add: t split: if_splits)
      qed
    qed
  next
    case False
    then have "?t = s\<lparr>cr0_ts := (cr0_ts s)(c := True)\<rparr>" by (simp add: fpu_switch_away_def)
    then show ?thesis using reg by (simp add: regs_clts)
  qed
qed

lemma fpu_fork_inv:
  assumes inv: "fpu_inv clean (cur, s) v" and c: "c < NR_CPUS" and p: "cur c = Some p" and ch: "\<And>d. d < NR_CPUS \<Longrightarrow> cur d \<noteq> Some q"
  shows "fpu_inv clean (cur, fpu_fork c q p s) (v(q := v p))"
proof -
  have own: "owner_ok cur s" and cu: "cur_ok cur v" and reg: "regs_ok clean s v" using inv by (auto simp: fpu_inv_def)
  let ?t = "fpu_fork c q p s"
  have ow: "fpu_owner ?t = fpu_owner s" "fx_hw ?t = fx_hw s" by (simp_all add: fpu_ops)
  have noq: "fpu_owner s d \<noteq> Some q" if "d < NR_CPUS" for d using owner_okD(1) [OF own that] ch [OF that] by blast
  have qp: "q \<noteq> p" using ch [OF c] p by blast
  have "owner_ok cur ?t"
    by (rule owner_okI) (use p in \<open>auto simp: ow fpu_ops split: if_splits dest: owner_okD [OF own]\<close>)
  moreover have "cur_ok cur (v(q := v p))"
    by (rule cur_okI) (use ch in \<open>auto dest: cur_okD [OF cu] cur_ok_live [OF cu]\<close>)
  moreover have "regs_ok clean ?t (v(q := v p))"
  proof (rule regs_okI)
    fix r x
    assume r: "(v(q := v p)) r = Some x"
    show "fx_hw ?t d = x" if "d < NR_CPUS" "fpu_owner ?t d = Some r" for d
      using regs_okD(1) [OF reg _ that(1)] r that noq [OF that(1)] by (auto simp: ow split: if_splits)
    assume no_r: "\<And>d. d < NR_CPUS \<Longrightarrow> fpu_owner ?t d \<noteq> Some r"
    show "(if fpu_used ?t r then fpu_state ?t r else clean) = x"
    proof (cases "r = q")
      case True
      then have vp: "v p = Some x" using r by simp
      have one: "fpu_owner s d \<noteq> Some p" if "fpu_owner s c \<noteq> Some p" "d < NR_CPUS" for d
        using owner_okD(1) [OF own that(2)] cur_okD [OF cu c that(2) p] that by blast
      show ?thesis using regs_okD(1) [OF reg vp c] regs_okD(2) [OF reg vp] one True qp
        by (auto simp: fpu_ops split: if_splits)
    next
      case False
      then have vr: "v r = Some x" using r by simp
      have "r \<noteq> p \<or> fpu_owner s c \<noteq> Some p" using no_r [OF c] by (auto simp: ow)
      then show ?thesis using regs_okD(2) [OF reg vr] no_r False qp by (auto simp: ow) (auto simp: fpu_ops split: if_splits)
    qed
  qed
  ultimately show ?thesis by (simp add: fpu_inv_def)
qed

lemma owner_upd: "owner_ok cur (s\<lparr>fx_hw := f\<rparr>) = owner_ok cur s" "owner_ok cur (s\<lparr>fpu_used := u\<rparr>) = owner_ok cur s"
  by (simp_all add: owner_ok_def)

lemma fpu_op_inv:
  assumes inv: "fpu_inv clean (cur, s) v" and c: "c < NR_CPUS" and p: "cur c = Some p" and o: "fpu_owner s c = Some p"
  shows "fpu_inv clean (cur, s\<lparr>fx_hw := (fx_hw s)(c := g (fx_hw s c))\<rparr>) (v(p := map_option g (v p)))"
proof -
  have own: "owner_ok cur s" and cu: "cur_ok cur v" and reg: "regs_ok clean s v" using inv by (auto simp: fpu_inv_def)
  let ?t = "s\<lparr>fx_hw := (fx_hw s)(c := g (fx_hw s c))\<rparr>" and ?v = "v(p := map_option g (v p))"
  have "owner_ok cur ?t" using own by (simp add: owner_upd)
  moreover have "cur_ok cur ?v" by (rule cur_okI) (auto dest: cur_okD [OF cu] cur_ok_live [OF cu])
  moreover have "regs_ok clean ?t ?v"
  proof (rule regs_okI)
    fix r x
    assume r: "?v r = Some x"
    show "fx_hw ?t d = x" if d: "d < NR_CPUS" "fpu_owner ?t d = Some r" for d
    proof (cases "r = p")
      case True
      then obtain y where y: "v p = Some y" "x = g y" using r by auto
      have "d = c" using cur_okD [OF cu c d(1) p] owner_okD(1) [OF own d(1)] d(2) True by simp
      then show ?thesis using regs_okD(1) [OF reg y(1) c o] y(2) by simp
    next
      case False
      then show ?thesis using regs_okD(1) [OF reg _ d(1), of r x] r d(2) o by auto
    qed
    assume no_r: "\<And>d. d < NR_CPUS \<Longrightarrow> fpu_owner ?t d \<noteq> Some r"
    then have "r \<noteq> p" using c o by auto
    then show "(if fpu_used ?t r then fpu_state ?t r else clean) = x" using regs_okD(2) [OF reg, of r x] r no_r by (simp split: if_splits)
  qed
  ultimately show ?thesis by (simp add: fpu_inv_def)
qed

lemma fpu_exit_inv:
  assumes inv: "fpu_inv clean (cur, s) v" and c: "c < NR_CPUS" and p: "cur c = Some p"
  shows "fpu_inv clean (cur(c := None), fpu_switch_away c (Some p) (fpu_drop p s)) (v(p := None))"
proof -
  have own: "owner_ok cur s" and cu: "cur_ok cur v" and reg: "regs_ok clean s v" using inv by (auto simp: fpu_inv_def)
  let ?t = "fpu_switch_away c (Some p) (fpu_drop p s)"
  have t: "?t = s\<lparr>fpu_owner := (\<lambda>i. if i < NR_CPUS \<and> fpu_owner s i = Some p then None else fpu_owner s i), cr0_ts := (cr0_ts s)(c := True)\<rparr>"
    using c by (simp add: fpu_drop_def fpu_switch_away_def Let_def)
  have one: "d = c" if "d < NR_CPUS" "cur d = Some p" for d using cur_okD [OF cu c that(1) p that(2)] .
  have "owner_ok (cur(c := None)) ?t"
  proof (rule owner_okI)
    fix d q
    assume d: "d < NR_CPUS" "fpu_owner ?t d = Some q"
    then have "fpu_owner s d = Some q" "q \<noteq> p" by (auto simp: t split: if_splits)
    with owner_okD(1) [OF own d(1)] p show "(cur(c := None)) d = Some q" by auto
  next
    fix d
    assume d: "d < NR_CPUS" "\<not> cr0_ts ?t d"
    then have dc: "d \<noteq> c" "\<not> cr0_ts s d" by (auto simp: t split: if_splits)
    have "fpu_owner s d = cur d" using owner_okD(2) [OF own d(1) dc(2)] .
    then show "fpu_owner ?t d = (cur(c := None)) d" using one [OF d(1)] dc(1) by (auto simp: t)
  qed
  moreover have "cur_ok (cur(c := None)) (v(p := None))"
  proof (rule cur_okI)
    fix d q
    assume d: "d < NR_CPUS" "(cur(c := None)) d = Some q"
    then have "cur d = Some q" "d \<noteq> c" by (auto split: if_splits)
    with one [OF d(1)] cur_ok_live [OF cu d(1)] show "(v(p := None)) q \<noteq> None" by auto
  qed (auto split: if_splits dest: cur_okD [OF cu])
  moreover have "regs_ok clean ?t (v(p := None))"
  proof (rule regs_okI)
    fix r x
    assume "(v(p := None)) r = Some x"
    then have r: "r \<noteq> p" "v r = Some x" by (auto split: if_splits)
    show "fx_hw ?t d = x" if d: "d < NR_CPUS" "fpu_owner ?t d = Some r" for d
      using regs_okD(1) [OF reg r(2) d(1)] d(2) by (simp add: t split: if_splits)
    assume no_r: "\<And>d. d < NR_CPUS \<Longrightarrow> fpu_owner ?t d \<noteq> Some r"
    have "fpu_owner s d \<noteq> Some r" if "d < NR_CPUS" for d using no_r [OF that] r(1) that by (auto simp: t)
    then show "(if fpu_used ?t r then fpu_state ?t r else clean) = x" using regs_okD(2) [OF reg r(2)] by (simp add: t split: if_splits)
  qed
  ultimately show ?thesis by (simp add: fpu_inv_def)
qed

lemma fpu_new_inv:
  assumes inv: "fpu_inv clean (cur, s) v" and q: "\<And>d. d < NR_CPUS \<Longrightarrow> cur d \<noteq> Some q"
  shows "fpu_inv clean (cur, s\<lparr>fpu_used := (fpu_used s)(q := False)\<rparr>) (v(q := Some clean))"
proof -
  have own: "owner_ok cur s" and cu: "cur_ok cur v" and reg: "regs_ok clean s v" using inv by (auto simp: fpu_inv_def)
  let ?t = "s\<lparr>fpu_used := (fpu_used s)(q := False)\<rparr>"
  have no: "fpu_owner s d \<noteq> Some q" if "d < NR_CPUS" for d using owner_okD(1) [OF own that] q [OF that] by blast
  have "owner_ok cur ?t" using own by (simp add: owner_upd)
  moreover have "cur_ok cur (v(q := Some clean))" by (rule cur_okI) (auto dest: cur_okD [OF cu] cur_ok_live [OF cu])
  moreover have "regs_ok clean ?t (v(q := Some clean))"
  proof (rule regs_okI)
    fix r x
    assume r: "(v(q := Some clean)) r = Some x"
    show "fx_hw ?t d = x" if d: "d < NR_CPUS" "fpu_owner ?t d = Some r" for d
      using regs_okD(1) [OF reg _ d(1), of r x] r d(2) no [OF d(1)] by (auto split: if_splits)
    assume "\<And>d. d < NR_CPUS \<Longrightarrow> fpu_owner ?t d \<noteq> Some r"
    then show "(if fpu_used ?t r then fpu_state ?t r else clean) = x" using regs_okD(2) [OF reg, of r x] r by (auto split: if_splits)
  qed
  ultimately show ?thesis by (simp add: fpu_inv_def)
qed

lemma fpu_switch_inv:
  assumes inv: "fpu_inv clean (cur, s) v" and c: "c < NR_CPUS"
  shows "fpu_inv clean (cur(c := None), fpu_switch_away c (cur c) s) v"
    and "cur c = None \<Longrightarrow> v q \<noteq> None \<Longrightarrow> (\<And>d. d < NR_CPUS \<Longrightarrow> cur d \<noteq> Some q) \<Longrightarrow> fpu_inv clean (cur(c := Some q), fpu_switch_away c (Some q) s) v"
proof -
  have own: "owner_ok cur s" and cu: "cur_ok cur v" and reg: "regs_ok clean s v" using inv by (auto simp: fpu_inv_def)
  have cu1: "cur_ok (cur(c := None)) v" by (rule cur_okI) (auto split: if_splits dest: cur_okD [OF cu] cur_ok_live [OF cu])
  show "fpu_inv clean (cur(c := None), fpu_switch_away c (cur c) s) v"
  proof (cases "cur c")
    case None
    have t: "fpu_switch_away c None s = s\<lparr>cr0_ts := (cr0_ts s)(c := True)\<rparr>" by (simp add: fpu_switch_away_def)
    have "owner_ok (cur(c := None)) (s\<lparr>cr0_ts := (cr0_ts s)(c := True)\<rparr>)"
      by (rule owner_okI) (use None in \<open>auto split: if_splits dest: owner_okD [OF own]\<close>)
    with cu1 reg show ?thesis by (simp add: None t fpu_inv_def regs_clts)
  next
    case (Some p)
    then show ?thesis using switch_inv(1,2) [OF inv c, of p] cu1 by (simp add: fpu_inv_def)
  qed
  assume a: "cur c = None" "v q \<noteq> None" and q: "\<And>d. d < NR_CPUS \<Longrightarrow> cur d \<noteq> Some q"
  have no: "\<forall>d < NR_CPUS. fpu_owner s d \<noteq> Some q" using owner_okD(1) [OF own] q by blast
  let ?t = "fpu_switch_away c (Some q) s"
  have "cur c = Some q \<or> cur c = None \<and> (\<forall>d < NR_CPUS. fpu_owner s d \<noteq> Some q)" using a(1) no by simp
  note w = switch_inv [OF inv c this]
  have "owner_ok (cur(c := Some q)) ?t"
  proof (rule owner_okI)
    fix d
    assume d: "d < NR_CPUS"
    show "(cur(c := Some q)) d = Some r" if "fpu_owner ?t d = Some r" for r
      using owner_okD(1) [OF w(1) d that] w(3) that by (auto split: if_splits)
    show "fpu_owner ?t d = (cur(c := Some q)) d" if "\<not> cr0_ts ?t d"
      using owner_okD(2) [OF w(1) d that] w(4) that by auto
  qed
  moreover have "cur_ok (cur(c := Some q)) v"
    by (rule cur_okI) (use a q in \<open>auto split: if_splits dest: cur_okD [OF cu] cur_ok_live [OF cu]\<close>)
  ultimately show "fpu_inv clean (cur(c := Some q), ?t) v" using w(2) by (simp add: fpu_inv_def)
qed

lemma fpu_event_inv:
  assumes inv: "fpu_inv clean k v" and e: "fev_ok e (fst k) v"
  shows "fpu_inv clean (fpu_event clean e k) (priv_event clean e (fst k) v)"
proof -
  obtain cur s where k: "k = (cur, s)" by fastforce
  note inv = inv [unfolded k] and e = e [unfolded k fst_conv]
  show ?thesis
  proof (cases e)
    case (FOp c g)
    then obtain p where p: "c < NR_CPUS" "cur c = Some p" using e by auto
    note r = fpu_ready_inv [OF inv p]
    show ?thesis using fpu_op_inv [OF r(1) p r(2), of g] p(2) by (simp add: FOp k Let_def)
  next
    case (FSched c)
    then show ?thesis using fpu_switch_inv(1) [OF inv] e by (simp add: k)
  next
    case (FDispatch c q)
    then show ?thesis using fpu_switch_inv(2) [OF inv, of c q] e by (simp add: k)
  next
    case (FFork c q)
    then show ?thesis using fpu_fork_inv [OF inv, of c _ q] inv e by (auto simp: k split: option.splits)
  next
    case (FExit c)
    have "cur(c := None) = cur" if "cur c = None" using that by auto
    then show ?thesis using fpu_exit_inv [OF inv, of c] inv e by (auto simp: k FExit split: option.splits)
  next
    case (FNew q)
    then show ?thesis using fpu_new_inv [OF inv, of q] e by (simp add: k)
  next
    case (FExec c)
    then show ?thesis using e by simp
  qed
qed

lemma fpu_go_inv: "fpu_go clean es k v = Some (k', v') \<Longrightarrow> fpu_inv clean k v \<Longrightarrow> fpu_inv clean k' v'"
proof (induction es arbitrary: k v)
  case (Cons e es)
  then have e: "fev_ok e (fst k) v" "fpu_go clean es (fpu_event clean e k) (priv_event clean e (fst k) v) = Some (k', v')"
    by (simp_all split: if_splits)
  show ?case by (rule Cons.IH [OF e(2) fpu_event_inv [OF Cons.prems(2) e(1)]])
qed simp

lemma fpu_seen_priv:
  assumes inv: "fpu_inv clean (cur, s) v" and c: "c < NR_CPUS" and p: "cur c = Some p"
  shows "v p = Some (fpu_seen clean c (cur, s))"
proof -
  note r = fpu_ready_inv [OF inv c p]
  have cu: "cur_ok cur v" and reg: "regs_ok clean (fpu_ready clean c (cur, s)) v" using r(1) by (auto simp: fpu_inv_def)
  obtain x where x: "v p = Some x" using cur_ok_live [OF cu c p] by blast
  from regs_okD(1) [OF reg x c r(2)] show ?thesis by (simp add: fpu_seen_def x)
qed

section \<open>Properties\<close>




end
