(* ===== verification/Life.thy ===== *)
theory Life
  imports Sysfile Fpu
begin

text \<open>
  The life of a process, the rest of src/arch/x86/kernel/proc.c and the system calls of sysproc.c but \<open>execve\<close>: fork, exit,
  kernel threads and the requests of \<open>kthreadd\<close>. The record \<open>kernel\<close> adds to the state of the file system the
  floating-point unit and the list of requests. \<open>kpgdir\<close> is the page directory of the kernel and \<open>sy\<close> holds the addresses of
  the kernel's own code.
\<close>

section \<open>State\<close>

text \<open>A request for a kernel thread, at its address on the heap; the list runs through the requests.\<close>

record kthread_create_info =
  ki_threadfn :: u32
  ki_arg :: u32
  ki_name :: string
  ki_result :: "nat option"
  ki_done :: bool

datatype knode = KHead | KInfo u32

record kernel = vfs +
  kfpu :: "u8 list fpu"
  kinfo :: "u32 \<Rightarrow> kthread_create_info"
  kthread_create_list :: "knode list_heads"

definition upd_fpu :: "(u8 list fpu \<Rightarrow> u8 list fpu) \<Rightarrow> 'z kernel_scheme \<Rightarrow> 'z kernel_scheme" where
  "upd_fpu f s = s\<lparr>kfpu := f (kfpu s)\<rparr>"

definition proc_name_set :: "string \<Rightarrow> string" where
  "proc_name_set src = take (NNAME - 1) src"

section \<open>Release\<close>

definition proc_drop_mm :: "nat \<Rightarrow> nat \<Rightarrow> 'z ipc_scheme \<Rightarrow> 'z ipc_scheme kres" where
  "proc_drop_mm c p s =
     (if mm (ptab s p) = None then Inr s
      else kbind (shm_detach_all p s) (\<lambda>s1.
        let s2 = (if get_user_pgdir c s1 = proc_pagetable (ptab s1 p) then set_user_pgdir c 0 s1 else s1)
        in case mm_destroy (mm (ptab s1 p)) (heap_of s2) of
             Inl e \<Rightarrow> Inl e
           | Inr h \<Rightarrow> Inr (set_heap h (upd_proc p (\<lambda>x. x\<lparr>mm := None\<rparr>) s2))))"

definition proc_free :: "nat \<Rightarrow> nat \<Rightarrow> 'z kernel_scheme \<Rightarrow> 'z kernel_scheme kres" where
  "proc_free c p s =
     (if state (ptab s p) = UNUSED then Inr s
      else kbind (proc_drop_mm c p (upd_fpu (fpu_drop p) s)) (\<lambda>s1.
        kbind (kthread_reap p s1) (\<lambda>s2.
          Inr (upd_proc p (\<lambda>x. x\<lparr>state := UNUSED, pid := 0, parent := None, kframe := None, xstate := 0, entry := 0,
                 entry_arg := 0, p_name := []\<rparr>)
               (task_queue_unlink_locked p (upd_proc p (\<lambda>x. x\<lparr>ctx := zero_context\<rparr>) s2))))))"

text \<open>
  The end of a process, up to the switch to the scheduler, from which it does not return.
\<close>

definition exit_with_xstate :: "nat \<Rightarrow> nat \<Rightarrow> int \<Rightarrow> 'z kernel_scheme \<Rightarrow> 'z kernel_scheme kres" where
  "exit_with_xstate c p xst s =
     (if initproc s = Some p then Inl ''init exiting''
      else kbind (signal_exit_cleanup p (signal_parent_child_exit p s)) (\<lambda>s1.
        kbind (fd_closeall p s1) (\<lambda>s2.
          kbind (case cwd (ptab s2 p) of
                   None \<Rightarrow> Inr s2
                 | Some ip \<Rightarrow> kbind (fs_iput ip s2) (\<lambda>t. Inr (upd_proc p (\<lambda>x. x\<lparr>cwd := None\<rparr>) t))) (\<lambda>s3.
            kbind (proc_drop_mm c p s3) (\<lambda>s4.
              exit_zombie p xst (upd_fpu (fpu_drop p) s4))))))"

definition exit_proc :: "nat \<Rightarrow> nat \<Rightarrow> int \<Rightarrow> 'z kernel_scheme \<Rightarrow> 'z kernel_scheme kres" where
  "exit_proc c p status s = exit_with_xstate c p (push_bit 8 (status AND 0xff)) s"

definition exit_signal :: "nat \<Rightarrow> nat \<Rightarrow> int \<Rightarrow> 'z kernel_scheme \<Rightarrow> 'z kernel_scheme kres" where
  "exit_signal c p sig s = exit_with_xstate c p ((if sig < 1 then 1 else sig) AND 0x7f) s"

section \<open>Fork\<close>

text \<open>A free process, cleared as \<open>proc_alloc\<close> does, with its part of the floating-point unit.\<close>

definition new_proc :: "'z kernel_scheme \<Rightarrow> (nat option \<times> 'z kernel_scheme) kres" where
  "new_proc s =
     kbind (proc_alloc s) (\<lambda>(r, s1).
       Inr (r, case r of None \<Rightarrow> s1 | Some q \<Rightarrow> upd_fpu (\<lambda>u. u\<lparr>fpu_used := (fpu_used u)(q := False)\<rparr>) s1))"

text \<open>The address space of the child \<open>q\<close>, up to the label \<open>bad\<close>: \<open>False\<close> when it cannot be made.\<close>

definition fork_mm :: "u32 \<Rightarrow> nat \<Rightarrow> nat \<Rightarrow> 'z ipc_scheme \<Rightarrow> (bool \<times> 'z ipc_scheme) kres" where
  "fork_mm kpgdir p q s =
     kbind (mm_create kpgdir (heap_of s)) (\<lambda>(mo, h).
       let s1 = upd_proc q (\<lambda>x. x\<lparr>mm := mo\<rparr>) (set_heap h s)
       in case mo of
            None \<Rightarrow> Inr (False, s1)
          | Some nm \<Rightarrow>
              kbind (uvmcopy (proc_pagetable (ptab s1 p)) (pgdir nm) (proc_task_size (ptab s1 p)) (kmem s1)) (\<lambda>(r, m).
                let s2 = s1\<lparr>kmem := m\<rparr>; x = ptab s2 p;
                    nm' = (case mm x of None \<Rightarrow> nm | Some pm \<Rightarrow>
                       nm\<lparr>user_base := user_base pm, task_size := proc_task_size x, mmap_base := mmap_base pm, stack_top := stack_top pm,
                         brk := proc_brk x, brk_start := proc_brk_start x\<rparr>)
                in if r < 0 then Inr (False, s2)
                   else kbind (shm_fork_fix q p (upd_proc q (\<lambda>y. vma_copy (y\<lparr>mm := Some nm'\<rparr>) x) s2)) (\<lambda>s3.
                     Inr (True, upd_proc q (\<lambda>y. y\<lparr>parent := Some p, p_name := proc_name_set (p_name x)\<rparr>) s3))))"

definition fork_copy :: "syms \<Rightarrow> u32 \<Rightarrow> nat \<Rightarrow> nat \<Rightarrow> trapframe \<Rightarrow> 'z kernel_scheme \<Rightarrow> (int \<times> 'z kernel_scheme) kres" where
  "fork_copy sy kpgdir c p tf s =
     (if proc_pagetable (ptab s p) = 0 then Inr (- 1, s)
      else kbind (new_proc s) (\<lambda>(r, s1).
        case r of
          None \<Rightarrow> Inr (- 1, s1)
        | Some q \<Rightarrow>
            kbind (fork_mm kpgdir p q s1) (\<lambda>(ok, s2).
              if \<not> ok then kbind (proc_free c q s2) (\<lambda>s3. Inr (- 1, s3))
              else case alloc_page (kmem s2) of
                     (None, m) \<Rightarrow> kbind (proc_free c q (s2\<lparr>kmem := m\<rparr>)) (\<lambda>s3. Inr (- 1, s3))
                   | (Some ks, m) \<Rightarrow>
                       let s3 = upd_proc q (\<lambda>x. x\<lparr>kstack := ks, kframe := Some (ks + KSTACKSIZE - sizeof_trapframe, tf\<lparr>tf_eax := 0\<rparr>)\<rparr>)
                                  (s2\<lparr>kmem := m\<rparr>)
                       in kbind (fd_copy q p s3) (\<lambda>s4.
                         let s5 = (case cwd (ptab s4 p) of None \<Rightarrow> s4
                                   | Some ip \<Rightarrow> upd_proc q (\<lambda>x. x\<lparr>cwd := Some ip\<rparr>) (fs_idup ip s4));
                             s6 = fork_user_ctx_init sy q (upd_fpu (fpu_fork c q p) (signal_fork q p s5));
                             s7 = upd_proc q (\<lambda>x. x\<lparr>state := RUNNABLE\<rparr>) s6
                         in kbind (task_queue_enqueue_locked q s7) (\<lambda>s8. Inr (pid (ptab s8 q), s8))))))"

section \<open>Kernel threads\<close>

definition kthread_create_sync :: "syms \<Rightarrow> nat \<Rightarrow> u32 \<Rightarrow> u32 \<Rightarrow> string option \<Rightarrow> nat option \<Rightarrow> 'z kernel_scheme \<Rightarrow> (nat option \<times> 'z kernel_scheme) kres" where
  "kthread_create_sync sy c fn arg name par s =
     kbind (new_proc s) (\<lambda>(r, s1).
       case r of
         None \<Rightarrow> Inr (None, s1)
       | Some q \<Rightarrow>
           (case alloc_page (kmem s1) of
              (None, m) \<Rightarrow> kbind (proc_free c q (s1\<lparr>kmem := m\<rparr>)) (\<lambda>s2. Inr (None, s2))
            | (Some ks, m) \<Rightarrow>
                let s2 = upd_proc q (\<lambda>x. x\<lparr>kstack := ks, entry := fn, entry_arg := arg,
                           p_name := (case name of None \<Rightarrow> p_name x | Some nm \<Rightarrow> proc_name_set nm),
                           parent := (case par of None \<Rightarrow> parent x | Some _ \<Rightarrow> par)\<rparr>) (s1\<lparr>kmem := m\<rparr>);
                    s3 = upd_proc q (\<lambda>x. x\<lparr>state := RUNNABLE\<rparr>) (kthread_ctx_init sy q s2)
                in kbind (task_queue_enqueue_locked q s3) (\<lambda>s4. Inr (Some q, s4))))"

text \<open>
  A thread made by \<open>kthreadd\<close>: the caller puts a request on the list and wakes \<open>kthreadd\<close>, then waits until the request is
  done. \<open>kthread_wait\<close> is one round of its loop, which tests and goes to sleep under the lock; \<open>Some r\<close> is the result.
\<close>

definition sizeof_kthread_create_info :: u32 where "sizeof_kthread_create_info = 280"

definition kthread_request :: "u32 \<Rightarrow> u32 \<Rightarrow> string option \<Rightarrow> 'z kernel_scheme \<Rightarrow> (u32 option \<times> 'z kernel_scheme) kres" where
  "kthread_request fn arg name s =
     kbind (do_kmalloc sizeof_kthread_create_info s) (\<lambda>(r, s1).
       case r of
         None \<Rightarrow> Inr (None, s1)
       | Some a \<Rightarrow>
           let i = \<lparr>ki_threadfn = fn, ki_arg = arg, ki_name = (case name of None \<Rightarrow> [] | Some nm \<Rightarrow> proc_name_set nm), ki_result = None, ki_done = False\<rparr>;
               s2 = s1\<lparr>kinfo := (kinfo s1)(a := i),
                       kthread_create_list := list_add_tail (KInfo a) KHead (INIT_LIST_HEAD (KInfo a) (kthread_create_list s1))\<rparr>
           in kbind (wakeup (Some ChKthreadList) s2) (\<lambda>s3. Inr (Some a, s3)))"

definition kthread_wait :: "nat \<Rightarrow> u32 \<Rightarrow> 'z kernel_scheme \<Rightarrow> (nat option option \<times> 'z kernel_scheme) kres" where
  "kthread_wait p a s =
     (if ki_done (kinfo s a) then kbind (do_kfree a s) (\<lambda>s1. Inr (Some (ki_result (kinfo s a)), s1))
      else Inr (None, upd_proc p (\<lambda>x. x\<lparr>chan := Some (ChInfo (unat a)), wakeup_tick := 0, state := SLEEPING\<rparr>) s))"

text \<open>
  The loop of \<open>kthreadd\<close>. With an empty list the lock is released before \<open>sleep\<close>, so that \<open>kthreadd_check\<close> and the sleep
  are two steps; \<open>kthreadd_serve\<close> takes the first request.
\<close>

definition kthreadd_check :: "'z kernel_scheme \<Rightarrow> bool" where
  "kthreadd_check s \<longleftrightarrow> list_empty KHead (kthread_create_list s)"

definition kthreadd_serve :: "syms \<Rightarrow> nat \<Rightarrow> 'z kernel_scheme \<Rightarrow> 'z kernel_scheme kres" where
  "kthreadd_serve sy c s =
     (case list_first KHead (kthread_create_list s) of
        KHead \<Rightarrow> Inr s
      | KInfo a \<Rightarrow>
          let i = kinfo s a; s1 = s\<lparr>kthread_create_list := list_del (KInfo a) (kthread_create_list s)\<rparr>
          in kbind (kthread_create_sync sy c (ki_threadfn i) (ki_arg i) (if ki_name i = [] then None else Some (ki_name i)) (kthreadd_task s1) s1) (\<lambda>(r, s2).
               wakeup (Some (ChInfo (unat a))) (s2\<lparr>kinfo := (kinfo s2)(a := (kinfo s2 a)\<lparr>ki_result := r, ki_done := True\<rparr>)\<rparr>)))"

definition kthreadd_sleep :: "nat \<Rightarrow> 'z kernel_scheme \<Rightarrow> 'z kernel_scheme kres" where
  "kthreadd_sleep kd s = sleep kd (Some ChKthreadList) s"

text \<open>\<open>kthread_create\<close>: the thread, or the address of the request to wait for.\<close>

definition kthread_create :: "syms \<Rightarrow> nat \<Rightarrow> u32 \<Rightarrow> u32 \<Rightarrow> string option \<Rightarrow> 'z kernel_scheme \<Rightarrow> ((nat option + u32 option) \<times> 'z kernel_scheme) kres" where
  "kthread_create sy c fn arg name s =
     (if kthreadd_task s \<noteq> None then kbind (kthread_request fn arg name s) (\<lambda>(r, s1). Inr (Inr r, s1))
      else kbind (kthread_create_sync sy c fn arg name (initproc s) s) (\<lambda>(r, s1). Inr (Inl r, s1)))"

text \<open>Start-up; \<open>sz\<close> is the size of a process structure, which is large enough for the fields of the record.\<close>

definition procinit :: "u32 \<Rightarrow> nat \<Rightarrow> 'z kernel_scheme \<Rightarrow> 'z kernel_scheme kres" where
  "procinit sz c s0 =
     (let s = s0\<lparr>rq := INIT_LIST_HEAD RunHead (rq s0), kthread_create_list := INIT_LIST_HEAD KHead (kthread_create_list s0)\<rparr>
      in case kcalloc (of_nat NPROC) sz (heap_of s) of
           Inl e \<Rightarrow> Inl e
         | Inr (None, h) \<Rightarrow> Inl ''procinit: out of memory''
         | Inr (Some a, h) \<Rightarrow>
             let s1 = (set_heap h s)\<lparr>ptab := (\<lambda>i. if i < NPROC then zero_proc else ptab s i),
                        rq := fold (\<lambda>i q. INIT_LIST_HEAD (ProcNode i) q) [0..<NPROC] (rq s)\<rparr>
             in Inr (upd_cpu c (\<lambda>x. x\<lparr>c_proc := Some 0\<rparr>)
                  (upd_proc 0 (\<lambda>x. x\<lparr>state := USED, parent := Some 0, p_name := ''swapper|idle''\<rparr>) s1)))"

section \<open>System calls\<close>

definition NSEC_PER_SEC :: u32 where "NSEC_PER_SEC = 1000000000"
definition NSEC_PER_TICK :: u32 where "NSEC_PER_TICK = NSEC_PER_SEC div TIMER_HZ"

text \<open>\<open>uint64\<close> is \<open>unsigned long\<close>, which has 32 bits in a 32-bit build.\<close>

definition timespec_to_ticks :: "u32 \<Rightarrow> u32 \<Rightarrow> u32" where
  "timespec_to_ticks tv_sec tv_nsec =
     (if tv_sec = 0 \<and> tv_nsec = 0 then 0
      else let t = tv_sec * TIMER_HZ + (tv_nsec + NSEC_PER_TICK - 1) div NSEC_PER_TICK
           in if t = 0 then 1 else if 0xffffffff < t then 0xffffffff else t)"

definition sys_getpid :: "nat \<Rightarrow> 'z kernel_scheme \<Rightarrow> int" where
  "sys_getpid p s = pid (ptab s p)"

definition sys_getcpu :: "nat \<Rightarrow> nat \<Rightarrow> trapframe \<Rightarrow> 'z kernel_scheme \<Rightarrow> (int \<times> 'z kernel_scheme) fres" where
  "sys_getcpu c p tf s =
     (let pd = proc_pagetable (ptab s p)
      in if pd = 0 then fret (- 1, s)
      else with_addr tf 0 (\<lambda>ucpu. with_addr tf 1 (\<lambda>unode.
        fbind (if ucpu \<noteq> 0 then Some (copyout c pd ucpu (le32 (of_nat c)) s) else fret (0, s)) (\<lambda>(r, s1).
          if r < 0 then fret (- 1, s1)
          else fbind (if unode \<noteq> 0 then Some (copyout c pd unode (le32 0) s1) else fret (0, s1)) (\<lambda>(r, s2).
            fret (if r < 0 then - 1 else 0, s2))))))"

definition sys_fork :: "syms \<Rightarrow> u32 \<Rightarrow> nat \<Rightarrow> nat \<Rightarrow> trapframe \<Rightarrow> 'z kernel_scheme \<Rightarrow> (int \<times> 'z kernel_scheme) fres" where
  "sys_fork sy kpgdir c p tf s = Some (fork_copy sy kpgdir c p tf s)"

definition set_brk :: "nat \<Rightarrow> u32 \<Rightarrow> 'z sched_scheme \<Rightarrow> 'z sched_scheme" where
  "set_brk p addr s = upd_proc p (\<lambda>x. x\<lparr>mm := map_option (\<lambda>m. m\<lparr>brk := addr\<rparr>) (mm x)\<rparr>) s"

definition sys_brk :: "nat \<Rightarrow> trapframe \<Rightarrow> 'z kernel_scheme \<Rightarrow> (int \<times> 'z kernel_scheme) fres" where
  "sys_brk p tf s =
     (let x = ptab s p; pd = proc_pagetable x; old = proc_brk x
      in if pd = 0 then fret (- 1, s)
      else with_addr tf 0 (\<lambda>addr.
        if addr < proc_brk_start x \<or> USERHEAP_TOP < addr then fret (sint old, s)
        else if old < addr then
          (if vma_overlaps_brk x old addr \<or> uvmalloc pd old addr = 0 then fret (sint old, s) else fret (sint addr, set_brk p addr s))
        else if addr < old then
          fbind (Some (uvmdealloc pd old addr (kmem s))) (\<lambda>(r, m).
            let s1 = s\<lparr>kmem := m\<rparr> in if r = 0 then fret (sint old, s1) else fret (sint addr, set_brk p addr s1))
        else fret (sint addr, set_brk p addr s)))"

definition sys_mmap2 :: "nat \<Rightarrow> trapframe \<Rightarrow> 'z kernel_scheme \<Rightarrow> (int \<times> 'z kernel_scheme) fres" where
  "sys_mmap2 p tf s =
     (if proc_pagetable (ptab s p) = 0 then fret (- 1, s)
      else with_addr tf 0 (\<lambda>addr. with_addr tf 1 (\<lambda>len. with_addr tf 2 (\<lambda>prot. with_addr tf 3 (\<lambda>flags. with_addr tf 4 (\<lambda>fd. with_addr tf 5 (\<lambda>pgoff.
        case do_mmap (ptab s p) addr len prot flags fd (kmem s) of (r, x) \<Rightarrow> fret (sint r, upd_proc p (\<lambda>_. x) s))))))))"

definition sys_munmap :: "nat \<Rightarrow> trapframe \<Rightarrow> 'z kernel_scheme \<Rightarrow> (int \<times> 'z kernel_scheme) fres" where
  "sys_munmap p tf s =
     (if proc_pagetable (ptab s p) = 0 then fret (- 1, s)
      else with_addr tf 0 (\<lambda>addr. with_addr tf 1 (\<lambda>len. Some (do_munmap p addr len s))))"

definition sys_waitpid :: "nat \<Rightarrow> nat \<Rightarrow> trapframe \<Rightarrow> 'z kernel_scheme \<Rightarrow> (pipe_out \<times> 'z kernel_scheme) fres" where
  "sys_waitpid c p tf s =
     (if proc_pagetable (ptab s p) = 0 then fret (PRet (- 1), s)
      else with_int tf 0 (\<lambda>n. with_int tf 2 (\<lambda>options.
        fbind (Some (wait_child n p s)) (\<lambda>(w, s1).
          case w of
            WNoKids \<Rightarrow> fret (PRet (- 1), s1)
          | WBlock fg \<Rightarrow> fbind (Some (sleep p (Some (ChProc p)) s1)) (\<lambda>s2. fret (PSleeps 0, s2))
          | WReaped f st \<Rightarrow> with_addr tf 1 (\<lambda>ustatus.
              if ustatus = 0 then fret (PRet f, s1)
              else fbind (Some (copyout c (proc_pagetable (ptab s1 p)) ustatus (le32 (word_of_int st)) s1)) (\<lambda>(r, s2).
                fret (PRet (if r < 0 then - 1 else f), s2)))))))"

definition sys_exit :: "nat \<Rightarrow> nat \<Rightarrow> trapframe \<Rightarrow> 'z kernel_scheme \<Rightarrow> 'z kernel_scheme fres" where
  "sys_exit c p tf s = with_int tf 0 (\<lambda>status. Some (exit_proc c p status s))"

text \<open>The part of \<open>sys_nanosleep\<close> after the process has slept.\<close>

definition nanosleep_rest :: "nat \<Rightarrow> nat \<Rightarrow> trapframe \<Rightarrow> 'z kernel_scheme \<Rightarrow> (pipe_out \<times> 'z kernel_scheme) fres" where
  "nanosleep_rest c p tf s = with_addr tf 1 (\<lambda>urem.
     if urem = 0 then fret (PRet 0, s)
     else fbind (Some (copyout c (proc_pagetable (ptab s p)) urem (le32 0 @ le32 0) s)) (\<lambda>(r, s1). fret (PRet (if r < 0 then - 1 else 0), s1)))"

definition sys_nanosleep :: "nat \<Rightarrow> nat \<Rightarrow> trapframe \<Rightarrow> 'z kernel_scheme \<Rightarrow> (pipe_out \<times> 'z kernel_scheme) fres" where
  "sys_nanosleep c p tf s =
     (if proc_pagetable (ptab s p) = 0 then fret (PRet (- 1), s)
      else with_addr tf 0 (\<lambda>ureq.
        if ureq = 0 then fret (PRet (- 1), s)
        else fbind (Some (copyin c (proc_pagetable (ptab s p)) ureq 8 s)) (\<lambda>(r, s1).
          case r of
            None \<Rightarrow> fret (PRet (- 1), s1)
          | Some bs \<Rightarrow>
              let sec = le_word (take 4 bs); nsec = le_word (drop 4 bs); n = timespec_to_ticks sec nsec
              in if NSEC_PER_SEC \<le> nsec then fret (PRet (- 1), s1)
              else case (if 0 < n then sleep_deadline p (ticks s1 + n) s1 else (False, s1)) of
                     (slept, s2) \<Rightarrow> if slept then fret (PSleeps 0, s2) else nanosleep_rest c p tf s2)))"

definition sys_shmget :: "trapframe \<Rightarrow> 'z kernel_scheme \<Rightarrow> (int \<times> 'z kernel_scheme) fres" where
  "sys_shmget tf s = with_int tf 0 (\<lambda>key. with_addr tf 1 (\<lambda>sz. with_addr tf 2 (\<lambda>shmflg. Some (do_shmget key sz shmflg s))))"

definition sys_shmat :: "nat \<Rightarrow> trapframe \<Rightarrow> 'z kernel_scheme \<Rightarrow> (int \<times> 'z kernel_scheme) fres" where
  "sys_shmat p tf s = with_int tf 0 (\<lambda>shmid. with_addr tf 1 (\<lambda>shmaddr. with_addr tf 2 (\<lambda>shmflg.
     fbind (Some (do_shmat p shmid shmaddr shmflg s)) (\<lambda>(r, s1). fret (sint r, s1)))))"

definition sys_shmdt :: "nat \<Rightarrow> trapframe \<Rightarrow> 'z kernel_scheme \<Rightarrow> (int \<times> 'z kernel_scheme) fres" where
  "sys_shmdt p tf s = with_addr tf 0 (\<lambda>shmaddr. Some (do_shmdt p shmaddr s))"

definition sys_shmctl :: "trapframe \<Rightarrow> 'z kernel_scheme \<Rightarrow> (int \<times> 'z kernel_scheme) fres" where
  "sys_shmctl tf s = with_int tf 0 (\<lambda>shmid. with_int tf 1 (\<lambda>cmd. with_addr tf 2 (\<lambda>buf. Some (do_shmctl shmid cmd s))))"

end
