(* ===== verification/Execve.thy ===== *)
theory Execve
  imports Life
begin

text \<open>
  The loading of programs, src/arch/x86/kernel/execve.c with the system call of sysproc.c: ELF files and flat binaries, the
  initial stack, and the switch to the new image. A program is the list of its bytes. The two programs that are linked
  into the kernel are the argument \<open>bins\<close>, a list of names with their bytes.
\<close>

section \<open>Constants and headers\<close>

definition EXEC_MAX_FILE :: u32 where "EXEC_MAX_FILE = USERHEAP_TOP - USERLOAD"
definition ELF_MAGIC :: u32 where "ELF_MAGIC = 0x464C457F"
definition ET_EXEC :: u32 where "ET_EXEC = 2"
definition EM_386 :: u32 where "EM_386 = 3"
definition ELF_PROG_LOAD :: u32 where "ELF_PROG_LOAD = 1"
definition ELF_PROG_FLAG_WRITE :: u32 where "ELF_PROG_FLAG_WRITE = 2"
definition AT_NULL :: u32 where "AT_NULL = 0"
definition MAXARG :: nat where "MAXARG = 32"
definition MAXENV :: nat where "MAXENV = 32"
definition SEG_UCODE :: u32 where "SEG_UCODE = 0x18"
definition SEG_UDATA :: u32 where "SEG_UDATA = 0x20"

text \<open>The little-endian fields at an offset of the file.\<close>

definition get32 :: "u8 list \<Rightarrow> nat \<Rightarrow> u32" where
  "get32 bs i = le_word (take 4 (drop i bs))"

definition get16 :: "u8 list \<Rightarrow> nat \<Rightarrow> u32" where
  "get16 bs i = ucast (bs ! i) OR push_bit 8 (ucast (bs ! (i + 1)))"

record elfhdr =
  eh_magic :: u32
  eh_type :: u32
  eh_machine :: u32
  eh_entry :: u32
  eh_phoff :: u32
  eh_phentsize :: u32
  eh_phnum :: u32

definition sizeof_elfhdr :: nat where "sizeof_elfhdr = 52"

definition elfhdr_of :: "u8 list \<Rightarrow> elfhdr" where
  "elfhdr_of bs = \<lparr>eh_magic = get32 bs 0, eh_type = get16 bs 16, eh_machine = get16 bs 18, eh_entry = get32 bs 24, eh_phoff = get32 bs 28,
     eh_phentsize = get16 bs 42, eh_phnum = get16 bs 44\<rparr>"

record proghdr =
  ph_type :: u32
  ph_off :: u32
  ph_vaddr :: u32
  ph_filesz :: u32
  ph_memsz :: u32
  ph_flags :: u32

definition sizeof_proghdr :: u32 where "sizeof_proghdr = 32"

definition proghdr_of :: "u8 list \<Rightarrow> nat \<Rightarrow> proghdr" where
  "proghdr_of bs i = \<lparr>ph_type = get32 bs i, ph_off = get32 bs (i + 4), ph_vaddr = get32 bs (i + 8), ph_filesz = get32 bs (i + 16),
     ph_memsz = get32 bs (i + 20), ph_flags = get32 bs (i + 24)\<rparr>"

definition is_elf :: "u8 list \<Rightarrow> bool" where
  "is_elf blob \<longleftrightarrow> sizeof_elfhdr \<le> length blob \<and> eh_magic (elfhdr_of blob) = ELF_MAGIC"

section \<open>Loading\<close>

text \<open>The loop over the program headers; the result is the new \<open>brk\<close>, or \<open>None\<close> for -1.\<close>

fun elf_segs :: "u32 \<Rightarrow> u8 list \<Rightarrow> proghdr list \<Rightarrow> u32 \<Rightarrow> pmm \<Rightarrow> (u32 option \<times> pmm) kres" where
  "elf_segs pd blob [] b m = Inr (Some b, m)"
| "elf_segs pd blob (ph # phs) b m =
     (let sz = of_nat (length blob); seg_end = ph_vaddr ph + ph_memsz ph;
          perm = (if ph_flags ph AND ELF_PROG_FLAG_WRITE \<noteq> 0 then PTE_P OR PTE_W else PTE_P)
      in if ph_type ph \<noteq> ELF_PROG_LOAD \<or> ph_memsz ph = 0 then elf_segs pd blob phs b m
      else if ph_memsz ph < ph_filesz ph then Inr (None, m)
      else if sz < ph_off ph \<or> sz - ph_off ph < ph_filesz ph then Inr (None, m)
      else if ph_vaddr ph < USERLOAD then Inr (None, m)
      else if seg_end < ph_vaddr ph \<or> USERHEAP_TOP < seg_end then Inr (None, m)
      else kbind (loaduvm_seg pd (ph_vaddr ph) (take (unat (ph_filesz ph)) (drop (unat (ph_off ph)) blob)) (ph_memsz ph) perm m) (\<lambda>(r, m1).
        if r < 0 then Inr (None, m1) else elf_segs pd blob phs (if b < seg_end then seg_end else b) m1))"

text \<open>The entry point and the end of the segments.\<close>

definition exec_load_elf :: "u32 \<Rightarrow> u8 list \<Rightarrow> pmm \<Rightarrow> ((u32 \<times> u32) option \<times> pmm) kres" where
  "exec_load_elf pd blob m =
     (let eh = elfhdr_of blob; sz = of_nat (length blob); ph_end = eh_phoff eh + eh_phnum eh * sizeof_proghdr
      in if eh_magic eh \<noteq> ELF_MAGIC \<or> eh_type eh \<noteq> ET_EXEC \<or> eh_machine eh \<noteq> EM_386 then Inr (None, m)
      else if eh_phentsize eh \<noteq> sizeof_proghdr \<or> eh_phnum eh = 0 then Inr (None, m)
      else if sz \<le> eh_phoff eh \<or> sz < ph_end \<or> ph_end < eh_phoff eh then Inr (None, m)
      else kbind (elf_segs pd blob (map (\<lambda>i. proghdr_of blob (unat (eh_phoff eh) + 32 * i)) [0..<unat (eh_phnum eh)]) USERLOAD m) (\<lambda>(b, m1).
        case b of
          None \<Rightarrow> Inr (None, m1)
        | Some bk \<Rightarrow> if eh_entry eh < USERLOAD \<or> USERHEAP_TOP \<le> eh_entry eh then Inr (None, m1) else Inr (Some (eh_entry eh, bk), m1)))"

fun stack_pages :: "u32 \<Rightarrow> u32 list \<Rightarrow> pmm \<Rightarrow> (int \<times> pmm) kres" where
  "stack_pages pd [] m = Inr (0, m)"
| "stack_pages pd (va # vas) m =
     kbind (map_new_page pd va [] (PTE_W OR PTE_P) m) (\<lambda>(r, m1). if r = None then Inr (- 1, m1) else stack_pages pd vas m1)"

definition exec_map_stack :: "u32 \<Rightarrow> pmm \<Rightarrow> (int \<times> pmm) kres" where
  "exec_map_stack pd m = stack_pages pd (page_range USERSTACK_BOTTOM USERSTACK) m"

section \<open>The initial stack\<close>

text \<open>The strings, from high to low addresses; the result is the stack pointer and the addresses of the strings.\<close>

fun push_strings :: "nat \<Rightarrow> u32 \<Rightarrow> u8 list list \<Rightarrow> u32 \<Rightarrow> 'z ipc_scheme \<Rightarrow> ((u32 \<times> u32 list) option \<times> 'z ipc_scheme) kres" where
  "push_strings c pd [] sp s = Inr (Some (sp, []), s)"
| "push_strings c pd (x # xs) sp s =
     (let len = of_nat (length x) + 1 :: u32
      in if of_nat NNAME < len \<or> sp < USERSTACK_BOTTOM + len then Inr (None, s)
      else kbind (copyout c pd (sp - len) (x @ [0]) s) (\<lambda>(r, s1).
        if r < 0 then Inr (None, s1)
        else kbind (push_strings c pd xs (sp - len) s1) (\<lambda>(q, s2).
          Inr (map_option (\<lambda>(sp', as). (sp', (sp - len) # as)) q, s2))))"

text \<open>A list of words to consecutive addresses: \<open>False\<close> when a copy fails.\<close>

fun push_tables :: "nat \<Rightarrow> u32 \<Rightarrow> u32 \<Rightarrow> u32 list list \<Rightarrow> 'z ipc_scheme \<Rightarrow> (bool \<times> 'z ipc_scheme) kres" where
  "push_tables c pd sp [] s = Inr (True, s)"
| "push_tables c pd sp (ws # wss) s =
     kbind (copyout c pd sp (concat (map le32 ws)) s) (\<lambda>(r, s1).
       if r < 0 then Inr (False, s1) else push_tables c pd (sp + 4 * of_nat (length ws)) wss s1)"

definition exec_stack_argv :: "nat \<Rightarrow> u32 \<Rightarrow> u8 list \<Rightarrow> u8 list list \<Rightarrow> u8 list list \<Rightarrow> 'z ipc_scheme \<Rightarrow> (u32 option \<times> 'z ipc_scheme) kres" where
  "exec_stack_argv c pd name argv envp s =
     (let kargv = (if argv = [] then [name] else argv)
      in if pd = 0 then Inr (None, s)
      else if MAXARG < length argv \<or> MAXENV < length envp then Inr (None, s)
      else kbind (push_strings c pd kargv USERSTACK s) (\<lambda>(a, s1).
        case a of
          None \<Rightarrow> Inr (None, s1)
        | Some (sp1, uargv) \<Rightarrow>
            kbind (push_strings c pd envp sp1 s1) (\<lambda>(e, s2).
              case e of
                None \<Rightarrow> Inr (None, s2)
              | Some (sp2, uenvp) \<Rightarrow>
                  let tab = (1 + of_nat (length kargv + 1) + of_nat (length envp + 1) + 2) * 4; sp = (sp2 - tab) AND NOT 0xf
                  in if sp2 < USERSTACK_BOTTOM + tab then Inr (None, s2)
                  else if sp < USERSTACK_BOTTOM then Inr (None, s2)
                  else kbind (push_tables c pd sp [[of_nat (length kargv)], uargv @ [0], uenvp @ [0], [AT_NULL, 0]] s2) (\<lambda>(ok, s3).
                    Inr (if ok then Some sp else None, s3)))))"

section \<open>The new image\<close>

definition str_of :: "u8 list \<Rightarrow> string" where
  "str_of bs = map (\<lambda>b. char_of (unat b)) bs"

text \<open>The part of a path after its last slash, cut to the length of a name.\<close>

definition proc_name_from_path :: "u8 list \<Rightarrow> string" where
  "proc_name_from_path path = str_of (take (NNAME - 1) (rev (takeWhile (\<lambda>b. b \<noteq> 0x2f) (rev path))))"

text \<open>The program and its entry point and end, in the address space \<open>pd\<close>.\<close>

definition exec_image :: "u32 \<Rightarrow> u8 list \<Rightarrow> pmm \<Rightarrow> ((u32 \<times> u32) option \<times> pmm) kres" where
  "exec_image pd blob m =
     (if is_elf blob then exec_load_elf pd blob m
      else if USERHEAP_TOP - USERLOAD < of_nat (length blob) then Inr (None, m)
      else kbind (loaduvm pd USERLOAD blob m) (\<lambda>(r, m1).
        Inr (if r < 0 then None else Some (USERLOAD, USERLOAD + of_nat (length blob)), m1)))"

text \<open>The image and the stack, up to the label \<open>bad\<close>: entry point, end of the data, stack pointer.\<close>

definition exec_build :: "nat \<Rightarrow> u32 \<Rightarrow> u8 list \<Rightarrow> u8 list \<Rightarrow> u8 list list \<Rightarrow> u8 list list \<Rightarrow> 'z ipc_scheme \<Rightarrow> ((u32 \<times> u32 \<times> u32) option \<times> 'z ipc_scheme) kres" where
  "exec_build c pd blob name argv envp s =
     kbind (exec_image pd blob (kmem s)) (\<lambda>(im, m).
       let s1 = s\<lparr>kmem := m\<rparr>
       in case im of
            None \<Rightarrow> Inr (None, s1)
          | Some (entr, hend) \<Rightarrow>
              kbind (exec_map_stack pd (kmem s1)) (\<lambda>(r, m2).
                let s2 = s1\<lparr>kmem := m2\<rparr>
                in if r < 0 then Inr (None, s2)
                else kbind (exec_stack_argv c pd name argv envp s2) (\<lambda>(esp, s3).
                  Inr (map_option (\<lambda>sp. (entr, hend, sp)) esp, s3))))"

definition user_frame :: "u32 \<Rightarrow> u32 \<Rightarrow> trapframe \<Rightarrow> trapframe" where
  "user_frame entr esp tf = tf\<lparr>tf_eip := entr, tf_esp := esp, tf_cs := SEG_UCODE OR DPL_USER, tf_ss := SEG_UDATA OR DPL_USER,
     tf_ds := SEG_UDATA OR DPL_USER, tf_eflags := 0x202\<rparr>"

definition exec_load :: "u32 \<Rightarrow> nat \<Rightarrow> nat \<Rightarrow> trapframe \<Rightarrow> u8 list \<Rightarrow> u8 list \<Rightarrow> u8 list list \<Rightarrow> u8 list list \<Rightarrow> 'z kernel_scheme \<Rightarrow> (int \<times> trapframe \<times> 'z kernel_scheme) kres" where
  "exec_load kpgdir c p tf blob name argv envp s =
     (let sz = of_nat (length blob)
      in if sz = 0 \<or> EXEC_MAX_FILE < sz then Inr (- 1, tf, s)
      else kbind (mm_create kpgdir (heap_of s)) (\<lambda>(mo, h).
        let s1 = set_heap h s
        in case mo of
             None \<Rightarrow> Inr (- 1, tf, s1)
           | Some nm \<Rightarrow>
               kbind (exec_build c (pgdir nm) blob name argv envp s1) (\<lambda>(b, s2).
                 case b of
                   None \<Rightarrow> kbind (mm_destroy (Some nm) (heap_of s2)) (\<lambda>h. Inr (- 1, tf, set_heap h s2))
                 | Some (entr, hend0, esp) \<Rightarrow>
                     kbind (shm_detach_all p s2) (\<lambda>s3.
                       let oldmm = mm (ptab s3 p);
                           hend = (if hend0 < USERLOAD then USERLOAD else if USERHEAP_TOP < hend0 then USERHEAP_TOP else hend0);
                           nm' = nm\<lparr>task_size := USEREND, brk := hend, brk_start := hend\<rparr>;
                           s4 = upd_fpu (fpu_clear p) (upd_proc p (\<lambda>x. (vma_clear (x\<lparr>mm := Some nm'\<rparr>))\<lparr>p_name := proc_name_from_path name\<rparr>) s3)
                       in kbind (signal_exec_reset p s4) (\<lambda>s5.
                         let s6 = set_user_pgdir c (pgdir nm) s5
                         in kbind (mm_destroy oldmm (heap_of s6)) (\<lambda>h.
                           kbind (fd_close_on_exec p (set_heap h s6)) (\<lambda>s7. Inr (0, user_frame entr esp tf, s7))))))))"

section \<open>Finding the program\<close>

text \<open>The bytes of a file in a buffer of the heap, with the address of the buffer.\<close>

definition exec_read_file :: "nat \<Rightarrow> nat \<Rightarrow> u8 list \<Rightarrow> 'z vfs_scheme \<Rightarrow> ((u32 \<times> u8 list) option \<times> 'z vfs_scheme) fres" where
  "exec_read_file n p path s =
     fbind (fs_namei n p path s) (\<lambda>(r, s1).
       case r of
         None \<Rightarrow> fret (None, s1)
       | Some ip \<Rightarrow>
           let sz = i_size (inodes s1 ip)
           in if i_type (inodes s1 ip) \<noteq> T_FILE \<or> sz = 0 \<or> EXEC_MAX_FILE < sz then put_ret ip None s1
           else fbind (Some (do_kmalloc sz s1)) (\<lambda>(b, s2).
             case b of
               None \<Rightarrow> put_ret ip None s2
             | Some buf \<Rightarrow>
                 fbind (Some (fs_readi p ip 0 sz s2)) (\<lambda>(q, bs, s3).
                   fbind (Some (fs_iput ip (put_ram buf bs s3))) (\<lambda>s4.
                     if q = PRet (int (unat sz)) then fret (Some (buf, bs), s4)
                     else fbind (Some (do_kfree buf s4)) (\<lambda>s5. fret (None, s5))))))"

definition userbin_lookup :: "(u8 list \<times> u8 list) list \<Rightarrow> u8 list \<Rightarrow> (u8 list \<times> u8 list) option" where
  "userbin_lookup bins path =
     (let name = (if path \<noteq> [] \<and> hd path = 0x2f then tl path else path) in find (\<lambda>b. name = fst b) bins)"

definition execve :: "(u8 list \<times> u8 list) list \<Rightarrow> u32 \<Rightarrow> nat \<Rightarrow> nat \<Rightarrow> nat \<Rightarrow> trapframe \<Rightarrow> u8 list \<Rightarrow> u8 list list \<Rightarrow> u8 list list \<Rightarrow> 'z kernel_scheme \<Rightarrow> (int \<times> trapframe \<times> 'z kernel_scheme) fres" where
  "execve bins kpgdir n c p tf path argv envp s =
     (if path = [] then fret (- 1, tf, s)
      else fbind (exec_read_file n p path s) (\<lambda>(f, s1).
        case f of
          Some (buf, bs) \<Rightarrow>
            fbind (Some (exec_load kpgdir c p tf bs path argv envp s1)) (\<lambda>(r, tf1, s2).
              fbind (Some (do_kfree buf s2)) (\<lambda>s3. fret (r, tf1, s3)))
        | None \<Rightarrow>
            (case userbin_lookup bins path of
               Some (name, blob) \<Rightarrow> Some (exec_load kpgdir c p tf blob name argv envp s1)
             | None \<Rightarrow> fret (- 1, tf, s1))))"

text \<open>A kernel thread becomes a user process, up to the entry into user mode.\<close>

definition zero_trapframe :: trapframe where
  "zero_trapframe = \<lparr>tf_edi = 0, tf_esi = 0, tf_ebp = 0, tf_oesp = 0, tf_ebx = 0, tf_edx = 0, tf_ecx = 0, tf_eax = 0, tf_ds = 0,
     tf_err = 0, tf_eip = 0, tf_cs = 0, tf_eflags = 0, tf_esp = 0, tf_ss = 0\<rparr>"

definition kernel_execve :: "(u8 list \<times> u8 list) list \<Rightarrow> u32 \<Rightarrow> nat \<Rightarrow> nat \<Rightarrow> nat \<Rightarrow> u8 list \<Rightarrow> 'z kernel_scheme \<Rightarrow> 'z kernel_scheme fres" where
  "kernel_execve bins kpgdir n c p path s =
     (if kstack (ptab s p) = 0 then Some (Inl ''kernel_execve: bad proc'')
      else fbind (execve bins kpgdir n c p zero_trapframe path [] [] s) (\<lambda>(r, tf, s1).
        if r < 0 then Some (Inl ''kernel_execve: exec failed'')
        else let s2 = upd_proc p (\<lambda>x. x\<lparr>kframe := Some (kstack x + KSTACKSIZE - sizeof_trapframe, tf), entry := 0, entry_arg := 0\<rparr>) s1
        in fbind (if ofile (ptab s2 p) 0 = None then fd_install_stdio n p p s2 else fret s2) (\<lambda>s3.
          if cwd (ptab s3 p) \<noteq> None then fret s3
          else fbind (fs_namei n p [0x2f] s3) (\<lambda>(r, s4).
            if r = None then Some (Inl ''kernel_execve: cwd'') else fret (upd_proc p (\<lambda>x. x\<lparr>cwd := r\<rparr>) s4)))))"

section \<open>The system call\<close>

text \<open>
  The loop of \<open>copy_user_strvec\<close>: \<open>k\<close> rounds are left and \<open>n\<close> strings have been copied to the buffer at \<open>store\<close>. The
  result is the list of the remaining strings, or \<open>None\<close> for -1.
\<close>

fun strvec_loop :: "nat \<Rightarrow> u32 \<Rightarrow> u32 \<Rightarrow> u32 \<Rightarrow> nat \<Rightarrow> nat \<Rightarrow> 'z kernel_scheme \<Rightarrow> (u8 list list option \<times> 'z kernel_scheme) kres" where
  "strvec_loop c pd uvec store 0 n s = Inr (None, s)"
| "strvec_loop c pd uvec store (Suc k) n s =
     kbind (copyin c pd (uvec + of_nat n * 4) 4 s) (\<lambda>(r, s1).
       case r of
         None \<Rightarrow> Inr (None, s1)
       | Some bs \<Rightarrow>
           let uarg = le_word bs :: u32
           in if uarg = 0 then Inr (Some [], s1)
           else kbind (copyinstr c pd uarg (of_nat NNAME) s1) (\<lambda>(q, s2).
             case q of
               None \<Rightarrow> Inr (None, s2)
             | Some x \<Rightarrow>
                 kbind (strvec_loop c pd uvec store k (Suc n) (put_ram (store + of_nat n * of_nat NNAME) (x @ [0]) s2)) (\<lambda>(xs, s3).
                   Inr (map_option ((#) x) xs, s3))))"

definition copy_user_strvec :: "nat \<Rightarrow> u32 \<Rightarrow> u32 \<Rightarrow> u32 \<Rightarrow> nat \<Rightarrow> 'z kernel_scheme \<Rightarrow> (u8 list list option \<times> 'z kernel_scheme) kres" where
  "copy_user_strvec c pd uvec store mx s = (if uvec = 0 then Inr (Some [], s) else strvec_loop c pd uvec store mx 0 s)"

text \<open>
  The copy of a vector into a new buffer, for \<open>argv\<close> and for \<open>envp\<close>: \<open>None\<close> without memory, otherwise the address of the
  buffer, 0 for none, and the strings, \<open>None\<close> when the copy fails.
\<close>

definition exec_vec :: "nat \<Rightarrow> nat \<Rightarrow> u32 \<Rightarrow> nat \<Rightarrow> 'z kernel_scheme \<Rightarrow> ((u32 \<times> u8 list list option) option \<times> 'z kernel_scheme) kres" where
  "exec_vec c p uvec mx s =
     (if uvec = 0 then Inr (Some (0, Some []), s)
      else kbind (do_kmalloc (of_nat mx * of_nat NNAME) s) (\<lambda>(a, s1).
        case a of
          None \<Rightarrow> Inr (None, s1)
        | Some store \<Rightarrow>
            kbind (copy_user_strvec c (proc_pagetable (ptab s1 p)) uvec store mx s1) (\<lambda>(v, s2). Inr (Some (store, v), s2))))"

definition kfree_opt :: "u32 \<Rightarrow> 'z kernel_scheme \<Rightarrow> 'z kernel_scheme kres" where
  "kfree_opt a s = (if a = 0 then Inr s else do_kfree a s)"

definition sys_execve :: "(u8 list \<times> u8 list) list \<Rightarrow> u32 \<Rightarrow> nat \<Rightarrow> nat \<Rightarrow> nat \<Rightarrow> trapframe \<Rightarrow> 'z kernel_scheme \<Rightarrow> (int \<times> trapframe \<times> 'z kernel_scheme) fres" where
  "sys_execve bins kpgdir n c p tf s =
     (if proc_pagetable (ptab s p) = 0 then fret (- 1, tf, s)
      else fbind (Some (argstr c p tf 0 s)) (\<lambda>(pa, s1).
        case pa of
          None \<Rightarrow> fret (- 1, tf, s1)
        | Some path \<Rightarrow>
            with_addr tf 1 (\<lambda>uargv. fbind (Some (exec_vec c p uargv MAXARG s1)) (\<lambda>(av, s2).
              case av of
                None \<Rightarrow> fret (- 1, tf, s2)
              | Some (argstore, None) \<Rightarrow> fbind (Some (do_kfree argstore s2)) (\<lambda>s3. fret (- 1, tf, s3))
              | Some (argstore, Some argv) \<Rightarrow>
                  with_addr tf 2 (\<lambda>uenvp. fbind (Some (exec_vec c p uenvp MAXENV s2)) (\<lambda>(ev, s3).
                    case ev of
                      None \<Rightarrow> fbind (Some (kfree_opt argstore s3)) (\<lambda>s4. fret (- 1, tf, s4))
                    | Some (envstore, None) \<Rightarrow>
                        fbind (Some (kfree_opt argstore s3)) (\<lambda>s4. fbind (Some (do_kfree envstore s4)) (\<lambda>s5. fret (- 1, tf, s5)))
                    | Some (envstore, Some envp) \<Rightarrow>
                        fbind (execve bins kpgdir n c p tf path argv envp s3) (\<lambda>(r, tf1, s4).
                          fbind (Some (kfree_opt argstore s4)) (\<lambda>s5.
                            fbind (Some (kfree_opt envstore s5)) (\<lambda>s6. fret (r, tf1, s6))))))))))"

end
