(* ===== verification/Life_Props.thy ===== *)
theory Life_Props
  imports File_Props Execve
begin

text \<open>
  The invariant of open files along the life of processes: fork, exec, exit and kernel threads keep it, so that it holds in
  every run. With it, what the child of \<open>fork_copy\<close> shares with its parent, the conversion of times, and the wake-up that a
  request to \<open>kthreadd\<close> can lose.
\<close>

section \<open>What leaves open files alone\<close>

lemma same_files_proc [simp]:
  "ofile (f (ptab t p)) = ofile (ptab t p) \<Longrightarrow> state (f (ptab t p)) = state (ptab t p) \<Longrightarrow> same_files s (upd_proc p f t) = same_files s t"
  "ofile (f (ptab t p)) = ofile (ptab t p) \<Longrightarrow> state (f (ptab t p)) = state (ptab t p) \<Longrightarrow> same_files (upd_proc p f t) s = same_files t s"
  by (auto simp: same_files_def upd_proc_def dead_def)

lemma same_files_kernel [simp]:
  "same_files s (t\<lparr>kmem := m\<rparr>) = same_files s t" "same_files (t\<lparr>kmem := m\<rparr>) s = same_files t s"
  "same_files s (set_user_pgdir c d t) = same_files s t" "same_files (set_user_pgdir c d t) s = same_files t s"
  "same_files s (task_queue_unlink_locked p t) = same_files s t" "same_files (task_queue_unlink_locked p t) s = same_files t s"
  "same_files s (set_seg i g' t) = same_files s t" "same_files (set_seg i g' t) s = same_files t s"
  by (simp_all add: same_files_def set_user_pgdir_def upd_cpu_def task_queue_unlink_locked_def set_seg_def)

lemma same_files_put_ram [simp]: "same_files (put_ram a bs t) s = same_files t s"
  by (simp add: put_ram_def)

lemma same_files_fpu [simp]:
  "same_files s (upd_fpu g t) = same_files s t" "same_files (upd_fpu g t) s = same_files t s"
  by (simp_all add: same_files_def upd_fpu_def)

lemma vma_simps [simp]:
  "ofile (set_vma i v x) = ofile x" "state (set_vma i v x) = state x" "ofile (vma_clear x) = ofile x" "state (vma_clear x) = state x"
  "ofile (vma_copy x y) = ofile x" "state (vma_copy x y) = state x"
  by (simp_all add: set_vma_def vma_clear_def vma_copy_def split: option.splits)

lemma shm_munmap_files [files]: "shm_munmap_vma p i s = Inr (r, s') \<Longrightarrow> same_files s s'"
  by (auto simp: shm_munmap_vma_def shm_try_destroy_locked_def Let_def split: if_splits sum.splits option.splits)

lemma shm_detach_files [files]: "shm_detach_all p s = Inr s' \<Longrightarrow> same_files s s'"
  unfolding shm_detach_all_def
  by (auto split: if_splits elim!: kfold_inv [where P = "same_files s", rotated]
      split: sum.splits dest!: shm_munmap_files intro: same_files_trans)

lemma shm_fork_one_files: "shm_fork_one q p i s = Inr s' \<Longrightarrow> same_files s s'"
  by (auto simp: shm_fork_one_def Let_def split: if_splits sum.splits option.splits)

lemma shm_fork_files [files]: "shm_fork_fix q p s = Inr s' \<Longrightarrow> same_files s s'"
  unfolding shm_fork_fix_def
  by (auto split: if_splits elim!: kfold_inv [where P = "same_files s", rotated] dest!: shm_fork_one_files intro: same_files_trans)

lemma proc_drop_mm_files [files]: "proc_drop_mm c p s = Inr s' \<Longrightarrow> same_files s s'"
  by (auto simp: proc_drop_mm_def Let_def kbind_Inr_iff split: if_splits sum.splits dest!: shm_detach_files)

lemma signal_free_files: "signal_free_old p s = Inr s' \<Longrightarrow> same_files s s'"
  by (auto simp: signal_free_old_def split: option.splits sum.splits)

lemma signal_files [files]:
  "signal_exit_cleanup p s = Inr s' \<Longrightarrow> same_files s s'" "signal_exec_reset p s = Inr s' \<Longrightarrow> same_files s s'"
  by (auto simp: signal_exit_cleanup_def signal_exec_reset_def dest!: signal_free_files)

lemma signal_upd [simp]:
  "same_files s (signal_parent_child_exit p t) = same_files s t" "same_files (signal_parent_child_exit p t) s = same_files t s"
  "same_files s (signal_fork q p t) = same_files s t" "same_files (signal_fork q p t) s = same_files t s"
  by (auto simp: signal_parent_child_exit_def signal_fork_def split: option.splits)

lemma kthread_reap_files [files]: "kthread_reap p s = Inr s' \<Longrightarrow> same_files s s'"
  by (auto simp: kthread_reap_def split: if_splits sum.splits)

lemma enqueue_files [files]: "task_queue_enqueue_locked p s = Inr s' \<Longrightarrow> same_files s s'"
  by (auto simp: task_queue_enqueue_locked_def same_files_def split: if_splits)

lemma fork_mm_files [files]: "fork_mm kd p q s = Inr (r, s') \<Longrightarrow> same_files s s'"
  by (auto simp: fork_mm_def Let_def kbind_Inr_iff split: option.splits if_splits dest!: shm_fork_files)

section \<open>Slots of the process table\<close>

text \<open>The invariant between calls.\<close>

definition files_inv :: "'z vfs_scheme \<Rightarrow> bool" where
  "files_inv s \<longleftrightarrow> table_inv s (\<lambda>_. 0) {} \<and> (\<forall>q fd. dead (ptab s q) \<longrightarrow> fd < NOFILE \<longrightarrow> ofile (ptab s q) fd = None)"

lemma files_ok_iff: "files_ok p s \<longleftrightarrow> files_inv s \<and> \<not> dead (ptab s p)"
  by (auto simp: file_inv_def files_inv_def slots_ok_def)

lemma files_inv_range: "files_inv s \<Longrightarrow> q < NPROC \<Longrightarrow> fd < NOFILE \<Longrightarrow> ofile (ptab s q) fd = Some i \<Longrightarrow> i < NFILE"
  unfolding files_inv_def table_inv_def by blast

lemma files_inv_slots:
  assumes inv: "files_inv s" and of: "\<And>q fd. fd < NOFILE \<Longrightarrow> ofile (ptab s' q) fd = ofile (ptab s q) fd"
    and ft: "ftable s' = ftable s"
    and gone: "\<And>q. dead (ptab s' q) \<Longrightarrow> dead (ptab s q) \<or> (\<forall>fd < NOFILE. ofile (ptab s q) fd = None)"
  shows "files_inv s'"
proof -
  have e: "fds s' = fds s" using of by (auto simp: fds_def fun_eq_iff)
  have "\<forall>q < NPROC. \<forall>fd < NOFILE. \<forall>i. ofile (ptab s' q) fd = Some i \<longrightarrow> i < NFILE" using files_inv_range [OF inv] of by simp
  moreover have "table_inv s (\<lambda>_. 0) {}" using inv by (simp add: files_inv_def)
  ultimately have "table_inv s' (\<lambda>_. 0) {}" unfolding table_inv_def e ft by (elim conjE, intro conjI)
  moreover have "ofile (ptab s' q) fd = None" if "dead (ptab s' q)" "fd < NOFILE" for q fd
    using inv gone [OF that(1)] of that(2) unfolding files_inv_def by metis
  ultimately show ?thesis by (simp add: files_inv_def)
qed

lemma file_inv_slots:
  assumes "files_ok p s" and "\<And>q fd. fd < NOFILE \<Longrightarrow> ofile (ptab s' q) fd = ofile (ptab s q) fd" and "ftable s' = ftable s"
    and "\<And>q. dead (ptab s' q) \<Longrightarrow> dead (ptab s q) \<or> (\<forall>fd < NOFILE. ofile (ptab s q) fd = None)" and "\<not> dead (ptab s' r)"
  shows "files_ok r s'"
  using assms(5) files_inv_slots [OF _ assms(2-4)] assms(1) unfolding files_ok_iff by blast

lemma inv_alive: "file_inv p s d X \<Longrightarrow> \<not> dead (ptab s p)"
  by (simp add: file_inv_def slots_ok_def)

lemma files_ok_other: "files_ok p s \<Longrightarrow> \<not> dead (ptab s r) \<Longrightarrow> files_ok r s"
  by (simp add: file_inv_def slots_ok_def)

lemma proc_alloc_Some:
  assumes "proc_alloc s = Inr (Some q, s')"
  shows "q < NPROC" "state (ptab s q) = UNUSED"
    "ptab s' = (ptab s)(q := zero_proc\<lparr>state := USED, pid := nextpid s\<rparr>)"
  using assms by (auto simp: proc_alloc_def alloc_pid_def upd_proc_def find_Some_iff split: option.splits if_splits)

lemma proc_alloc_ftable: "proc_alloc s = Inr (r, s') \<Longrightarrow> ftable s' = ftable s"
  by (auto simp: proc_alloc_def alloc_pid_def upd_proc_def split: option.splits if_splits)

lemma new_proc_inv:
  assumes inv: "files_ok p s" and n: "new_proc s = Inr (Some q, s')"
  shows "q < NPROC" "q \<noteq> p" "ofile (ptab s' q) = (\<lambda>_. None)" "files_ok p s'" "files_ok q s'"
proof -
  from n obtain t where t: "proc_alloc s = Inr (Some q, t)" and p': "ptab s' = ptab t" "ftable s' = ftable t"
    by (auto simp: new_proc_def kbind_Inr_iff upd_fpu_def split: option.splits)
  have f: "ftable s' = ftable s" using proc_alloc_ftable [OF t] p'(2) by simp
  note a = proc_alloc_Some [OF t]
  show "q < NPROC" by (rule a)
  show ne: "q \<noteq> p" using a(2) inv_alive [OF inv] by (auto simp: dead_def)
  have q: "dead (ptab s q)" using a(2) by (simp add: dead_def)
  have of: "ofile (ptab s' r) fd = ofile (ptab s r) fd" if "fd < NOFILE" for r fd
    using inv q that by (auto simp: p' a(3) zero_proc_def file_inv_def slots_ok_def)
  have gone: "dead (ptab s r)" if "dead (ptab s' r)" for r using that by (auto simp: p' a(3) dead_def split: if_splits)
  show "files_ok p s'" by (rule file_inv_slots [OF inv of f]) (use gone ne inv_alive [OF inv] in \<open>auto simp: p' a(3)\<close>)
  show "files_ok q s'" by (rule file_inv_slots [OF inv of f]) (use gone in \<open>auto simp: p' a(3) dead_def\<close>)
  show "ofile (ptab s' q) = (\<lambda>_. None)" by (simp add: p' a(3) zero_proc_def)
qed

lemma new_proc_None: "new_proc s = Inr (None, s') \<Longrightarrow> s' = s"
  by (auto simp: new_proc_def proc_alloc_def kbind_Inr_iff split: option.splits if_splits prod.splits)

lemma unuse_inv:
  assumes inv: "files_ok p s" and "\<And>fd. ofile (ptab s q) fd = None" and "q \<noteq> p" and "\<And>x. ofile (f x) = ofile x"
  shows "files_ok p (upd_proc q f s)"
  by (rule file_inv_slots [OF inv]) (use assms inv_alive [OF inv] in \<open>auto simp: upd_proc_def split: if_splits\<close>)

lemma proc_free_inv:
  assumes inv: "files_ok p s" and of: "\<And>fd. ofile (ptab s q) fd = None" and ne: "q \<noteq> p" and f: "proc_free c q s = Inr s'"
  shows "files_ok p s'"
proof (cases "state (ptab s q) = UNUSED")
  case False
  then obtain t u where t: "proc_drop_mm c q (upd_fpu (fpu_drop q) s) = Inr t" "kthread_reap q t = Inr u"
    and s': "s' = upd_proc q (\<lambda>x. x\<lparr>state := UNUSED, pid := 0, parent := None, kframe := None, xstate := 0, entry := 0, entry_arg := 0,
      p_name := []\<rparr>) (task_queue_unlink_locked q (upd_proc q (\<lambda>x. x\<lparr>ctx := zero_context\<rparr>) u))" (is "_ = upd_proc q _ ?v")
    using f by (auto simp: proc_free_def kbind_Inr_iff)
  have t: "same_files s ?v" using same_files_trans [OF proc_drop_mm_files [OF t(1)] kthread_reap_files [OF t(2)]] by simp
  show ?thesis unfolding s' by (rule unuse_inv [OF file_inv_same [OF inv t]]) (use of ne same_ofile [OF t] in auto)
qed (use inv f in \<open>simp add: proc_free_def\<close>)

section \<open>Fork, threads and exit\<close>

lemma enqueue_new_files:
  "task_queue_enqueue_locked q (upd_proc q (\<lambda>x. x\<lparr>state := RUNNABLE\<rparr>) s) = Inr s' \<Longrightarrow> same_files s s'"
  by (drule enqueue_files) (auto simp: same_files_def upd_proc_def dead_def split: if_splits)

lemma ctx_init_upd [simp]:
  "same_files (fork_user_ctx_init sy q t) s = same_files t s" "same_files (kthread_ctx_init sy q t) s = same_files t s"
  by (simp_all add: fork_user_ctx_init_def kthread_ctx_init_def Let_def)

lemma fd_copy_state: "fd_copy q p s = Inr s' \<Longrightarrow> state (ptab s' r) = state (ptab s r)"
  unfolding fd_copy_def
  by (rule kfold_inv [where P = "\<lambda>t. state (ptab t r) = state (ptab s r)"])
    (auto simp: kbind_Inr_iff filedup_def set_fd_def upd_proc_def split: option.splits if_splits)

lemma fork_copy_inv:
  assumes inv: "files_ok p s" and p: "p < NPROC" and f: "fork_copy sy kd c p tf s = Inr (r, s')"
  shows "files_ok p s'"
proof (cases "proc_pagetable (ptab s p) = 0")
  case False
  with f obtain q s1 where n: "new_proc s = Inr (q, s1)" by (auto simp: fork_copy_def kbind_Inr_iff)
  show ?thesis
  proof (cases q)
    case None
    then show ?thesis using f inv n False new_proc_None [of s s1] by (auto simp: fork_copy_def kbind_Inr_iff)
  next
    case (Some q)
    note a = new_proc_inv [OF inv n [unfolded Some]]
    obtain ok s2 where m: "fork_mm kd p q s1 = Inr (ok, s2)" using f n Some False by (auto simp: fork_copy_def kbind_Inr_iff)
    note same = fork_mm_files [OF m]
    have free: "files_ok p u" if "same_files s2 t" "proc_free c q t = Inr u" for t u
      using proc_free_inv [OF file_inv_same [OF a(4) same_files_trans [OF same that(1)]] _ a(2) that(2)]
        same_ofile [OF same_files_trans [OF same that(1)]] a(3) by simp
    have copy: "files_ok p s'" if t: "same_files s2 t" "fd_copy q p t = Inr u" "same_files u s'" for t u
    proof -
      note st = same_files_trans [OF same t(1)]
      have "files_ok q u"
        by (rule fd_copy_inv [OF file_inv_same [OF a(5) st] p a(1) _ _ t(2)]) (use a(2,3) same_ofile [OF st] in auto)
      then have "files_ok q s'" using t(3) by (rule file_inv_same)
      moreover have "\<not> dead (ptab s' p)"
        using inv_alive [OF file_inv_same [OF a(4) st]] fd_copy_state [OF t(2)] t(3) by (auto simp: same_files_def dead_def)
      ultimately show ?thesis by (rule files_ok_other)
    qed
    show ?thesis using f n m Some False
      by (auto simp: fork_copy_def kbind_Inr_iff Let_def split: if_splits prod.splits option.splits dest!: enqueue_new_files
          elim!: free [rotated] copy [rotated])
  qed
qed (use inv f in \<open>simp add: fork_copy_def\<close>)

lemma kthread_create_inv:
  assumes inv: "files_ok p s" and f: "kthread_create_sync sy c fn arg nm par s = Inr (r, s')"
  shows "files_ok p s'"
proof -
  from f obtain q s1 where n: "new_proc s = Inr (q, s1)" by (auto simp: kthread_create_sync_def kbind_Inr_iff)
  show ?thesis
  proof (cases q)
    case None
    then show ?thesis using f inv n new_proc_None [of s s1] by (auto simp: kthread_create_sync_def kbind_Inr_iff)
  next
    case (Some q)
    note a = new_proc_inv [OF inv n [unfolded Some]]
    have free: "files_ok p u" if "proc_free c q t = Inr u" "same_files s1 t" for t u
      by (rule proc_free_inv [OF file_inv_same [OF a(4) that(2)] _ a(2) that(1)]) (simp add: same_ofile [OF that(2)] a(3))
    show ?thesis using f n Some
      by (auto simp: kthread_create_sync_def kbind_Inr_iff Let_def split: prod.splits option.splits dest!: enqueue_new_files
          elim!: free intro: file_inv_same [OF a(4)])
  qed
qed

text \<open>After the descriptors are closed the process may become a zombie.\<close>

lemma fileclose_ofile: "fileclose f s = Inr s' \<Longrightarrow> ofile (ptab s' q) = ofile (ptab s q)"
  by (drule fileclose_but) (auto simp: but_file_def split: if_splits)

lemma kfold_each:
  assumes "\<And>i s s'. f i s = Inr s' \<Longrightarrow> P i s'" and "\<And>i j s s'. P j s \<Longrightarrow> f i s = Inr s' \<Longrightarrow> P j s'"
  shows "kfold f xs s = Inr s' \<Longrightarrow> i \<in> set xs \<Longrightarrow> P i s'"
proof (induction xs arbitrary: s)
  case (Cons a xs)
  then obtain t where t: "f a s = Inr t" "kfold f xs t = Inr s'" by (auto split: sum.splits)
  show ?case
  proof (cases "i \<in> set xs")
    case False
    then have "P i t" using Cons.prems(2) assms(1) t(1) by auto
    with t(2) show ?thesis using kfold_inv [where P = "P i" and f = f] assms(2) by blast
  qed (use Cons.IH t(2) in blast)
qed simp

lemma fd_closeall_none: "fd_closeall p s = Inr s' \<Longrightarrow> fd < NOFILE \<Longrightarrow> ofile (ptab s' p) fd = None"
  unfolding fd_closeall_def
  by (erule kfold_each [where P = "\<lambda>fd s. ofile (ptab s p) fd = None", rotated 2])
    (auto simp: kbind_Inr_iff ofile_set_fd fileclose_ofile split: option.splits)

lemma reparent_files [simp]: "same_files s t \<Longrightarrow> same_files s (reparent p t)"
proof -
  have "same_files s t \<Longrightarrow> same_files s (fold (\<lambda>i s. if parent (ptab s i) = Some p \<and> state (ptab s i) \<noteq> UNUSED
          then upd_proc i (\<lambda>x. x\<lparr>parent := initproc s\<rparr>) s else s) xs t)" for xs t
    by (induction xs arbitrary: t) simp_all
  then show "same_files s t \<Longrightarrow> same_files s (reparent p t)" by (simp add: reparent_def)
qed

lemma files_inv_same: "files_inv s \<Longrightarrow> same_files s s' \<Longrightarrow> files_inv s'"
proof -
  assume inv: "files_inv s" and same: "same_files s s'"
  have "table_inv s' (\<lambda>_. 0) {}" using table_inv_same [OF _ same] inv by (simp add: files_inv_def)
  moreover have "ofile (ptab s' q) fd = None" if "dead (ptab s' q)" "fd < NOFILE" for q fd
    using inv same that unfolding files_inv_def same_files_def by metis
  ultimately show ?thesis by (simp add: files_inv_def)
qed

lemma exit_zombie_inv:
  assumes inv: "files_inv s" and none: "\<And>fd. fd < NOFILE \<Longrightarrow> ofile (ptab s p) fd = None" and e: "exit_zombie p xst s = Inr s'"
  shows "files_inv s'"
proof -
  let ?t = "task_queue_unlink_locked p (upd_proc p (\<lambda>x. x\<lparr>xstate := xst\<rparr>) (reparent p s))"
  let ?z = "upd_proc p (\<lambda>x. x\<lparr>ctx := zero_context, state := ZOMBIE\<rparr>) ?t"
  have t: "same_files s ?t" by simp
  have "files_inv ?z"
    by (rule files_inv_slots [OF files_inv_same [OF inv t]])
      (use none same_ofile [OF t] in \<open>auto simp: upd_proc_def split: if_splits\<close>)
  then show ?thesis using e by (auto simp: exit_zombie_def Let_def split: option.splits dest!: wakeup_files intro: files_inv_same)
qed

lemma exit_inv:
  assumes inv: "files_ok p s" and p: "p < NPROC" and e: "exit_with_xstate c p xst s = Inr s'"
  shows "files_inv s'"
proof -
  from e obtain s1 s2 s3 s4 where s: "signal_exit_cleanup p (signal_parent_child_exit p s) = Inr s1" "fd_closeall p s1 = Inr s2"
    "(case cwd (ptab s2 p) of None \<Rightarrow> Inr s2 | Some ip \<Rightarrow> kbind (fs_iput ip s2) (\<lambda>t. Inr (upd_proc p (\<lambda>x. x\<lparr>cwd := None\<rparr>) t))) = Inr s3"
    "proc_drop_mm c p s3 = Inr s4" "exit_zombie p xst (upd_fpu (fpu_drop p) s4) = Inr s'"
    by (auto simp: exit_with_xstate_def kbind_Inr_iff split: if_splits)
  have "same_files s s1" using signal_files(1) [OF s(1)] by simp
  from fd_closeall_inv [OF s(2) p file_inv_same [OF inv this]] have s2: "files_inv s2" by (simp add: files_ok_iff)
  have "same_files s2 s3" using s(3) by (auto simp: kbind_Inr_iff split: option.splits dest!: fs_iput_files)
  from same_files_trans [OF this proc_drop_mm_files [OF s(4)]] have t: "same_files s2 (upd_fpu (fpu_drop p) s4)" by simp
  show ?thesis
    by (rule exit_zombie_inv [OF files_inv_same [OF s2 t] _ s(5)]) (simp add: same_ofile [OF t] fd_closeall_none [OF s(2)])
qed

section \<open>Exec\<close>

lemma push_strings_files: "push_strings c pd xs sp s = Inr (r, s') \<Longrightarrow> same_files s s'"
proof (induction xs arbitrary: sp s r s')
  case (Cons x xs)
  from Cons.prems show ?case
    by (auto simp: Let_def kbind_Inr_iff split: if_splits dest!: Cons.IH copyout_files intro: same_files_trans)
qed simp

lemma push_tables_files: "push_tables c pd sp wss s = Inr (r, s') \<Longrightarrow> same_files s s'"
proof (induction wss arbitrary: sp s r s')
  case (Cons ws wss)
  from Cons.prems show ?case
    by (auto simp: kbind_Inr_iff split: if_splits dest!: Cons.IH copyout_files intro: same_files_trans)
qed simp

text \<open>The post-condition of a call that does not panic, and a call that leaves open files as they are in \<open>s\<close>.\<close>

definition kpost :: "'a kres \<Rightarrow> ('a \<Rightarrow> bool) \<Rightarrow> bool" where
  "kpost m Q \<longleftrightarrow> (\<forall>y. m = Inr y \<longrightarrow> Q y)"

lemma kpost_simps [simp]: "kpost (Inr x) Q = Q x" "kpost (Inl e) Q"
  by (simp_all add: kpost_def)

lemma kpost_bind: "(\<And>x. m = Inr x \<Longrightarrow> kpost (f x) Q) \<Longrightarrow> kpost (kbind m f) Q"
  by (auto simp: kpost_def kbind_Inr_iff)

abbreviation leaves :: "'z vfs_scheme \<Rightarrow> ('a \<times> 'z vfs_scheme) kres \<Rightarrow> bool" where
  "leaves s m \<equiv> kpost m (\<lambda>(r, t). same_files s t)"

lemma leaves_bind: "leaves s m \<Longrightarrow> (\<And>r t. same_files s t \<Longrightarrow> leaves s (f (r, t))) \<Longrightarrow> leaves s (kbind m f)"
  by (auto simp: kpost_def kbind_Inr_iff)

lemma leaves_push:
  "same_files s t \<Longrightarrow> leaves s (push_strings c pd xs sp t)" "same_files s t \<Longrightarrow> leaves s (push_tables c pd sp wss t)"
  by (auto simp: kpost_def dest!: push_strings_files push_tables_files intro: same_files_trans)

lemma exec_stack_leaves: "leaves s (exec_stack_argv c pd nm av ev s)"
  unfolding exec_stack_argv_def Let_def
  by (auto simp del: push_strings.simps push_tables.simps split: option.splits prod.splits intro!: leaves_bind [OF leaves_push(1)] leaves_bind [OF leaves_push(2)])

lemma exec_stack_files [files]: "exec_stack_argv c pd nm av ev s = Inr (r, s') \<Longrightarrow> same_files s s'"
  using exec_stack_leaves [of c pd nm av ev s] by (simp add: kpost_def)

lemma exec_build_files [files]: "exec_build c pd blob nm av ev s = Inr (r, s') \<Longrightarrow> same_files s s'"
  by (auto simp: exec_build_def Let_def kbind_Inr_iff split: if_splits option.splits dest!: exec_stack_files)

text \<open>An exec closes at most the descriptors that are marked so, and leaves open files alone otherwise.\<close>

definition exec_rel :: "nat \<Rightarrow> 'z vfs_scheme \<Rightarrow> 'z vfs_scheme \<Rightarrow> bool" where
  "exec_rel p s s' \<longleftrightarrow> (\<exists>t u. same_files s t \<and> (u = t \<or> fd_close_on_exec p t = Inr u) \<and> same_files u s')"

lemma exec_rel_same: "same_files s s' \<Longrightarrow> exec_rel p s s'"
  unfolding exec_rel_def using same_files_refl by blast

lemma exec_rel_left: "same_files s t \<Longrightarrow> exec_rel p t s' \<Longrightarrow> exec_rel p s s'"
  unfolding exec_rel_def using same_files_trans by blast

lemma exec_rel_right: "exec_rel p s t \<Longrightarrow> same_files t s' \<Longrightarrow> exec_rel p s s'"
  unfolding exec_rel_def using same_files_trans by blast

lemma exec_rel_inv: "exec_rel p s s' \<Longrightarrow> p < NPROC \<Longrightarrow> files_ok p s \<Longrightarrow> files_ok p s'"
  unfolding exec_rel_def by (metis fd_close_on_exec_inv file_inv_same)

lemma close_on_exec_none:
  assumes "\<And>fd. fd < NOFILE \<Longrightarrow> ofile (ptab s p) fd = None" and "fd_close_on_exec p s = Inr s'"
  shows "s' = s"
  by (rule kfold_inv [OF _ assms(2) [unfolded fd_close_on_exec_def], where P = "\<lambda>t. t = s"]) (auto simp: assms(1) split: option.splits)

lemma exec_rel_none: "exec_rel p s s' \<Longrightarrow> (\<And>fd. fd < NOFILE \<Longrightarrow> ofile (ptab s p) fd = None) \<Longrightarrow> same_files s s'"
  unfolding exec_rel_def by (metis close_on_exec_none same_ofile same_files_trans)

lemma exec_load_rel:
  assumes e: "exec_load kd c p tf blob nm av ev s = Inr (r, tf', s')"
  shows "exec_rel p s s'"
proof -
  have close: "exec_rel p s u" if "fd_close_on_exec p t = Inr u" "same_files s t" for t u
    using that unfolding exec_rel_def by (meson same_files_refl)
  have same: "same_files s t" if "exec_build c pd blob nm av ev (set_heap h s) = Inr (b, t)" for pd h b t
    using exec_build_files [OF that] by simp
  have swap: "same_files s t" if "exec_build c pd blob nm av ev (set_heap h s) = Inr (b, u)" "shm_detach_all p u = Inr v"
    "signal_exec_reset p (upd_fpu (fpu_clear p) (upd_proc p (\<lambda>x. (vma_clear (x\<lparr>mm := m\<rparr>))\<lparr>p_name := k\<rparr>) v)) = Inr t" for pd h b u v m k t
    using same_files_trans [OF same_files_trans [OF same [OF that(1)] shm_detach_files [OF that(2)]]] signal_files(2) [OF that(3)] by simp
  have "kpost (exec_load kd c p tf blob nm av ev s) (\<lambda>(r, tf', s'). exec_rel p s s')"
    unfolding exec_load_def Let_def
    by (auto split: option.splits intro!: kpost_bind elim!: close)
      (erule (2) swap | erule same | rule exec_rel_same, simp)+
  with e show ?thesis by (simp add: kpost_def)
qed

lemma exec_read_files [files]: "exec_read_file n p path s = Some (Inr (r, s')) \<Longrightarrow> same_files s s'"
proof -
  have put: "fpost (put_ret ip None t) (\<lambda>(r :: (u32 \<times> u8 list) option, s'). same_files s s')" if "same_files s t" for ip t
    using that by (auto simp: fpost_def dest!: put_ret_files intro: same_files_trans)
  have "fpost (exec_read_file n p path s) (\<lambda>(r, s'). same_files s s')"
    unfolding exec_read_file_def Let_def
    by (auto split: option.splits intro!: fpost_bind put dest!: fs_namei_files do_kmalloc_files fs_readi_files fs_iput_files do_kfree_files)
      (blast intro: same_files_trans)+
  then show "exec_read_file n p path s = Some (Inr (r, s')) \<Longrightarrow> same_files s s'" by (auto dest: fpostD)
qed

lemma execve_rel: "fpost (execve bins kd n c p tf path av ev s) (\<lambda>(r, tf', s'). exec_rel p s s')"
  unfolding execve_def
  by (auto split: option.splits intro!: fpost_bind exec_rel_same [OF same_files_refl] dest!: exec_read_files exec_load_rel do_kfree_files)
    (meson exec_rel_same exec_rel_left exec_rel_right)+

lemma leaves_copy:
  "same_files s t \<Longrightarrow> leaves s (copyin c pd va n t)" "same_files s t \<Longrightarrow> leaves s (copyinstr c pd va n t)"
  by (auto simp: kpost_def copyinstr_def split: if_splits dest!: copyin_frame copyinstr_loop_frame mem_only_files intro: same_files_trans)

lemma strvec_leaves: "same_files s t \<Longrightarrow> leaves s (strvec_loop c pd uv st k i t)"
proof (induction k arbitrary: i t)
  case (Suc k)
  have "leaves s (kbind (strvec_loop c pd uv st k (Suc i) (put_ram a bs u)) (\<lambda>(xs, s3). Inr (g xs, s3)))" if "same_files s u" for a bs u g
    by (rule leaves_bind [OF Suc.IH]) (use that in simp_all)
  then show ?case using Suc.prems
    by (auto simp: Let_def split: option.splits intro!: leaves_bind [OF leaves_copy(1)] leaves_bind [OF leaves_copy(2)])
qed simp

lemma strvec_files: "strvec_loop c pd uv st k i s = Inr (r, s') \<Longrightarrow> same_files s s'"
  using strvec_leaves [of s s c pd uv st k i] by (simp add: kpost_def)

lemma exec_vec_files [files]: "exec_vec c p uv k s = Inr (r, s') \<Longrightarrow> same_files s s'"
  by (auto simp: exec_vec_def copy_user_strvec_def kbind_Inr_iff split: if_splits option.splits dest!: do_kmalloc_files strvec_files
      intro: same_files_trans)

lemma kfree_opt_files [files]: "kfree_opt a s = Inr s' \<Longrightarrow> same_files s s'"
  by (auto simp: kfree_opt_def split: if_splits dest: do_kfree_files)

lemma sys_execve_rel: "fpost (sys_execve bins kd n c p tf s) (\<lambda>(r, tf', s'). exec_rel p s s')"
proof -
  have run: "exec_rel p t u" if "execve bins kd n c p tf path av ev t = Some (Inr (r, tf', u))" for path av ev t r tf' u
    using fpostD [OF execve_rel that] by simp
  show ?thesis unfolding sys_execve_def
    by (auto split: option.splits intro!: fpost_bind exec_rel_same [OF same_files_refl]
        dest!: run argstr_files exec_vec_files kfree_opt_files do_kfree_files)
      (meson exec_rel_same exec_rel_left exec_rel_right same_files_trans)+
qed

lemma kernel_execve_inv:
  assumes inv: "files_ok p s" and p: "p < NPROC" and none: "\<And>fd. fd < NOFILE \<Longrightarrow> ofile (ptab s p) fd = None"
  shows "fpost (kernel_execve bins kd n c p path s) (files_ok p)"
proof -
  have img: "files_ok p (upd_proc p (\<lambda>x. x\<lparr>kframe := Some (g x), entry := 0, entry_arg := 0\<rparr>) t)"
    "\<And>fd. fd < NOFILE \<Longrightarrow> ofile (ptab t p) fd = None"
    if "execve bins kd n c p zero_trapframe path [] [] s = Some (Inr (r, tf, t))" for r tf t g
  proof -
    have "exec_rel p s t" using fpostD [OF execve_rel that] by simp
    from exec_rel_none [OF this none] have st: "same_files s t" .
    then show "files_ok p (upd_proc p (\<lambda>x. x\<lparr>kframe := Some (g x), entry := 0, entry_arg := 0\<rparr>) t)"
      by (intro file_inv_same [OF inv]) simp
    show "ofile (ptab t p) fd = None" if "fd < NOFILE" for fd using none [OF that] same_ofile [OF st] by simp
  qed
  have root: "files_ok p (upd_proc p (\<lambda>x. x\<lparr>cwd := r\<rparr>) u)" if "fs_namei n p k t = Some (Inr (r', u))" "files_ok p t" for k t r r' u
    by (rule file_inv_same [OF that(2)]) (simp add: fs_namei_files [OF that(1)])
  show ?thesis unfolding kernel_execve_def Let_def
    by (auto intro!: fpost_bind elim!: root fpostD [OF stdio_inv, rotated -1] simp: img p)
qed

section \<open>Wait\<close>

lemma reap_files [files]: "zombie_reap_locked i s = Inr s' \<Longrightarrow> same_files s s'"
proof (cases "state (ptab s i) = ZOMBIE")
  case True
  assume "zombie_reap_locked i s = Inr s'"
  with True obtain t where t: "kthread_reap i (task_queue_unlink_locked i s) = Inr t"
    and s': "s' = upd_proc i (\<lambda>x. x\<lparr>ctx := zero_context, state := UNUSED, pid := 0, parent := None, xstate := 0, kframe := None, mm := None, p_name := []\<rparr>) t"
    by (auto simp: zombie_reap_locked_def split: sum.splits)
  have st: "same_files s t" using kthread_reap_files [OF t] by simp
  have "dead (ptab s i)" using True by (simp add: dead_def)
  with st show ?thesis unfolding s' same_files_def upd_proc_def by auto
qed (auto simp: zombie_reap_locked_def)

lemma wait_child_files [files]: "wait_child n p s = Inr (r, s') \<Longrightarrow> same_files s s'"
proof -
  have scan: "wait_scan n p is hk fg s = Inr (r, s') \<Longrightarrow> same_files s s'" for "is" hk fg r and s s' :: "'z vfs_scheme"
    by (induction "is" arbitrary: hk fg) (auto simp: Let_def split: if_splits sum.splits dest: reap_files)
  have fg: "same_files s (t\<lparr>fg_pid := k\<rparr>) = same_files s t" for t k by (simp add: same_files_def)
  show "wait_child n p s = Inr (r, s') \<Longrightarrow> same_files s s'"
    by (auto simp: wait_child_def fg split: sum.splits wait_out.splits if_splits dest!: scan)
qed

lemma sys_waitpid_files: "sys_waitpid c p tf s = Some (Inr (r, s')) \<Longrightarrow> same_files s s'"
proof -
  have "fpost (sys_waitpid c p tf s) (\<lambda>(r, s'). same_files s s')"
    unfolding sys_waitpid_def
    by (auto split: wait_out.splits intro!: fpost_bind dest!: wait_child_files sleep_files copyout_files)
      (blast intro: same_files_trans)+
  then show "sys_waitpid c p tf s = Some (Inr (r, s')) \<Longrightarrow> same_files s s'" by (auto dest: fpostD)
qed

section \<open>Runs\<close>

text \<open>
  A step of the system: a system call of the running process, the entry of the first process into user mode, the creation
  of a kernel thread, or anything else that leaves descriptors and open files alone and ends no process.
\<close>

abbreviation running :: "nat \<Rightarrow> 'z sched_scheme \<Rightarrow> bool" where
  "running p s \<equiv> p < NPROC \<and> state (ptab s p) = RUNNING"

inductive kstep :: "'z kernel_scheme \<Rightarrow> 'z kernel_scheme \<Rightarrow> bool" where
  open_call: "running p s \<Longrightarrow> sys_open n c p tf s = Some (Inr (r, s')) \<Longrightarrow> kstep s s'"
| creat_call: "running p s \<Longrightarrow> sys_creat n c p tf s = Some (Inr (r, s')) \<Longrightarrow> kstep s s'"
| close_call: "running p s \<Longrightarrow> sys_close p tf s = Some (Inr (r, s')) \<Longrightarrow> kstep s s'"
| dup_call: "running p s \<Longrightarrow> sys_dup p tf s = Some (Inr (r, s')) \<Longrightarrow> kstep s s'"
| dup2_call: "running p s \<Longrightarrow> sys_dup2 p tf s = Some (Inr (r, s')) \<Longrightarrow> kstep s s'"
| fcntl_call: "running p s \<Longrightarrow> sys_fcntl p tf s = Some (Inr (r, s')) \<Longrightarrow> kstep s s'"
| flock_call: "running p s \<Longrightarrow> sys_flock p tf s = Some (Inr (o', s')) \<Longrightarrow> kstep s s'"
| pipe_call: "running p s \<Longrightarrow> sys_pipe c p tf s = Some (Inr (r, s')) \<Longrightarrow> kstep s s'"
| fork_call: "running p s \<Longrightarrow> sys_fork sy kd c p tf s = Some (Inr (r, s')) \<Longrightarrow> kstep s s'"
| exec_call: "running p s \<Longrightarrow> sys_execve bins kd n c p tf s = Some (Inr (r, tf', s')) \<Longrightarrow> kstep s s'"
| exit_call: "running p s \<Longrightarrow> sys_exit c p tf s = Some (Inr s') \<Longrightarrow> kstep s s'"
| kill: "running p s \<Longrightarrow> exit_signal c p sig s = Inr s' \<Longrightarrow> kstep s s'"
| wait_call: "running p s \<Longrightarrow> sys_waitpid c p tf s = Some (Inr (o', s')) \<Longrightarrow> kstep s s'"
| init_exec: "running p s \<Longrightarrow> (\<And>fd. fd < NOFILE \<Longrightarrow> ofile (ptab s p) fd = None) \<Longrightarrow> kernel_execve bins kd n c p path s = Some (Inr s') \<Longrightarrow> kstep s s'"
| stdio: "running p s \<Longrightarrow> (\<And>fd. fd < NOFILE \<Longrightarrow> ofile (ptab s p) fd = None) \<Longrightarrow> fd_install_stdio n p p s = Some (Inr s') \<Longrightarrow> kstep s s'"
| thread: "running p s \<Longrightarrow> kthread_create_sync sy c fn arg nm par s = Inr (r', s') \<Longrightarrow> kstep s s'"
| other: "same_files s s' \<Longrightarrow> kstep s s'"

definition no_files :: "'z vfs_scheme \<Rightarrow> bool" where
  "no_files s \<longleftrightarrow> (\<forall>q fd. ofile (ptab s q) fd = None) \<and> (\<forall>i < NFILE. f_ref (ftable s i) = 0)"

lemma no_files_ok: "no_files s \<Longrightarrow> files_inv s"
proof -
  assume n: "no_files s"
  then have "fds s i = {}" for i by (auto simp: no_files_def fds_def)
  with n show ?thesis by (auto simp: no_files_def files_inv_def table_inv_def)
qed

lemma running_ok: "running p s \<Longrightarrow> files_inv s \<Longrightarrow> files_ok p s"
  by (auto simp: files_ok_iff dead_def)

lemma keepsD: "keeps_files p m \<Longrightarrow> m = Some (Inr (r, s')) \<Longrightarrow> files_inv s'"
  by (auto simp: files_ok_iff dest: fpostD)

lemma kstep_ok:
  assumes "kstep s s'" and inv: "files_inv s"
  shows "files_inv s'"
  using assms(1)
proof cases
  case (other)
  then show ?thesis using inv files_inv_same by blast
next
  case (exit_call p c tf)
  then show ?thesis using exit_inv [OF running_ok [OF exit_call(1) inv]]
    by (auto simp: sys_exit_def exit_proc_def with_int_def fbind_Inr_iff)
next
  case (kill p c sig)
  then show ?thesis using exit_inv [OF running_ok [OF kill(1) inv]] by (auto simp: exit_signal_def)
next
  case (wait_call p c tf)
  then show ?thesis using inv sys_waitpid_files files_inv_same by blast
next
  case (fork_call p sy kd c tf)
  then show ?thesis using fork_copy_inv [OF running_ok [OF fork_call(1) inv]] by (auto simp: sys_fork_def files_ok_iff)
next
  case (exec_call p bins kd n c tf)
  then show ?thesis using exec_rel_inv [OF _ _ running_ok [OF exec_call(1) inv]] fpostD [OF sys_execve_rel exec_call(2)] by (auto simp: files_ok_iff)
next
  case (thread p)
  then show ?thesis using kthread_create_inv [OF running_ok [OF thread(1) inv]] by (auto simp: files_ok_iff)
next
  case (init_exec p)
  then show ?thesis using fpostD [OF kernel_execve_inv [OF running_ok [OF init_exec(1) inv]]] by (auto simp: files_ok_iff)
next
  case (stdio p)
  then show ?thesis using fpostD [OF stdio_inv [OF running_ok [OF stdio(1) inv]]] by (auto simp: files_ok_iff)
qed (auto intro: keepsD [OF sys_open_inv [OF running_ok [OF _ inv]]] keepsD [OF sys_creat_inv [OF running_ok [OF _ inv]]]
      keepsD [OF sys_close_inv [OF running_ok [OF _ inv]]] keepsD [OF sys_dup_inv [OF running_ok [OF _ inv]]]
      keepsD [OF sys_dup2_inv [OF running_ok [OF _ inv]]] keepsD [OF sys_fcntl_inv [OF running_ok [OF _ inv]]]
      keepsD [OF sys_flock_inv [OF running_ok [OF _ inv]]] keepsD [OF sys_pipe_inv [OF running_ok [OF _ inv]]])

lemma run_ok: "kstep\<^sup>*\<^sup>* s s' \<Longrightarrow> no_files s \<Longrightarrow> files_inv s'"
  by (induction rule: rtranclp_induct) (auto intro: no_files_ok kstep_ok)

text \<open>A process that opens the console as its standard descriptors.\<close>

definition demo_con :: vfs where
  "demo_con = (demo_vfs ((\<lambda>_. zero_inode)(
      0 := demo_dir 0 [\<lparr>de_at = 0x1000, de_name = bytes_of ''dev'', de_ip = 1\<rparr>],
      1 := demo_dir 0 [\<lparr>de_at = 0x2000, de_name = bytes_of ''console'', de_ip = 2\<rparr>],
      2 := zero_inode\<lparr>i_type := T_CHAR, i_ref := 1, i_op := Some Ramfs_iops\<rparr>)))\<lparr>vfs_root_inode := Some 0\<rparr>"

lemma demo_console:
  assumes "inodes s = (inodes demo_con)(2 := zero_inode\<lparr>i_type := T_CHAR, i_ref := of_nat k + 1, i_op := Some Ramfs_iops\<rparr>)"
    and "k < 5" and "vfs_root_inode s = Some 0"
  shows "fs_namei (Suc 0) p (bytes_of ''/dev/console'') s = Some (Inr (Some 2, fs_idup 2 s))"
proof -
  let ?path = "bytes_of ''/dev/console''"
  have path: "?path = [0x2f, 0x64, 0x65, 0x76, 0x2f, 0x63, 0x6f, 0x6e, 0x73, 0x6f, 0x6c, 0x65]"
    "bytes_of ''dev'' = [0x64, 0x65, 0x76]" "bytes_of ''console'' = [0x63, 0x6f, 0x6e, 0x73, 0x6f, 0x6c, 0x65]" by (simp_all add: bytes_of_def)
  have elems: "path_elems ?path = [bytes_of ''dev'', bytes_of ''console'']"
    by (simp add: path path_elems.simps skipelem_def DIRSIZ_def NAME_MAX_def Let_def)
  have k: "k = 0 \<or> k = 1 \<or> k = 2 \<or> k = 3 \<or> k = 4" using assms(2) by auto
  have l: "live s i \<longleftrightarrow> i \<in> {0, 1, 2}" for i
    using k by (auto simp: live_def assms(1) demo_con_def demo_dir_def zero_inode_def NINODE_def)
  then have "lookup_ok s"
    by (auto simp: lookup_ok_def assms(1) demo_con_def demo_dir_def zero_inode_def good_name_def NAME_MAX_def path)
  moreover have "(if hd ?path = 0x2f then vfs_root_inode s else cwd (ptab s p)) = Some 0" by (simp add: path assms(3))
  ultimately have "fs_namei (Suc 0) p ?path s =
    Some (Inr (case resolve s 0 (path_elems ?path) of None \<Rightarrow> (None, s) | Some i \<Rightarrow> (Some i, fs_idup i s)))"
    using namei_run [of s ?path p 0 0] l by (simp add: path)
  then show ?thesis by (simp add: elems) (simp add: path assms(1) demo_con_def demo_dir_def zero_inode_def)
qed

definition demo_std :: "bool \<Rightarrow> nat \<Rightarrow> 'z vfs_scheme \<Rightarrow> 'z vfs_scheme" where
  "demo_std rd f s = upd_file f (\<lambda>_. \<lparr>f_type = FD_CHAR, f_ref = 1, f_readable = rd, f_writable = \<not> rd, f_flags = (if rd then O_RDONLY else O_WRONLY), f_flock = 0, f_ip = Some 2, f_off = 0\<rparr>) (fs_idup 2 s)"

lemma demo_open_console:
  assumes "inodes s = (inodes demo_con)(2 := zero_inode\<lparr>i_type := T_CHAR, i_ref := of_nat k + 1, i_op := Some Ramfs_iops\<rparr>)"
    and "k < 5" and "vfs_root_inode s = Some 0" and "find (\<lambda>i. f_ref (ftable s i) = 0) [0..<NFILE] = Some f"
  shows "open_console (Suc 0) p rd (\<not> rd) s = Some (Inr (Some f, demo_std rd f s))"
  using assms(4) by (simp add: open_console_def demo_console [OF assms(1-3)] filealloc_def fs_idup_def demo_std_def upd_file_def fret_def upd_inode_def comp_def)

definition demo_kernel :: kernel where
  "demo_kernel = vfs.extend demo_con (kernel.fields
     \<lparr>fpu_owner = (\<lambda>_. None), cr0_ts = (\<lambda>_. True), fx_hw = (\<lambda>_. []), fpu_used = (\<lambda>_. False), fpu_state = (\<lambda>_. [])\<rparr>
     (\<lambda>_. \<lparr>ki_threadfn = 0, ki_arg = 0, ki_name = [], ki_result = None, ki_done = False\<rparr>) \<lparr>nxt = id, prv = id\<rparr>)"

lemma demo_kernel_simps [simp]:
  "ptab demo_kernel = (\<lambda>_. zero_proc)(1 := zero_proc\<lparr>state := RUNNING, pid := 1, mm := Some demo_mm\<rparr>)" "ftable demo_kernel = (\<lambda>_. demo_file)"
  "vfs_root_inode demo_kernel = Some 0" "inodes demo_kernel = inodes demo_con"
  by (simp_all add: demo_kernel_def vfs.defs demo_con_def demo_vfs_def)

definition demo_open :: kernel where
  "demo_open = set_fd 1 2 (Some 1) 0 (upd_file 1 (\<lambda>x. x\<lparr>f_ref := f_ref x + 1\<rparr>)
     (set_fd 1 1 (Some 1) 0 (set_fd 1 0 (Some 0) 0 (demo_std False 1 (demo_std True 0 demo_kernel)))))"

lemma demo_stdio: "fd_install_stdio (Suc 0) 1 1 demo_kernel = Some (Inr demo_open)"
proof -
  have a: "open_console (Suc 0) 1 True False demo_kernel = Some (Inr (Some 0, demo_std True 0 demo_kernel))"
    using demo_open_console [of demo_kernel 0 0 1 True] by (simp add: demo_con_def demo_vfs_def demo_file_def NFILE_def upt_conv_Cons fun_eq_iff)
  have b: "open_console (Suc 0) 1 False True (demo_std True 0 demo_kernel) = Some (Inr (Some 1, demo_std False 1 (demo_std True 0 demo_kernel)))"
    using demo_open_console [of "demo_std True 0 demo_kernel" 1 1 1 False]
    by (simp add: demo_con_def demo_vfs_def demo_file_def NFILE_def upt_conv_Cons fun_eq_iff demo_std_def fs_idup_def upd_file_def)
  have "f_ref (ftable (set_fd 1 1 (Some 1) 0 (set_fd 1 0 (Some 0) 0 (demo_std False 1 (demo_std True 0 demo_kernel)))) 1) = 1"
    by (simp add: set_fd_def upd_proc_def demo_std_def)
  then show ?thesis by (simp add: fd_install_stdio_def demo_open_def a [unfolded One_nat_def] b [unfolded One_nat_def] filedup_def fret_def)
qed

lemma demo_open_files:
  "ofile (ptab demo_open (Suc 0)) = (\<lambda>_. None)(0 := Some 0, Suc 0 := Some (Suc 0), 2 := Some (Suc 0))"
  "f_ref (ftable demo_open 0) = 1" "f_ref (ftable demo_open (Suc 0)) = 2" "f_ip (ftable demo_open 0) = Some 2"
  "f_ip (ftable demo_open (Suc 0)) = Some 2" "f_flock (ftable demo_open i) = 0" "f_type (ftable demo_open 0) = FD_CHAR"
  "state (ptab demo_open (Suc 0)) = RUNNING"
  by (auto simp: demo_open_def set_fd_def upd_proc_def upd_file_def demo_std_def fs_idup_def zero_proc_def demo_file_def fun_eq_iff)

lemma demo_start: "no_files demo_kernel" "kstep demo_kernel demo_open"
proof -
  have of: "ofile (ptab demo_kernel q) fd = None" for q fd by (simp add: zero_proc_def)
  then show "no_files demo_kernel" by (simp add: no_files_def demo_file_def)
  show "kstep demo_kernel demo_open" by (rule kstep.stdio [of 1, OF _ of demo_stdio]) (simp add: NPROC_def)
qed

text \<open>C1: Whatever sequence of system calls the processes make from a state without open files - opening, creating,
  duplicating, closing, locking, piping, forking, executing, exiting, being killed and waiting for children - and whatever
  kernel threads are created, the reference count of every file is the number of descriptors of all processes that refer to
  it. Hence a descriptor never refers to a closed file: its file is in the table, has a positive count, an inode and a type.
  A slot of the process table that is unused or a zombie has no descriptors.\<close>

theorem file_refs_exact:
  assumes "no_files s0" and "kstep\<^sup>*\<^sup>* s0 s"
  shows "(\<forall>i. i < NFILE \<longrightarrow> f_ref (ftable s i) = int (card (fds s i)))
    \<and> (\<forall>p fd f. p < NPROC \<longrightarrow> fdget p fd s = Some f \<longrightarrow> \<not> dead (ptab s p) \<and>
         f < NFILE \<and> 0 < f_ref (ftable s f) \<and> f_ip (ftable s f) \<noteq> None \<and> f_type (ftable s f) \<noteq> FD_NONE)"
proof (intro conjI allI impI)
  have inv: "files_inv s" using run_ok assms by blast
  then have tab: "table_inv s (\<lambda>_. 0) {}" by (simp add: files_inv_def)
  then show ref: "f_ref (ftable s i) = int (card (fds s i))" if "i < NFILE" for i using that by (simp add: table_inv_def)
  fix p fd f
  assume p: "p < NPROC" and fd: "fdget p fd s = Some f"
  then have o': "nat fd < NOFILE" "ofile (ptab s p) (nat fd) = Some f" by (simp_all add: fdget_Some)
  show "\<not> dead (ptab s p)" using inv o' by (auto simp: files_inv_def)
  show f: "f < NFILE" by (rule files_inv_range [OF inv p o'])
  have "(p, nat fd) \<in> fds s f" using p o' by (simp add: fds_def)
  then have "0 < card (fds s f)" by (auto simp: card_gt_0_iff)
  then show pos: "0 < f_ref (ftable s f)" using ref f by simp
  show "f_ip (ftable s f) \<noteq> None" "f_type (ftable s f) \<noteq> FD_NONE" using tab f pos by (simp_all add: table_inv_def)
qed

theorem file_refs_exact_witness: "card (fds demo_open 1) = 2 \<and> fdget 1 0 demo_open = Some 0 \<and> f_ip (ftable demo_open 0) \<noteq> None"
proof -
  have "kstep\<^sup>*\<^sup>* demo_kernel demo_open" using demo_start(2) by blast
  note w = file_refs_exact [OF demo_start(1) this]
  have "f_ref (ftable demo_open 1) = int (card (fds demo_open 1))" using w [THEN conjunct1] by (simp add: NFILE_def)
  moreover have "fdget 1 0 demo_open = Some 0 \<Longrightarrow> f_ip (ftable demo_open 0) \<noteq> None"
    using w [THEN conjunct2, rule_format, of 1 0 0] by (simp add: NPROC_def)
  moreover have "fdget 1 0 demo_open = Some 0" by (simp add: fdget_def NOFILE_def demo_open_files)
  ultimately show ?thesis by (simp add: demo_open_files)
qed

text \<open>C14: In every such run \<open>flock\<close> keeps its promise: while an open file holds an exclusive lock on an inode, no other
  open file of that inode holds a lock, shared or exclusive.\<close>

theorem flock_exclusive:
  assumes "no_files s0" and "kstep\<^sup>*\<^sup>* s0 s" and "i < NFILE" and "j < NFILE" and "i \<noteq> j"
    and "0 < f_ref (ftable s i)" and "0 < f_ref (ftable s j)" and "f_ip (ftable s j) = f_ip (ftable s i)"
    and "f_flock (ftable s i) = LOCK_EX"
  shows "f_flock (ftable s j) = 0"
proof -
  have inv: "table_inv s (\<lambda>_. 0) {}" using run_ok [OF assms(2,1)] by (simp add: files_inv_def)
  then have ip: "f_ip (ftable s i) \<noteq> None" using assms(3,6) by (simp add: table_inv_def)
  from inv have "\<forall>i < NFILE. \<forall>j < NFILE. i \<noteq> j \<longrightarrow> 0 < f_ref (ftable s i) \<longrightarrow> 0 < f_ref (ftable s j) \<longrightarrow> f_ip (ftable s i) \<noteq> None
    \<longrightarrow> f_ip (ftable s j) = f_ip (ftable s i) \<longrightarrow> f_flock (ftable s i) = LOCK_EX \<longrightarrow> f_flock (ftable s j) = 0"
    unfolding table_inv_def by (elim conjE)
  from this [rule_format, OF assms(3-7) ip assms(8,9)] show ?thesis .
qed

theorem flock_exclusive_witness:
  "\<exists>s. sys_flock 1 (demo_tf\<lparr>tf_ebx := 0, tf_ecx := 6\<rparr>) demo_open = Some (Inr (PRet 0, s)) \<and> f_flock (ftable s 0) = LOCK_EX \<and> f_flock (ftable s 1) = 0"
proof -
  let ?s = "upd_file 0 (\<lambda>x. x\<lparr>f_flock := LOCK_EX\<rparr>) demo_open"
  let ?tf = "demo_tf\<lparr>tf_ebx := 0, tf_ecx := 6\<rparr>"
  have c: "\<not> flock_conflict 0 2 2 demo_open" by (simp add: flock_conflict_def find_None_iff demo_open_files(6))
  then have r: "sys_flock 1 ?tf demo_open = Some (Inr (PRet 0, ?s))"
    by (simp add: sys_flock_def with_int_def with_addr_def argint_def argaddr_def argraw_def fdget_def NOFILE_def demo_open_files fileflock_def
        LOCK_NB_def LOCK_UN_def LOCK_SH_def LOCK_EX_def Let_def)
  have "running 1 demo_open" by (simp add: NPROC_def demo_open_files)
  then have "kstep\<^sup>*\<^sup>* demo_kernel ?s" using demo_start(2) kstep.flock_call [OF _ r] by (meson converse_rtranclp_into_rtranclp r_into_rtranclp)
  from flock_exclusive [OF demo_start(1) this, of 0 1] have "f_flock (ftable ?s 1) = 0" by (simp add: NFILE_def demo_open_files)
  with r show ?thesis by (intro exI [of _ ?s]) simp
qed

section \<open>Times\<close>

text \<open>C40: The number of ticks of a time is the number of seconds and started hundredths of a second, at least 1 for a time that
  is not 0, but modulo \<open>2 ^ 32\<close>: the product is computed in \<open>uint64\<close>, which has 32 bits here, so that the test for a
  result above \<open>0xffffffff\<close> never fires and a sleep of about 497 days ends at once.\<close>

theorem timespec_to_ticks_mod:
  assumes "nsec < NSEC_PER_SEC" and "sec \<noteq> 0 \<or> nsec \<noteq> 0"
  shows "unat (timespec_to_ticks sec nsec) = max 1 ((unat sec * 100 + (unat nsec + 9999999) div 10000000) mod 2 ^ 32)"
proof -
  have per: "NSEC_PER_TICK = 10000000" by (simp add: NSEC_PER_TICK_def NSEC_PER_SEC_def TIMER_HZ_def)
  have n: "unat nsec < 1000000000" using assms(1) by (simp add: NSEC_PER_SEC_def word_less_nat_alt)
  have a: "unat (nsec + NSEC_PER_TICK - 1) = unat nsec + 9999999"
  proof -
    have e: "nsec + NSEC_PER_TICK - 1 = nsec + 9999999" by (simp add: per)
    show ?thesis unfolding e using n by (simp add: unat_word_ariths(1))
  qed
  have "unat ((nsec + NSEC_PER_TICK - 1) div NSEC_PER_TICK) = (unat nsec + 9999999) div 10000000"
    unfolding unat_div a by (simp add: per)
  then have t: "unat (sec * TIMER_HZ + (nsec + NSEC_PER_TICK - 1) div NSEC_PER_TICK) = (unat sec * 100 + (unat nsec + 9999999) div 10000000) mod 2 ^ 32"
    by (simp add: unat_word_ariths TIMER_HZ_def mod_simps)
  define w where "w = sec * TIMER_HZ + (nsec + NSEC_PER_TICK - 1) div NSEC_PER_TICK"
  have "unat (if w = 0 then 1 else if 0xffffffff < w then 0xffffffff else w) = max 1 (unat w)"
  proof (cases "w = 0")
    case False
    then have "0 < unat w" by (simp add: unat_gt_0)
    moreover have "\<not> 0xffffffff < w" by (simp add: not_less word_le_nat_alt) (use unsigned_less [of w, where ?'a = nat] in simp)
    ultimately show ?thesis using False by (simp add: max_def)
  qed simp
  then show ?thesis using assms(2) unfolding timespec_to_ticks_def Let_def t [symmetric] w_def by auto
qed

theorem timespec_to_ticks_mod_witness: "unat (timespec_to_ticks 42949673 0) = 4 \<and> unat (timespec_to_ticks 1 1) = 101"
  using timespec_to_ticks_mod [of 0 42949673] timespec_to_ticks_mod [of 1 1] by (simp add: NSEC_PER_SEC_def)

section \<open>Requests for kernel threads\<close>

lemma wakeup_requests:
  assumes "wakeup ch s = Inr s'"
  shows "kinfo s' = kinfo s" "kthread_create_list s' = kthread_create_list s"
proof -
  let ?P = "\<lambda>t. kinfo t = kinfo s \<and> kthread_create_list t = kthread_create_list s"
  have "?P s'" if "kfold (\<lambda>i s. if state (ptab s i) = SLEEPING \<and> chan (ptab s i) = ch then wake_one i s else Inr s) [0..<NPROC] s = Inr s'"
    by (rule kfold_inv [OF _ that, where P = ?P]) (auto simp: wake_one_def task_queue_enqueue_locked_def upd_proc_def split: if_splits)
  with assms show "kinfo s' = kinfo s" "kthread_create_list s' = kthread_create_list s" by (auto simp: wakeup_def split: if_splits)
qed

lemma kthread_request_queued:
  assumes "dlist (kthread_create_list s) KHead []" and "kthread_request fn arg nm s = Inr (Some a, s')"
  shows "dlist (kthread_create_list s') KHead [KInfo a]" "\<not> ki_done (kinfo s' a)"
proof -
  obtain s1 s2 where "do_kmalloc sizeof_kthread_create_info s = Inr (Some a, s1)" and w: "wakeup (Some ChKthreadList) s2 = Inr s'"
    and s2: "kthread_create_list s2 = list_add_tail (KInfo a) KHead (INIT_LIST_HEAD (KInfo a) (kthread_create_list s))" "\<not> ki_done (kinfo s2 a)"
    using assms(2) by (auto simp: kthread_request_def Let_def kbind_Inr_iff do_kmalloc_def set_heap_def split: option.splits sum.splits)
  have "dlist (INIT_LIST_HEAD (KInfo a) (kthread_create_list s)) KHead []"
    using assms(1) by (simp add: dlist_def INIT_LIST_HEAD_def set_prv_def set_nxt_def)
  from dlist_list_add_tail [OF this, of "KInfo a"] have "dlist (kthread_create_list s2) KHead [KInfo a]" by (simp add: s2)
  then show "dlist (kthread_create_list s') KHead [KInfo a]" "\<not> ki_done (kinfo s' a)" using wakeup_requests [OF w] s2(2) by simp_all
qed

text \<open>C32: A request to \<open>kthreadd\<close> can be lost. \<open>kthreadd\<close> finds its list empty and releases the lock; before it goes to sleep,
  another process queues a request, wakes the sleepers on the list, of which \<open>kthreadd\<close> is not yet one, and waits for the
  request. Then \<open>kthreadd\<close> sleeps although a request is queued, and the two processes wait for each other.\<close>

theorem kthreadd_lost_wakeup:
  assumes "dlist (kthread_create_list s) KHead []" and "kd \<noteq> p"
    and "kthread_request fn arg nm s = Inr (Some a, s1)" and "kthread_wait p a s1 = Inr (w, s2)" and "kthreadd_sleep kd s2 = Inr s3"
  shows "kthreadd_check s \<and> \<not> kthreadd_check s3 \<and> \<not> ki_done (kinfo s3 a)
    \<and> state (ptab s3 kd) = SLEEPING \<and> chan (ptab s3 kd) = Some ChKthreadList
    \<and> state (ptab s3 p) = SLEEPING \<and> chan (ptab s3 p) = Some (ChInfo (unat a))"
proof -
  note q = kthread_request_queued [OF assms(1,3)]
  have s2: "s2 = upd_proc p (\<lambda>x. x\<lparr>chan := Some (ChInfo (unat a)), wakeup_tick := 0, state := SLEEPING\<rparr>) s1"
    using assms(4) q(2) by (simp add: kthread_wait_def)
  have s3: "s3 = upd_proc kd (\<lambda>x. x\<lparr>chan := Some ChKthreadList, wakeup_tick := 0, state := SLEEPING\<rparr>) s2"
    using assms(5) by (simp add: kthreadd_sleep_def sleep_def)
  show ?thesis using assms(1,2) q dlist_list_empty [OF assms(1)] dlist_list_empty [OF q(1)]
    by (simp add: kthreadd_check_def s2 s3 upd_proc_def)
qed

theorem kthreadd_lost_wakeup_witness:
  "\<exists>a s1 s2 s3. kthread_request 0 0 None demo_kernel = Inr (Some a, s1) \<and> kthread_wait 1 a s1 = Inr (None, s2)
     \<and> kthreadd_sleep 2 s2 = Inr s3 \<and> state (ptab s3 2) = SLEEPING \<and> state (ptab s3 1) = SLEEPING \<and> \<not> kthreadd_check s3"
proof -
  obtain a h where k: "kmalloc 280 demo_heap = Inr (Some a, h)" using demo_kmalloc(3) by blast
  have heap: "heap_of demo_kernel = demo_heap" by (simp add: demo_kernel_def vfs.defs demo_con_def demo_vfs_def heap_of_def)
  have l: "dlist (kthread_create_list demo_kernel) KHead []" by (simp add: demo_kernel_def vfs.defs kernel.defs dlist_def)
  have w: "wakeup (Some ChKthreadList) t = Inr t" if "ptab t = ptab demo_kernel" for t :: kernel
  proof -
    have "kfold (\<lambda>i s. if state (ptab s i) = SLEEPING \<and> chan (ptab s i) = Some ChKthreadList then wake_one i s else Inr s) xs t = Inr t" for xs
      by (induction xs) (simp_all add: that zero_proc_def)
    then show ?thesis by (simp add: wakeup_def)
  qed
  obtain s1 where s1: "kthread_request 0 0 None demo_kernel = Inr (Some a, s1)"
    using k by (simp add: kthread_request_def do_kmalloc_def heap sizeof_kthread_create_info_def Let_def w set_heap_def)
  obtain s2 where s2: "kthread_wait 1 a s1 = Inr (None, s2)" using kthread_request_queued(2) [OF l s1] by (simp add: kthread_wait_def)
  obtain s3 where s3: "kthreadd_sleep 2 s2 = Inr s3" by (simp add: kthreadd_sleep_def sleep_def)
  from kthreadd_lost_wakeup [OF l _ s1 s2 s3] s1 s2 s3 show ?thesis by auto
qed

end
