(* ===== verification/Spec2Isabelle.thy ===== *)
theory Spec2Isabelle
  imports Mem_Probe Spinlock Sched_Props Futex Pipe Vm_Map Namei_Props Life_Props
begin

text \<open>
  Verification of the x86 kernel of tiny_os (src/arch/x86/kernel).
\<close>

end
